(* ===== verification/Prelude.thy ===== *)
theory Prelude
  imports Main "HOL-Library.Word"
begin

text \<open>
  Shared vocabulary of the development.

  \<^item> The C integer types of \<open>src/xv6/types.h\<close> as words of their width.
  \<^item> The ways a piece of kernel code can fail to return (\<open>halt\<close>) and the result type built
    from it, with the sequencing operator \<open>andthen\<close> the components are written with.
  \<^item> Little-endian access to 32-bit and 16-bit fields of a byte array, the layout every on-disk
    and on-wire structure of the program uses.
  \<^item> Table scans (``first slot that satisfies P''), the shape of every allocator of fixed tables in
    the kernel, and element-wise updates of tables.
\<close>

unbundle bit_operations_syntax

type_synonym u8 = "8 word"
type_synonym u16 = "16 word"
type_synonym u32 = "32 word"
type_synonym u64 = "64 word"

named_theorems kernel_defs \<open>definitions unfolded when a concrete run of the model is evaluated\<close>

named_theorems result_simps \<open>inversion of sequenced computations\<close>

section \<open>Results\<close>

text \<open>
  \<open>Panic m\<close> is a call of \<open>panic(m)\<close>. \<open>Sleep c\<close> says that the process went to sleep on channel
  \<open>c\<close> and that nothing in the run that is being modelled wakes it. \<open>Undefined w\<close> marks behaviour
  that C leaves undefined (an array access out of range, a null pointer). \<open>Diverge\<close> is a loop
  that never ends. \<open>Exit\<close> is a call of \<open>exit\<close> in a user program.
\<close>

datatype halt = Panic string | Sleep string | Undefined string | Diverge | Exit string

type_synonym 'a result = "halt + 'a"

definition andthen :: "'e + 'a \<Rightarrow> ('a \<Rightarrow> 'e + 'b) \<Rightarrow> 'e + 'b" where
  "andthen m f = (case m of Inl e \<Rightarrow> Inl e | Inr x \<Rightarrow> f x)"

lemma andthen_Inr [simp]: "andthen (Inr x) f = f x"
  by (simp add: andthen_def)

lemma andthen_Inl [simp]: "andthen (Inl e) f = Inl e"
  by (simp add: andthen_def)

lemma andthen_eq_Inr_iff [result_simps]:
  "andthen m f = Inr y \<longleftrightarrow> (\<exists>x. m = Inr x \<and> f x = Inr y)"
  by (simp add: andthen_def split: sum.split)

lemma andthen_eq_Inl_iff:
  "andthen m f = Inl e \<longleftrightarrow> m = Inl e \<or> (\<exists>x. m = Inr x \<and> f x = Inl e)"
  by (auto simp: andthen_def split: sum.split)

lemma andthen_assoc: "andthen (andthen m f) g = andthen m (\<lambda>x. andthen (f x) g)"
  by (simp add: andthen_def split: sum.split)

lemma andthen_cong [fundef_cong]:
  "m = m' \<Longrightarrow> (\<And>x. m' = Inr x \<Longrightarrow> f x = f' x) \<Longrightarrow> andthen m f = andthen m' f'"
  by (simp add: andthen_def split: sum.split)

text \<open>A guard: halt unless the condition holds.\<close>

definition assert :: "bool \<Rightarrow> 'e \<Rightarrow> 'e + unit" where
  "assert P e = (if P then Inr () else Inl e)"

lemma assert_True [simp]: "assert True e = Inr ()"
  by (simp add: assert_def)

lemma assert_False [simp]: "assert False e = Inl e"
  by (simp add: assert_def)

lemma assert_eq_Inr_iff [result_simps]: "assert P e = Inr u \<longleftrightarrow> P"
  by (simp add: assert_def)

lemma sum_case_Inr_iff [result_simps]:
  "(case m of Inl e \<Rightarrow> Inl e | Inr x \<Rightarrow> f x) = Inr y \<longleftrightarrow> (\<exists>x. m = Inr x \<and> f x = Inr y)"
  by (simp split: sum.split)

section \<open>Bytes and little-endian fields\<close>

definition le32 :: "u32 \<Rightarrow> u8 list" where
  "le32 w = [ucast w, ucast (drop_bit 8 w), ucast (drop_bit 16 w), ucast (drop_bit 24 w)]"

definition of_le32 :: "u8 \<Rightarrow> u8 \<Rightarrow> u8 \<Rightarrow> u8 \<Rightarrow> u32" where
  "of_le32 a b c d =
     ucast a OR push_bit 8 (ucast b) OR push_bit 16 (ucast c) OR push_bit 24 (ucast d)"

definition le16 :: "u16 \<Rightarrow> u8 list" where
  "le16 w = [ucast w, ucast (drop_bit 8 w)]"

definition of_le16 :: "u8 \<Rightarrow> u8 \<Rightarrow> u16" where
  "of_le16 a b = ucast a OR push_bit 8 (ucast b)"

lemma length_le32 [simp]: "length (le32 w) = 4"
  by (simp add: le32_def)

lemma length_le16 [simp]: "length (le16 w) = 2"
  by (simp add: le16_def)

lemma byte_bit_out [simp]: "8 \<le> n \<Longrightarrow> \<not> bit (b :: u8) n"
  using bit_imp_le_length [of b n] by auto

lemma of_le32_parts:
  "of_le32 (ucast w) (ucast (drop_bit 8 w)) (ucast (drop_bit 16 w)) (ucast (drop_bit 24 w)) = w"
proof (rule bit_word_eqI)
  fix n
  assume "n < LENGTH(32)"
  then consider "n < 8" | "8 \<le> n" "n < 16" | "16 \<le> n" "n < 24" | "24 \<le> n" "n < 32"
    by fastforce
  then show "bit (of_le32 (ucast w) (ucast (drop_bit 8 w)) (ucast (drop_bit 16 w))
      (ucast (drop_bit 24 w))) n \<longleftrightarrow> bit w n"
    by cases (auto simp: of_le32_def bit_simps)
qed

lemma le32_of_le32: "le32 (of_le32 a b c d) = [a, b, c, d]"
  unfolding of_le32_def le32_def by (auto intro!: bit_word_eqI simp: bit_simps)

lemma of_le16_parts: "of_le16 (ucast w) (ucast (drop_bit 8 w)) = w"
proof (rule bit_word_eqI)
  fix n
  assume "n < LENGTH(16)"
  then consider "n < 8" | "8 \<le> n" "n < 16" by fastforce
  then show "bit (of_le16 (ucast w) (ucast (drop_bit 8 w))) n \<longleftrightarrow> bit w n"
    by cases (auto simp: of_le16_def bit_simps)
qed

lemma le16_of_le16: "le16 (of_le16 a b) = [a, b]"
  unfolding of_le16_def le16_def by (auto intro!: bit_word_eqI simp: bit_simps)

text \<open>
  \<open>put_bytes off xs bs\<close> overwrites \<open>bs\<close> from offset \<open>off\<close> (a \<open>memmove\<close> into a buffer), and
  \<open>get_bytes off n bs\<close> copies out. A transfer past the end of the buffer is not a case of these
  functions; code that can run past the end checks first.
\<close>

definition put_bytes :: "nat \<Rightarrow> 'a list \<Rightarrow> 'a list \<Rightarrow> 'a list" where
  "put_bytes off xs bs = take off bs @ xs @ drop (off + length xs) bs"

definition get_bytes :: "nat \<Rightarrow> nat \<Rightarrow> 'a list \<Rightarrow> 'a list" where
  "get_bytes off n bs = take n (drop off bs)"

definition get32 :: "u8 list \<Rightarrow> nat \<Rightarrow> u32" where
  "get32 bs off = of_le32 (bs ! off) (bs ! (off + 1)) (bs ! (off + 2)) (bs ! (off + 3))"

definition put32 :: "nat \<Rightarrow> u32 \<Rightarrow> u8 list \<Rightarrow> u8 list" where
  "put32 off w bs = put_bytes off (le32 w) bs"

definition get16 :: "u8 list \<Rightarrow> nat \<Rightarrow> u16" where
  "get16 bs off = of_le16 (bs ! off) (bs ! (off + 1))"

definition put16 :: "nat \<Rightarrow> u16 \<Rightarrow> u8 list \<Rightarrow> u8 list" where
  "put16 off w bs = put_bytes off (le16 w) bs"

lemma length_put_bytes [simp]:
  "off + length xs \<le> length bs \<Longrightarrow> length (put_bytes off xs bs) = length bs"
  by (simp add: put_bytes_def)

lemma length_get_bytes [simp]: "off + n \<le> length bs \<Longrightarrow> length (get_bytes off n bs) = n"
  by (simp add: get_bytes_def)

lemma nth_put_bytes:
  assumes "off + length xs \<le> length bs" and "i < length bs"
  shows "put_bytes off xs bs ! i =
    (if i < off then bs ! i else if i < off + length xs then xs ! (i - off) else bs ! i)"
  using assms by (auto simp: put_bytes_def nth_append)

lemma get_put_bytes_same:
  "off + length xs \<le> length bs \<Longrightarrow> get_bytes off (length xs) (put_bytes off xs bs) = xs"
  by (simp add: get_bytes_def put_bytes_def)

lemma get_put_bytes_other:
  assumes "off + length xs \<le> length bs" and "off' + n \<le> length bs"
    and "off' + n \<le> off \<or> off + length xs \<le> off'"
  shows "get_bytes off' n (put_bytes off xs bs) = get_bytes off' n bs"
  by (rule nth_equalityI) (use assms in \<open>auto simp: get_bytes_def nth_put_bytes\<close>)

lemma length_put32 [simp]: "off + 4 \<le> length bs \<Longrightarrow> length (put32 off w bs) = length bs"
  by (simp add: put32_def)

lemma length_put16 [simp]: "off + 2 \<le> length bs \<Longrightarrow> length (put16 off w bs) = length bs"
  by (simp add: put16_def)

lemma get32_put32_same: "off + 4 \<le> length bs \<Longrightarrow> get32 (put32 off w bs) off = w"
  by (simp add: get32_def put32_def nth_put_bytes le32_def of_le32_parts)

lemma get32_put32_other:
  assumes "off + 4 \<le> length bs" and "off' + 4 \<le> length bs"
    and "off' + 4 \<le> off \<or> off + 4 \<le> off'"
  shows "get32 (put32 off w bs) off' = get32 bs off'"
  using assms by (auto simp: get32_def put32_def nth_put_bytes)

lemma get16_put16_same: "off + 2 \<le> length bs \<Longrightarrow> get16 (put16 off w bs) off = w"
  by (simp add: get16_def put16_def nth_put_bytes le16_def of_le16_parts)

lemma get16_put16_other:
  assumes "off + 2 \<le> length bs" and "off' + 2 \<le> length bs"
    and "off' + 2 \<le> off \<or> off + 2 \<le> off'"
  shows "get16 (put16 off w bs) off' = get16 bs off'"
  using assms by (auto simp: get16_def put16_def nth_put_bytes)

section \<open>Scanning tables\<close>

text \<open>The index of the first entry from \<open>i\<close> on that satisfies \<open>P\<close>.\<close>

fun scan_from :: "('a \<Rightarrow> bool) \<Rightarrow> nat \<Rightarrow> 'a list \<Rightarrow> nat option" where
  "scan_from P i [] = None"
| "scan_from P i (x # xs) = (if P x then Some i else scan_from P (Suc i) xs)"

definition scan :: "('a \<Rightarrow> bool) \<Rightarrow> 'a list \<Rightarrow> nat option" where
  "scan P xs = scan_from P 0 xs"

lemma scan_from_shift: "scan_from P (Suc i) xs = map_option Suc (scan_from P i xs)"
  by (induction P i xs rule: scan_from.induct) auto

lemma scan_Nil [simp]: "scan P [] = None"
  by (simp add: scan_def)

lemma scan_Cons [simp]: "scan P (x # xs) = (if P x then Some 0 else map_option Suc (scan P xs))"
  by (simp add: scan_def scan_from_shift)

lemma scan_None: "scan P xs = None \<longleftrightarrow> (\<forall>x \<in> set xs. \<not> P x)"
  by (induction xs) auto

lemma scan_None_nth: "scan P xs = None \<longleftrightarrow> (\<forall>i < length xs. \<not> P (xs ! i))"
  by (simp add: scan_None all_set_conv_all_nth)

lemma scan_Some:
  "scan P xs = Some k \<longleftrightarrow> k < length xs \<and> P (xs ! k) \<and> (\<forall>j < k. \<not> P (xs ! j))"
proof (induction xs arbitrary: k)
  case (Cons x xs)
  then show ?case
    by (cases k) (auto simp: All_less_Suc2)
qed simp

lemma scan_SomeD:
  assumes "scan P xs = Some k"
  shows "k < length xs" and "P (xs ! k)" and "j < k \<Longrightarrow> \<not> P (xs ! j)"
  using assms by (auto simp: scan_Some)

lemma find_SomeD: "find P xs = Some x \<Longrightarrow> x \<in> set xs \<and> P x"
  by (induction xs) (auto split: if_splits)

lemma find_exists: "x \<in> set xs \<Longrightarrow> P x \<Longrightarrow> \<exists>y. find P xs = Some y"
  by (induction xs) auto

text \<open>Apply a function to one entry of a table.\<close>

definition upd_nth :: "nat \<Rightarrow> ('a \<Rightarrow> 'a) \<Rightarrow> 'a list \<Rightarrow> 'a list" where
  "upd_nth i f xs = xs[i := f (xs ! i)]"

lemma length_upd_nth [simp]: "length (upd_nth i f xs) = length xs"
  by (simp add: upd_nth_def)

lemma nth_upd_nth:
  "j < length xs \<Longrightarrow> upd_nth i f xs ! j = (if i = j then f (xs ! j) else xs ! j)"
  by (simp add: upd_nth_def nth_list_update)

lemma scan_cong: "length xs = length ys \<Longrightarrow> (\<And>j. j < length xs \<Longrightarrow> P (xs ! j) \<longleftrightarrow> P (ys ! j)) \<Longrightarrow> scan P xs = scan P ys"
proof (induction xs ys rule: list_induct2)
  case (Cons x xs y ys)
  have "P x \<longleftrightarrow> P y" using Cons.prems [of 0] by simp
  moreover have "scan P xs = scan P ys" using Cons.IH Cons.prems [of "Suc _"] by simp
  ultimately show ?case by simp
qed simp

lemma scan_upd_nth:
  "k < length t \<Longrightarrow> (P (f (t ! k)) \<longleftrightarrow> P (t ! k)) \<Longrightarrow> scan P (upd_nth k f t) = scan P t"
proof -
  assume a: "k < length t" "P (f (t ! k)) \<longleftrightarrow> P (t ! k)"
  have "P (upd_nth k f t ! j) \<longleftrightarrow> P (t ! j)" if "j < length t" for j using a that by (auto simp: nth_upd_nth)
  then show ?thesis by (intro scan_cong) simp_all
qed

section \<open>Words as numbers\<close>

lemma unat_u32_less: "unat (x :: u32) < 4294967296"
  using unsigned_less [of x, where ?'a = nat] by simp

lemma unat_add_u32: "unat (a :: u32) + unat b < 4294967296 \<Longrightarrow> unat (a + b) = unat a + unat b"
  by (simp add: unat_word_ariths)

lemma unat_of_nat_u32: "n < 4294967296 \<Longrightarrow> unat (of_nat n :: u32) = n"
  by (simp add: unat_of_nat)

lemma sint_small: "unat (x :: u32) < 2147483648 \<Longrightarrow> sint x = int (unat x)"
proof -
  assume "unat x < 2147483648"
  then have "int (unat x) < int 2147483648" by (simp only: of_nat_less_iff)
  then have "uint x < 2 ^ 31" by simp
  moreover have "- (2 ^ 31) \<le> uint x" by (rule order_trans [of _ 0]) simp_all
  ultimately have "signed_take_bit 31 (uint x) = uint x" by (intro signed_take_bit_int_eq_self)
  then show ?thesis by (simp add: sint_uint)
qed

section \<open>Loops\<close>

text \<open>A \<open>for\<close> loop whose body may stop: run \<open>f\<close> on each element in turn.\<close>

fun each :: "('a \<Rightarrow> 's \<Rightarrow> 's result) \<Rightarrow> 'a list \<Rightarrow> 's \<Rightarrow> 's result" where
  "each f [] s = Inr s"
| "each f (x # xs) s = andthen (f x s) (each f xs)"

lemma each_append: "each f (xs @ ys) s = andthen (each f xs s) (each f ys)"
  by (induction xs arbitrary: s) (simp_all add: andthen_assoc cong: andthen_cong)

lemma each_invariant:
  assumes "P 0 s" and "\<And>i s. i < n \<Longrightarrow> P i s \<Longrightarrow> \<exists>s'. f i s = Inr s' \<and> P (Suc i) s'"
  shows "\<exists>s'. each f [0..<n] s = Inr s' \<and> P n s'"
  using assms
proof (induction n)
  case (Suc n)
  then obtain s1 where "each f [0..<n] s = Inr s1" "P n s1" using less_SucI by blast
  moreover from Suc.prems(2) [OF lessI this(2)] obtain s2 where "f n s1 = Inr s2" "P (Suc n) s2" by blast
  ultimately show ?case by (simp add: each_append)
qed simp

end
