(* ===== verification/Memory.thy ===== *)
theory Memory
  imports Prelude
begin

text \<open>
  The 32-bit address space as a function from addresses to bytes, with the little-endian word
  accesses of the machine. Addresses wrap around; the distance \<open>unat (x - a)\<close> of an address
  \<open>x\<close> from the start \<open>a\<close> of an object is what ranges are stated with.
\<close>

type_synonym mem = "u32 \<Rightarrow> u8"

definition load32 :: "mem \<Rightarrow> u32 \<Rightarrow> u32" where
  "load32 m a = of_le32 (m a) (m (a + 1)) (m (a + 2)) (m (a + 3))"

definition store32 :: "u32 \<Rightarrow> u32 \<Rightarrow> mem \<Rightarrow> mem" where
  "store32 a v m =
    (let b = le32 v in m(a := b ! 0, a + 1 := b ! 1, a + 2 := b ! 2, a + 3 := b ! 3))"

definition in_range :: "u32 \<Rightarrow> nat \<Rightarrow> u32 \<Rightarrow> bool" where
  "in_range a n x \<longleftrightarrow> unat (x - a) < n"

text \<open>The bytes of memory from an address on, and storing bytes there.\<close>

definition load_bytes :: "mem \<Rightarrow> u32 \<Rightarrow> nat \<Rightarrow> u8 list" where
  "load_bytes m a n = map (\<lambda>i. m (a + of_nat i)) [0..<n]"

definition store_bytes :: "u32 \<Rightarrow> u8 list \<Rightarrow> mem \<Rightarrow> mem" where
  "store_bytes a bs m = (\<lambda>x. if unat (x - a) < length bs then bs ! unat (x - a) else m x)"

lemma add_self_neq: "(k :: u32) \<noteq> 0 \<Longrightarrow> a + k \<noteq> a"
  by simp

lemma store32_other: "\<not> in_range a 4 x \<Longrightarrow> store32 a v m x = m x"
  by (auto simp: store32_def in_range_def Let_def)

lemma load32_store32_same: "load32 (store32 a v m) a = v"
  by (simp add: load32_def store32_def Let_def le32_def of_le32_parts)

lemma in_range_0 [simp]: "\<not> in_range a 0 x"
  by (simp add: in_range_def)

lemma in_range_self [simp]: "0 < n \<Longrightarrow> in_range a n a"
  by (simp add: in_range_def)

lemma in_range_mono: "in_range a n x \<Longrightarrow> n \<le> m \<Longrightarrow> in_range a m x"
  by (simp add: in_range_def)

lemma in_range_Suc:
  assumes "n < 2 ^ 32"
  shows "in_range a (Suc n) x \<longleftrightarrow> x = a \<or> in_range (a + 1) n x"
proof (cases "x = a")
  case False
  then have "x - a \<noteq> 0" by simp
  then have "unat (x - a - 1) = unat (x - a) - 1" "unat (x - a) \<noteq> 0"
    by (simp_all add: unat_minus_one unat_eq_zero)
  then show ?thesis using False by (auto simp: in_range_def diff_diff_eq)
qed (simp add: in_range_def)

lemma in_range_snoc:
  assumes "n < 2 ^ 32"
  shows "in_range a (Suc n) x \<longleftrightarrow> in_range a n x \<or> x = a + of_nat n"
proof -
  have "unat (x - a) = n \<longleftrightarrow> x = a + of_nat n"
  proof
    assume "unat (x - a) = n"
    then have "x - a = of_nat n" by auto
    then show "x = a + of_nat n" by (metis add.commute diff_add_cancel)
  next
    assume "x = a + of_nat n"
    then show "unat (x - a) = n" using assms by (simp add: unat_of_nat)
  qed
  then show ?thesis by (auto simp: in_range_def)
qed

lemma load32_other:
  assumes "\<And>k. k < 4 \<Longrightarrow> \<not> in_range a 4 (b + of_nat k)"
  shows "load32 (store32 a v m) b = load32 m b"
  using assms [of 0] assms [of 1] assms [of 2] assms [of 3] by (simp add: load32_def store32_other)

end
