(* ===== verification/Cstring.thy ===== *)
theory Cstring
  imports Memory
begin

text \<open>
  The byte and string routines of the kernel, \<open>src/xv6/string.c\<close>, and of the user library,
  \<open>src/xv6/ulib.c\<close>, on the address space. A loop bounded by \<open>n\<close> is a recursion on \<open>n\<close>; a loop that
  runs until it meets a NUL is a partial function, whose value \<open>None\<close> is a loop that never ends.
\<close>

section \<open>Routines\<close>

text \<open>The instructions \<open>rep stosb\<close> and \<open>rep stosl\<close> of \<open>x86.h\<close>.\<close>

fun stosb :: "u32 \<Rightarrow> u8 \<Rightarrow> nat \<Rightarrow> mem \<Rightarrow> mem" where
  "stosb addr c 0 m = m"
| "stosb addr c (Suc cnt) m = stosb (addr + 1) c cnt (m(addr := c))"

fun stosl :: "u32 \<Rightarrow> u32 \<Rightarrow> nat \<Rightarrow> mem \<Rightarrow> mem" where
  "stosl addr w 0 m = m"
| "stosl addr w (Suc cnt) m = stosl (addr + 4) w cnt (store32 addr w m)"

definition memset :: "u32 \<Rightarrow> u32 \<Rightarrow> u32 \<Rightarrow> mem \<Rightarrow> mem" where
  "memset dst c n m =
    (if dst mod 4 = 0 \<and> n mod 4 = 0 then
       let c = c AND 0xFF
       in stosl dst (push_bit 24 c OR push_bit 16 c OR push_bit 8 c OR c) (unat (n div 4)) m
     else stosb dst (ucast c) (unat n) m)"

definition ulib_memset :: "u32 \<Rightarrow> u32 \<Rightarrow> u32 \<Rightarrow> mem \<Rightarrow> mem" where
  "ulib_memset dst c n m = stosb dst (ucast c) (unat n) m"

fun memcmp :: "mem \<Rightarrow> u32 \<Rightarrow> u32 \<Rightarrow> nat \<Rightarrow> int" where
  "memcmp m s1 s2 0 = 0"
| "memcmp m s1 s2 (Suc n) =
    (if m s1 \<noteq> m s2 then uint (m s1) - uint (m s2) else memcmp m (s1 + 1) (s2 + 1) n)"

text \<open>The two loops of \<open>memmove\<close>: upwards, and downwards from the ends.\<close>

fun copy_up :: "u32 \<Rightarrow> u32 \<Rightarrow> nat \<Rightarrow> mem \<Rightarrow> mem" where
  "copy_up d s 0 m = m"
| "copy_up d s (Suc n) m = copy_up (d + 1) (s + 1) n (m(d := m s))"

fun copy_down :: "u32 \<Rightarrow> u32 \<Rightarrow> nat \<Rightarrow> mem \<Rightarrow> mem" where
  "copy_down d s 0 m = m"
| "copy_down d s (Suc n) m = copy_down (d - 1) (s - 1) n (m(d - 1 := m (s - 1)))"

definition memmove :: "u32 \<Rightarrow> u32 \<Rightarrow> u32 \<Rightarrow> mem \<Rightarrow> mem" where
  "memmove dst src n m =
    (if src < dst \<and> src + n > dst then copy_down (dst + n) (src + n) (unat n) m
     else copy_up dst src (unat n) m)"

definition memcpy :: "u32 \<Rightarrow> u32 \<Rightarrow> u32 \<Rightarrow> mem \<Rightarrow> mem" where
  "memcpy dst src n m = memmove dst src n m"

definition ulib_memmove :: "u32 \<Rightarrow> u32 \<Rightarrow> int \<Rightarrow> mem \<Rightarrow> mem" where
  "ulib_memmove vdst vsrc n m = copy_up vdst vsrc (nat n) m"

fun strncmp :: "mem \<Rightarrow> u32 \<Rightarrow> u32 \<Rightarrow> nat \<Rightarrow> int" where
  "strncmp m p q 0 = 0"
| "strncmp m p q (Suc n) =
    (if m p \<noteq> 0 \<and> m p = m q then strncmp m (p + 1) (q + 1) n else uint (m p) - uint (m q))"

text \<open>The first loop of \<open>strncpy\<close>, with the count and the destination it leaves, and the second.\<close>

fun strncpy_copy :: "nat \<Rightarrow> u32 \<Rightarrow> u32 \<Rightarrow> mem \<Rightarrow> nat \<times> u32 \<times> mem" where
  "strncpy_copy 0 s t m = (0, s, m)"
| "strncpy_copy (Suc n) s t m =
    (let c = m t; m = m(s := c)
     in if c \<noteq> 0 then strncpy_copy n (s + 1) (t + 1) m else (n, s + 1, m))"

definition strncpy :: "u32 \<Rightarrow> u32 \<Rightarrow> int \<Rightarrow> mem \<Rightarrow> mem" where
  "strncpy s t n m = (case strncpy_copy (nat n) s t m of (n, s, m) \<Rightarrow> stosb s 0 n m)"

fun safe_copy :: "nat \<Rightarrow> u32 \<Rightarrow> u32 \<Rightarrow> mem \<Rightarrow> u32 \<times> mem" where
  "safe_copy 0 s t m = (s, m)"
| "safe_copy (Suc n) s t m =
    (let c = m t; m = m(s := c)
     in if c \<noteq> 0 then safe_copy n (s + 1) (t + 1) m else (s + 1, m))"

definition safestrcpy :: "u32 \<Rightarrow> u32 \<Rightarrow> int \<Rightarrow> mem \<Rightarrow> mem" where
  "safestrcpy s t n m =
    (if n \<le> 0 then m
     else case safe_copy (nat n - 1) s t m of (s, m) \<Rightarrow> m(s := 0))"

partial_function (option) strlen_loop :: "mem \<Rightarrow> u32 \<Rightarrow> u32 \<Rightarrow> u32 option" where
  "strlen_loop m s n = (if m (s + n) \<noteq> 0 then strlen_loop m s (n + 1) else Some n)"

definition strlen :: "mem \<Rightarrow> u32 \<Rightarrow> u32 option" where
  "strlen m s = strlen_loop m s 0"

partial_function (option) strcpy :: "u32 \<Rightarrow> u32 \<Rightarrow> mem \<Rightarrow> mem option" where
  "strcpy s t m =
    (let c = m t; m = m(s := c) in if c \<noteq> 0 then strcpy (s + 1) (t + 1) m else Some m)"

partial_function (option) strcmp :: "mem \<Rightarrow> u32 \<Rightarrow> u32 \<Rightarrow> int option" where
  "strcmp m p q =
    (if m p \<noteq> 0 \<and> m p = m q then strcmp m (p + 1) (q + 1) else Some (uint (m p) - uint (m q)))"

partial_function (option) strchr :: "mem \<Rightarrow> u32 \<Rightarrow> u8 \<Rightarrow> u32 option" where
  "strchr m s c = (if m s = 0 then Some 0 else if m s = c then Some s else strchr m (s + 1) c)"

partial_function (option) atoi_loop :: "mem \<Rightarrow> u32 \<Rightarrow> u32 \<Rightarrow> u32 option" where
  "atoi_loop m s n =
    (if 48 \<le> m s \<and> m s \<le> 57 then atoi_loop m (s + 1) (n * 10 + ucast (m s) - 48) else Some n)"

definition atoi :: "mem \<Rightarrow> u32 \<Rightarrow> u32 option" where
  "atoi m s = atoi_loop m s 0"

text \<open>
  \<open>gets\<close> with the system call \<open>read(0, &c, 1)\<close> as an argument: the byte it delivers, if any. The
  recursion is on \<open>max - 1 - i\<close>, the room that is left.
\<close>

fun gets_loop :: "('s \<Rightarrow> u8 option \<times> 's) \<Rightarrow> u32 \<Rightarrow> nat \<Rightarrow> mem \<Rightarrow> 's \<Rightarrow> mem \<times> 's" where
  "gets_loop rd p 0 m st = (m(p := 0), st)"
| "gets_loop rd p (Suc room) m st =
    (case rd st of
       (None, st) \<Rightarrow> (m(p := 0), st)
     | (Some c, st) \<Rightarrow>
         if c = 10 \<or> c = 13 then (m(p := c, p + 1 := 0), st)
         else gets_loop rd (p + 1) room (m(p := c)) st)"

definition gets :: "('s \<Rightarrow> u8 option \<times> 's) \<Rightarrow> u32 \<Rightarrow> int \<Rightarrow> mem \<Rightarrow> 's \<Rightarrow> mem \<times> 's" where
  "gets rd buf mx m st = gets_loop rd buf (nat (mx - 1)) m st"

section \<open>Filling and copying\<close>

lemma unat_minus_1_u32: "unat (- 1 :: u32) = 4294967295"
  by (simp add: unsigned_minus_1_eq_mask mask_eq_exp_minus_1)

lemma stosb_spec:
  "n \<le> 2 ^ 32 \<Longrightarrow> stosb a c n m = (\<lambda>x. if in_range a n x then c else m x)"
proof (induction n arbitrary: a m)
  case (Suc n)
  then show ?case by (auto simp: in_range_Suc fun_eq_iff)
qed simp

lemma in_range_4: "in_range a 4 x \<longleftrightarrow> x = a \<or> x = a + 1 \<or> x = a + 2 \<or> x = a + 3"
proof
  assume a: "in_range a 4 x"
  define k where "k = unat (x - a)"
  have x: "x = a + of_nat k" by (simp add: k_def)
  have "k = 0 \<or> k = 1 \<or> k = 2 \<or> k = 3" using a by (auto simp: in_range_def k_def)
  then show "x = a \<or> x = a + 1 \<or> x = a + 2 \<or> x = a + 3" by (elim disjE) (simp_all add: x)
qed (auto simp: in_range_def)

lemma store32_bytes:
  "store32 a v m x = (if in_range a 4 x then le32 v ! unat (x - a) else m x)"
  by (auto simp: in_range_4 store32_def Let_def)

lemma in_range_add:
  assumes "k + n \<le> 2 ^ 32"
  shows "in_range a (k + n) x \<longleftrightarrow> in_range a k x \<or> in_range (a + of_nat k) n x"
  using assms
proof (induction n)
  case (Suc n)
  then show ?case by (auto simp: in_range_snoc add.assoc)
qed simp

lemma ff_mask: "(0xFF :: u32) = mask 8"
  by (simp add: mask_eq_exp_minus_1)

lemma le32_const:
  assumes "j < 4"
  shows "le32 (push_bit 24 (c AND 0xFF) OR push_bit 16 (c AND 0xFF) OR push_bit 8 (c AND 0xFF) OR (c AND 0xFF) :: u32) ! j = ucast c"
proof -
  have "j = 0 \<or> j = 1 \<or> j = 2 \<or> j = 3" using assms by arith
  then show ?thesis unfolding ff_mask
    by (elim disjE; simp add: le32_def; intro bit_word_eqI) (auto simp: bit_simps)
qed

lemma stosl_spec:
  assumes "4 * n \<le> 2 ^ 32" "\<And>j. j < 4 \<Longrightarrow> le32 w ! j = c"
  shows "stosl a w n m = (\<lambda>x. if in_range a (4 * n) x then c else m x)"
  using assms(1)
proof (induction n arbitrary: a m)
  case (Suc n)
  have s: "store32 a w m x = (if in_range a 4 x then c else m x)" for x
    using assms(2) by (simp add: store32_bytes in_range_def)
  have "in_range a (4 * Suc n) x \<longleftrightarrow> in_range a 4 x \<or> in_range (a + 4) (4 * n) x" for x
    using in_range_add [of 4 "4 * n" a x] Suc.prems by simp
  with Suc show ?case by (auto simp: s fun_eq_iff)
qed simp

lemma copy_up_spec:
  assumes "n \<le> unat (d - s) \<or> d = s" "n \<le> 2 ^ 32"
  shows "copy_up d s n m = (\<lambda>x. if in_range d n x then m (s + (x - d)) else m x)"
  using assms
proof (induction n arbitrary: d s m)
  case (Suc n)
  have IH: "copy_up (d + 1) (s + 1) n (m(d := m s)) =
      (\<lambda>x. if in_range (d + 1) n x then (m(d := m s)) (s + 1 + (x - (d + 1))) else (m(d := m s)) x)"
    using Suc.prems by (intro Suc.IH) auto
  have "s + (x - d) \<noteq> d" if x: "in_range (d + 1) n x" for x
  proof
    assume e: "s + (x - d) = d"
    then have "x - d = d - s" by (metis add_diff_cancel_left')
    moreover have "unat (x - d) < Suc n"
      using x Suc.prems(2) in_range_Suc [of n d x] by (simp add: in_range_def)
    ultimately have "d = s" using Suc.prems(1) by auto
    with e have "x = d" by simp
    with x show False using Suc.prems(2) by (simp add: in_range_def unat_minus_1_u32)
  qed
  moreover have "s + 1 + (x - (d + 1)) = s + (x - d)" for x by simp
  ultimately show ?case
    using Suc.prems(2) by (auto simp: IH in_range_Suc fun_eq_iff)
qed simp

lemma unat_add_mod: "unat (p + q :: u32) = (unat p + unat q) mod 2 ^ 32"
  by (simp add: unat_word_ariths)

lemma copy_down_spec:
  assumes "n \<le> unat (s - d) \<or> d = s" "n < 2 ^ 32"
  shows "copy_down (d + of_nat n) (s + of_nat n) n m = (\<lambda>x. if in_range d n x then m (s + (x - d)) else m x)"
  using assms
proof (induction n arbitrary: m)
  case (Suc n)
  let ?m = "m(d + of_nat n := m (s + of_nat n))"
  have IH: "copy_down (d + of_nat n) (s + of_nat n) n ?m =
      (\<lambda>x. if in_range d n x then ?m (s + (x - d)) else ?m x)"
    using Suc.prems by (intro Suc.IH) auto
  have "s + (x - d) \<noteq> d + of_nat n" if x: "in_range d n x" for x
  proof
    assume "s + (x - d) = d + of_nat n"
    then have e: "(s - d) + (x - d) = of_nat n" by (simp add: algebra_simps)
    have lt: "unat (x - d) < n" using x by (simp add: in_range_def)
    have n: "unat (of_nat n :: u32) = n" using Suc.prems(2) by (simp add: unat_of_nat)
    have "unat ((s - d) + (x - d)) = (unat (s - d) + unat (x - d)) mod 2 ^ 32" by (rule unat_add_mod)
    then have "(unat (s - d) + unat (x - d)) mod 2 ^ 32 = n" unfolding e n by (rule sym)
    moreover have "unat (s - d) + unat (x - d) < 2 ^ 32 + n"
      using lt unat_u32_less [of "s - d"] by simp
    ultimately have "unat (s - d) + unat (x - d) = n"
      using Suc.prems(2) by (auto simp: mod_if split: if_splits)
    moreover from this lt have "d \<noteq> s" by auto
    ultimately show False using Suc.prems(1) by auto
  qed
  then show ?case
    using Suc.prems(2) by (auto simp: IH in_range_snoc fun_eq_iff)
qed simp

section \<open>Strings\<close>

fun cstring :: "mem \<Rightarrow> u32 \<Rightarrow> u8 list \<Rightarrow> bool" where
  "cstring m p [] \<longleftrightarrow> m p = 0"
| "cstring m p (c # cs) \<longleftrightarrow> m p = c \<and> c \<noteq> 0 \<and> cstring m (p + 1) cs"

lemma cstring_frame:
  "cstring m p cs \<Longrightarrow> (\<And>i. i \<le> length cs \<Longrightarrow> m' (p + of_nat i) = m (p + of_nat i)) \<Longrightarrow> cstring m' p cs"
proof (induction cs arbitrary: p)
  case (Cons c cs)
  have "m' (p + 1 + of_nat i) = m (p + 1 + of_nat i)" if "i \<le> length cs" for i
    using Cons.prems(2) [of "Suc i"] that by (simp add: add.assoc)
  with Cons.IH [of "p + 1"] Cons.prems(1) Cons.prems(2) [of 0] show ?case by simp
qed simp

lemma strlen_loop_cstring:
  "cstring m (s + n) cs \<Longrightarrow> strlen_loop m s n = Some (n + of_nat (length cs))"
proof (induction cs arbitrary: n)
  case Nil
  then show ?case by (simp add: strlen_loop.simps)
next
  case (Cons c cs)
  then show ?case using Cons.IH [of "n + 1"] by (subst strlen_loop.simps) (simp add: add.assoc)
qed

lemma strncmp_eq_0:
  "cstring m p xs \<Longrightarrow> cstring m q ys \<Longrightarrow> strncmp m p q n = 0 \<longleftrightarrow> take n xs = take n ys"
proof (induction n arbitrary: p q xs ys)
  case (Suc n)
  then show ?case by (cases xs; cases ys) (auto simp: word_uint_eq_iff)
qed simp

lemma safe_copy_spec:
  assumes "cstring m t xs" "Suc n < 2 ^ 32" "\<And>i. i \<le> length xs \<Longrightarrow> \<not> in_range s (Suc n) (t + of_nat i)"
    and "safe_copy n s t m = (p, m')"
  shows "cstring (m'(p := 0)) s (take n xs) \<and> (\<forall>x. \<not> in_range s (Suc n) x \<longrightarrow> (m'(p := 0)) x = m x)"
  using assms
proof (induction n arbitrary: s t xs m)
  case 0
  then show ?case by (auto simp: in_range_Suc)
next
  case (Suc n)
  have r: "in_range s (Suc (Suc n)) x \<longleftrightarrow> x = s \<or> in_range (s + 1) (Suc n) x" for x
    using Suc.prems(2) by (intro in_range_Suc) simp
  show ?case
  proof (cases xs)
    case Nil
    then have "p = s + 1" "m' = m(s := 0)" using Suc.prems(1,4) by (simp_all add: Let_def)
    then show ?thesis using Nil r [of "s + 1"] by (auto simp: in_range_def)
  next
    case (Cons c cs)
    let ?m = "m(s := c)"
    have far: "t + 1 + of_nat i \<noteq> s \<and> \<not> in_range (s + 1) (Suc n) (t + 1 + of_nat i)" if "i \<le> length cs" for i
      using Suc.prems(3) [of "Suc i"] that r [of "t + 1 + of_nat i"] by (simp add: Cons add.assoc)
    have c: "cstring ?m (t + 1) cs"
    proof (rule cstring_frame [of m])
      show "cstring m (t + 1) cs" using Suc.prems(1) by (simp add: Cons)
    qed (use far in simp)
    have "safe_copy n (s + 1) (t + 1) ?m = (p, m')" using Suc.prems(1,4) by (simp add: Cons Let_def)
    moreover have "Suc n < 2 ^ 32" using Suc.prems(2) by simp
    ultimately have "cstring (m'(p := 0)) (s + 1) (take n cs) \<and>
        (\<forall>x. \<not> in_range (s + 1) (Suc n) x \<longrightarrow> (m'(p := 0)) x = ?m x)"
      by (intro Suc.IH [OF c]) (use far in blast)+
    moreover define F where F: "F = m'(p := 0)"
    ultimately have IH: "cstring F (s + 1) (take n cs)"
        "\<And>x. \<not> in_range (s + 1) (Suc n) x \<Longrightarrow> F x = ?m x" by blast+
    have "\<not> in_range (s + 1) (Suc n) s" using Suc.prems(2) by (simp add: in_range_def unat_minus_1_u32)
    then have "F s = c" using IH(2) [of s] by simp
    then show ?thesis unfolding F [symmetric] using IH Suc.prems(1) r by (simp add: Cons)
  qed
qed

lemma memset_spec:
  "memset dst c n m = (\<lambda>x. if in_range dst (unat n) x then ucast c else m x)"
proof (cases "dst mod 4 = 0 \<and> n mod 4 = 0")
  case True
  have "unat (n mod 4) = unat n mod 4" by (simp add: unat_mod)
  then have "unat n mod 4 = 0" using True by simp
  then have n: "4 * unat (n div 4) = unat n" by (simp add: unat_div) presburger
  then have "4 * unat (n div 4) \<le> 2 ^ 32" using unat_u32_less [of n] by simp
  from stosl_spec [OF this le32_const] True n show ?thesis by (simp add: memset_def Let_def)
next
  case False
  then have "memset dst c n m = stosb dst (ucast c) (unat n) m" by (auto simp: memset_def)
  then show ?thesis using stosb_spec [of "unat n" dst "ucast c" m] unat_u32_less [of n] by simp
qed

lemma memmove_spec:
  assumes "unat src + unat n < 2 ^ 32" and "unat dst + unat n < 2 ^ 32"
  shows "memmove dst src n m = (\<lambda>x. if in_range dst (unat n) x then m (src + (x - dst)) else m x)"
proof -
  have e: "unat (src + n) = unat src + unat n" using assms(1) by (intro unat_add_u32) simp
  show ?thesis
  proof (cases "src < dst \<and> src + n > dst")
    case True
    then have "unat src < unat dst" "unat dst < unat src + unat n" by (simp_all add: word_less_nat_alt e)
    then have "unat n \<le> unat (src - dst)" using assms(2) by (simp add: unat_sub_if_size word_size word_le_nat_alt)
    from copy_down_spec [of "unat n" src dst m] this True show ?thesis
      using unat_u32_less [of n] by (simp add: memmove_def)
  next
    case False
    then have "unat n \<le> unat (dst - src) \<or> dst = src"
      using assms(1) by (auto simp: word_less_nat_alt word_le_nat_alt e unat_sub_if_size word_size not_less
          simp flip: word_unat_eq_iff)
    from copy_up_spec [OF this] False show ?thesis
      using unat_u32_less [of n] by (auto simp: memmove_def)
  qed
qed

lemma safestrcpy_spec:
  assumes "cstring m t xs" and "0 < n" and "n < 2 ^ 31"
    and "\<And>i. i \<le> length xs \<Longrightarrow> \<not> in_range s (nat n) (t + of_nat i)"
  shows "cstring (safestrcpy s t n m) s (take (nat n - 1) xs) \<and>
    (\<forall>x. \<not> in_range s (nat n) x \<longrightarrow> safestrcpy s t n m x = m x)"
proof -
  obtain p m' where e: "safe_copy (nat n - 1) s t m = (p, m')" by fastforce
  have n: "Suc (nat n - 1) = nat n" using assms(2) by simp
  have "nat n < 2 ^ 32" using assms(3) by simp
  from safe_copy_spec [OF assms(1) _ _ e, unfolded n, OF this assms(4)] e assms(2)
  show ?thesis by (simp add: safestrcpy_def)
qed

section \<open>Properties\<close>

text \<open>
  \<open>memset\<close> fills exactly the \<open>n\<close> bytes from \<open>dst\<close> with the low byte of \<open>c\<close>, whichever of its two
  loops it takes: the loop that stores words when both the address and the count are
  multiples of four is equivalent to the loop that stores bytes.
\<close>

theorem memset_fills:
  "memset dst c n m = (\<lambda>x. if in_range dst (unat n) x then ucast c else m x)"
  by (rule memset_spec)

text \<open>
  C20. \<open>memmove\<close> is correct for overlapping ranges: when neither range runs over the end of the
  address space, the destination afterwards holds what the source held before, and no other
  byte changes.
\<close>

theorem memmove_copies:
  assumes "unat src + unat n < 2 ^ 32" and "unat dst + unat n < 2 ^ 32"
  shows "memmove dst src n m = (\<lambda>x. if in_range dst (unat n) x then m (src + (x - dst)) else m x)"
  using assms by (rule memmove_spec)

theorem memmove_copies_witness:
  "unat (2 :: u32) + unat (4 :: u32) < 2 ^ 32 \<and> memmove 4 2 4 (\<lambda>x. ucast x) 6 = 4 \<and> memmove 4 2 4 (\<lambda>x. ucast x) 3 = 3"
  using memmove_copies [of 2 4 4 "\<lambda>x. ucast x"] by (simp add: in_range_def unat_minus_1_u32)

text \<open>
  \<open>safestrcpy\<close> always leaves a NUL-terminated string: for a source string \<open>xs\<close> that the destination
  does not overlap, the destination holds the first \<open>n - 1\<close> characters of \<open>xs\<close> and a NUL, and no byte
  outside the \<open>n\<close> bytes of the destination changes.
\<close>

theorem safestrcpy_terminates_string:
  assumes "cstring m t xs" and "0 < n" and "n < 2 ^ 31"
    and "\<And>i. i \<le> length xs \<Longrightarrow> \<not> in_range s (nat n) (t + of_nat i)"
  shows "cstring (safestrcpy s t n m) s (take (nat n - 1) xs) \<and>
    (\<forall>x. \<not> in_range s (nat n) x \<longrightarrow> safestrcpy s t n m x = m x)"
  using assms by (rule safestrcpy_spec)

theorem safestrcpy_terminates_string_witness:
  "cstring ((\<lambda>_. 0)(0 := 65, 1 := 66)) 0 [65, 66] \<and>
   cstring (safestrcpy 8 0 2 ((\<lambda>_. 0)(0 := 65, 1 := 66))) 8 [65]"
proof -
  let ?m = "(\<lambda>_. 0)(0 := 65, 1 := 66) :: mem"
  have c: "cstring ?m 0 [65, 66]" by simp
  have "\<not> in_range 8 (nat 2) (0 + of_nat i :: u32)" if "i \<le> length [65 :: u8, 66]" for i
  proof -
    have "i = 0 \<or> i = 1 \<or> i = 2" using that by auto
    then show ?thesis by (auto simp: in_range_def)
  qed
  from safestrcpy_terminates_string [OF c _ _ this] c show ?thesis by simp
qed

end
