(* ===== verification/Mmu.thy ===== *)
theory Mmu
  imports Cstring
begin

text \<open>
  The constants and macros of \<open>src/xv6/mmu.h\<close> and \<open>src/xv6/memlayout.h\<close> that the page allocator and
  the page tables use, with the facts about page alignment.
\<close>

definition PGSIZE :: u32 where "PGSIZE = 4096"

definition NPDENTRIES :: nat where "NPDENTRIES = 1024"

definition PGROUNDUP :: "u32 \<Rightarrow> u32" where
  "PGROUNDUP sz = (sz + PGSIZE - 1) AND NOT (PGSIZE - 1)"

definition PGROUNDDOWN :: "u32 \<Rightarrow> u32" where
  "PGROUNDDOWN a = a AND NOT (PGSIZE - 1)"

definition PDX :: "u32 \<Rightarrow> u32" where
  "PDX va = drop_bit 22 va AND 0x3FF"

definition PTX :: "u32 \<Rightarrow> u32" where
  "PTX va = drop_bit 12 va AND 0x3FF"

definition PGADDR :: "u32 \<Rightarrow> u32 \<Rightarrow> u32 \<Rightarrow> u32" where
  "PGADDR d t off = push_bit 22 d OR push_bit 12 t OR off"

definition PTE_P :: u32 where "PTE_P = 0x001"

definition PTE_W :: u32 where "PTE_W = 0x002"

definition PTE_U :: u32 where "PTE_U = 0x004"

definition PTE_ADDR :: "u32 \<Rightarrow> u32" where
  "PTE_ADDR pte = pte AND NOT 0xFFF"

definition PTE_FLAGS :: "u32 \<Rightarrow> u32" where
  "PTE_FLAGS pte = pte AND 0xFFF"

definition EXTMEM :: u32 where "EXTMEM = 0x100000"

definition PHYSTOP :: u32 where "PHYSTOP = 0x20000000"

definition DEVSPACE :: u32 where "DEVSPACE = 0xFE000000"

definition KERNBASE :: u32 where "KERNBASE = 0x80000000"

definition KERNLINK :: u32 where "KERNLINK = KERNBASE + EXTMEM"

definition PCI_BAR_BASE :: u32 where "PCI_BAR_BASE = 0x80000000"

definition PCI_VP_OFFSET :: u32 where "PCI_VP_OFFSET = 0x40000000"

definition V2P :: "u32 \<Rightarrow> u32" where
  "V2P a = a - KERNBASE"

definition P2V :: "u32 \<Rightarrow> u32" where
  "P2V a = a + KERNBASE"

lemmas mmu_defs = PGSIZE_def NPDENTRIES_def PGROUNDUP_def PGROUNDDOWN_def PTE_P_def PTE_W_def PTE_U_def
  EXTMEM_def PHYSTOP_def DEVSPACE_def KERNBASE_def KERNLINK_def PCI_BAR_BASE_def PCI_VP_OFFSET_def
  V2P_def P2V_def

lemma mask_12: "(0xFFF :: u32) = mask 12" "PGSIZE - 1 = mask 12"
  by (simp_all add: mask_eq_exp_minus_1 PGSIZE_def)

lemma mask_10: "(0x3FF :: u32) = mask 10"
  by (simp add: mask_eq_exp_minus_1)

lemma bits_0xFFF: "bit (0xFFF :: u32) n \<longleftrightarrow> n < 12"
  unfolding mask_12 bit_mask_iff by auto

lemma PGADDR_parts: "PGADDR (PDX va) (PTX va) (PTE_FLAGS va) = va"
proof (rule bit_word_eqI)
  fix n assume "n < LENGTH(32)"
  then consider "n < 12" | "12 \<le> n" "n < 22" | "22 \<le> n" "n < 32" by fastforce
  then show "bit (PGADDR (PDX va) (PTX va) (PTE_FLAGS va)) n = bit va n"
    unfolding PGADDR_def PDX_def PTX_def PTE_FLAGS_def mask_10 mask_12
    by cases (auto simp: bit_simps)
qed

lemma PTE_parts: "PTE_ADDR e OR PTE_FLAGS e = e"
  by (rule bit_word_eqI) (auto simp: PTE_ADDR_def PTE_FLAGS_def mask_12 bit_simps)

lemma and_not_mask: "a AND NOT (mask 12) = (a :: u32) - a mod 4096"
proof -
  have "a mod 4096 = take_bit 12 a" by (simp add: take_bit_eq_mod)
  moreover have "a AND NOT (mask 12) = push_bit 12 (drop_bit 12 a)"
    by (rule bit_word_eqI) (auto simp: bit_simps)
  moreover have "push_bit 12 (drop_bit 12 a) = a - take_bit 12 a"
    using bits_ident [of 12 a] by (metis add_diff_cancel_right')
  ultimately show ?thesis by simp
qed

lemma PGROUNDDOWN_eq: "PGROUNDDOWN a = a - a mod 4096"
  by (simp add: PGROUNDDOWN_def mask_12 and_not_mask)

lemma PGROUNDUP_eq: "PGROUNDUP a = (a + 4095) - (a + 4095) mod 4096"
proof -
  have "a + PGSIZE - 1 = a + 4095" by (simp add: PGSIZE_def)
  then show ?thesis unfolding PGROUNDUP_def mask_12(2) by (simp only: and_not_mask)
qed

lemma unat_mod_u32: "unat (a mod b :: u32) = unat a mod unat b"
  by (rule unat_mod)

lemma unat_PGROUNDDOWN: "unat (PGROUNDDOWN a) = unat a - unat a mod 4096"
proof -
  have "a mod 4096 \<le> a" by (simp add: word_le_nat_alt unat_mod_u32)
  then show ?thesis by (simp add: PGROUNDDOWN_eq unat_sub unat_mod_u32)
qed

lemma unat_PGROUNDUP:
  assumes "unat a + 4095 < 2 ^ 32"
  shows "unat (PGROUNDUP a) = (unat a + 4095) - (unat a + 4095) mod 4096"
proof -
  have "unat (a + 4095) = unat a + 4095" using assms by (subst unat_add_u32) simp_all
  then show ?thesis using unat_PGROUNDDOWN [of "a + 4095"] by (simp add: PGROUNDUP_eq PGROUNDDOWN_eq)
qed

lemma PGROUNDDOWN_aligned: "unat (PGROUNDDOWN a) mod 4096 = 0"
  by (simp add: unat_PGROUNDDOWN minus_mod_eq_mult_div)

end
