(* ===== verification/Spinlock.thy ===== *)
theory Spinlock
  imports Mmu
begin

text \<open>
  Spin locks, \<open>src/xv6/spinlock.c\<close>, on several CPUs. The operations on one CPU are functions; the
  system is the step relation \<open>lock_step\<close>, in which a step is one atomic action of one CPU: entering
  \<open>acquire\<close> (\<open>pushcli\<close> and the test \<open>holding\<close>), one turn of the \<open>xchg\<close> loop, writing \<open>lk->cpu\<close>, entering
  \<open>release\<close> (the test \<open>holding\<close> and clearing \<open>lk->cpu\<close>), and the final store to \<open>lk->locked\<close> with
  \<open>popcli\<close>. Each CPU carries its position in these routines and the locks it has acquired, which are
  what the theorems are stated with and which no operation reads. Any number of CPUs and locks may
  take part, and the locks of a CPU need not be released in the order they were acquired.
\<close>

section \<open>Operations\<close>

record spinlock =
  lk_locked :: bool
  lk_name :: string
  lk_cpu :: "nat option"

record cpu =
  ncli :: int
  intena :: bool
  c_if :: bool

definition initlock :: "string \<Rightarrow> spinlock \<Rightarrow> spinlock" where
  "initlock name lk = lk\<lparr>lk_name := name, lk_locked := False, lk_cpu := None\<rparr>"

definition holding :: "nat \<Rightarrow> spinlock \<Rightarrow> bool" where
  "holding c lk \<longleftrightarrow> lk_locked lk \<and> lk_cpu lk = Some c"

definition pushcli :: "cpu \<Rightarrow> cpu" where
  "pushcli c =
    (let eflags = c_if c; c = c\<lparr>c_if := False\<rparr>;
         c = (if ncli c = 0 then c\<lparr>intena := eflags\<rparr> else c)
     in c\<lparr>ncli := ncli c + 1\<rparr>)"

definition popcli :: "cpu \<Rightarrow> cpu result" where
  "popcli c =
    (if c_if c then Inl (Panic ''popcli - interruptible'')
     else let c = c\<lparr>ncli := ncli c - 1\<rparr> in
       if ncli c < 0 then Inl (Panic ''popcli'')
       else if ncli c = 0 \<and> intena c then Inr (c\<lparr>c_if := True\<rparr>)
       else Inr c)"

text \<open>The walk of \<open>getcallerpcs\<close> along the saved frame pointers, ten frames at most.\<close>

fun callerpcs_loop :: "mem \<Rightarrow> nat \<Rightarrow> u32 \<Rightarrow> u32 list" where
  "callerpcs_loop m 0 ebp = []"
| "callerpcs_loop m (Suc i) ebp =
    (if ebp = 0 \<or> ebp < KERNBASE \<or> ebp = 0xffffffff then replicate (Suc i) 0
     else load32 m (ebp + 4) # callerpcs_loop m i (load32 m ebp))"

definition getcallerpcs :: "mem \<Rightarrow> u32 \<Rightarrow> u32 list" where
  "getcallerpcs m v = callerpcs_loop m 10 (v - 8)"

section \<open>The system\<close>

datatype phase = Idle | Spin nat | Got nat | Rel nat

record locksys =
  cpus :: "nat \<Rightarrow> cpu"
  locks :: "nat \<Rightarrow> spinlock"
  phase_of :: "nat \<Rightarrow> phase"
  acquired :: "nat \<Rightarrow> nat list"

text \<open>
  The five actions of CPU \<open>c\<close> on lock \<open>l\<close>. \<open>acquire_enter\<close> and \<open>release_enter\<close> may panic;
  \<open>acquire_xchg\<close> stays in the loop while the lock is taken.
\<close>

definition set_phase :: "nat \<Rightarrow> phase \<Rightarrow> locksys \<Rightarrow> locksys" where
  "set_phase c p s = s\<lparr>phase_of := (phase_of s)(c := p)\<rparr>"

definition set_lock :: "nat \<Rightarrow> spinlock \<Rightarrow> locksys \<Rightarrow> locksys" where
  "set_lock l lk s = s\<lparr>locks := (locks s)(l := lk)\<rparr>"

definition acquire_enter :: "nat \<Rightarrow> nat \<Rightarrow> locksys \<Rightarrow> locksys result" where
  "acquire_enter c l s =
    (let s = s\<lparr>cpus := (cpus s)(c := pushcli (cpus s c))\<rparr> in
     if holding c (locks s l) then Inl (Panic ''acquire'') else Inr (set_phase c (Spin l) s))"

definition acquire_xchg :: "nat \<Rightarrow> nat \<Rightarrow> locksys \<Rightarrow> locksys" where
  "acquire_xchg c l s =
    (let old = lk_locked (locks s l); s = set_lock l ((locks s l)\<lparr>lk_locked := True\<rparr>) s
     in if old then s else set_phase c (Got l) s)"

definition acquire_record :: "nat \<Rightarrow> nat \<Rightarrow> locksys \<Rightarrow> locksys" where
  "acquire_record c l s =
    (let s = set_phase c Idle (set_lock l ((locks s l)\<lparr>lk_cpu := Some c\<rparr>) s)
     in s\<lparr>acquired := (acquired s)(c := l # acquired s c)\<rparr>)"

definition release_enter :: "nat \<Rightarrow> nat \<Rightarrow> locksys \<Rightarrow> locksys result" where
  "release_enter c l s =
    (if \<not> holding c (locks s l) then Inl (Panic ''release'')
     else
       let s = set_phase c (Rel l) (set_lock l ((locks s l)\<lparr>lk_cpu := None\<rparr>) s)
       in Inr (s\<lparr>acquired := (acquired s)(c := removeAll l (acquired s c))\<rparr>))"

definition release_store :: "nat \<Rightarrow> nat \<Rightarrow> locksys \<Rightarrow> locksys result" where
  "release_store c l s =
    (let s = set_phase c Idle (set_lock l ((locks s l)\<lparr>lk_locked := False\<rparr>) s) in
     andthen (popcli (cpus s c)) (\<lambda>cp. Inr (s\<lparr>cpus := (cpus s)(c := cp)\<rparr>)))"

inductive lock_step :: "locksys \<Rightarrow> locksys \<Rightarrow> bool" where
  do_enter: "phase_of s c = Idle \<Longrightarrow> acquire_enter c l s = Inr s' \<Longrightarrow> lock_step s s'"
| do_xchg: "phase_of s c = Spin l \<Longrightarrow> lock_step s (acquire_xchg c l s)"
| do_record: "phase_of s c = Got l \<Longrightarrow> lock_step s (acquire_record c l s)"
| do_leave: "phase_of s c = Idle \<Longrightarrow> release_enter c l s = Inr s' \<Longrightarrow> lock_step s s'"
| do_store: "phase_of s c = Rel l \<Longrightarrow> release_store c l s = Inr s' \<Longrightarrow> lock_step s s'"

definition lock_init :: "locksys \<Rightarrow> bool" where
  "lock_init s \<longleftrightarrow>
     (\<forall>c. ncli (cpus s c) = 0 \<and> phase_of s c = Idle \<and> acquired s c = []) \<and>
     (\<forall>l. \<not> lk_locked (locks s l) \<and> lk_cpu (locks s l) = None)"

inductive lock_reach :: "locksys \<Rightarrow> bool" where
  at_init: "lock_init s \<Longrightarrow> lock_reach s"
| after_step: "lock_reach s \<Longrightarrow> lock_step s s' \<Longrightarrow> lock_reach s'"

inductive_cases lock_stepE: "lock_step s s'"

section \<open>Mutual exclusion\<close>

text \<open>CPU \<open>c\<close> is in possession of lock \<open>l\<close>: from its successful \<open>xchg\<close> to its store in \<open>release\<close>.\<close>

definition owns :: "locksys \<Rightarrow> nat \<Rightarrow> nat \<Rightarrow> bool" where
  "owns s c l \<longleftrightarrow> l \<in> set (acquired s c) \<or> phase_of s c = Got l \<or> phase_of s c = Rel l"

definition lock_inv :: "locksys \<Rightarrow> bool" where
  "lock_inv s \<longleftrightarrow>
     (\<forall>l. lk_locked (locks s l) \<longleftrightarrow> (\<exists>c. owns s c l)) \<and>
     (\<forall>l c c'. owns s c l \<longrightarrow> owns s c' l \<longrightarrow> c = c') \<and>
     (\<forall>l c. lk_cpu (locks s l) = Some c \<longleftrightarrow> l \<in> set (acquired s c)) \<and>
     (\<forall>c. distinct (acquired s c)) \<and>
     (\<forall>c l. phase_of s c = Got l \<or> phase_of s c = Rel l \<longrightarrow> l \<notin> set (acquired s c)) \<and>
     (\<forall>c. ncli (cpus s c) = int (length (acquired s c)) + (if phase_of s c = Idle then 0 else 1)) \<and>
     (\<forall>c. ncli (cpus s c) > 0 \<longrightarrow> \<not> c_if (cpus s c))"

lemma lock_inv_init: "lock_init s \<Longrightarrow> lock_inv s"
  by (simp add: lock_init_def lock_inv_def owns_def)

lemma pushcli_fields: "ncli (pushcli c) = ncli c + 1" "\<not> c_if (pushcli c)"
  by (simp_all add: pushcli_def Let_def)

lemma popcli_Inr:
  "popcli c = Inr c' \<Longrightarrow> ncli c' = ncli c - 1 \<and> (ncli c' > 0 \<longrightarrow> \<not> c_if c')"
  by (auto simp: popcli_def Let_def split: if_splits)

lemma lock_invD:
  assumes "lock_inv s"
  shows "lk_locked (locks s l) \<longleftrightarrow> (\<exists>c. owns s c l)" "owns s c l \<Longrightarrow> owns s c' l \<Longrightarrow> c = c'"
    "lk_cpu (locks s l) = Some c \<longleftrightarrow> l \<in> set (acquired s c)" "distinct (acquired s c)"
    "phase_of s c = Got l \<or> phase_of s c = Rel l \<Longrightarrow> l \<notin> set (acquired s c)"
    "ncli (cpus s c) = int (length (acquired s c)) + (if phase_of s c = Idle then 0 else 1)"
    "ncli (cpus s c) > 0 \<Longrightarrow> \<not> c_if (cpus s c)"
  using assms unfolding lock_inv_def by (simp_all, blast+)

lemma lock_invI:
  assumes "\<And>l. lk_locked (locks s l) \<longleftrightarrow> (\<exists>c. owns s c l)" "\<And>l c c'. owns s c l \<Longrightarrow> owns s c' l \<Longrightarrow> c = c'"
    "\<And>l c. lk_cpu (locks s l) = Some c \<longleftrightarrow> l \<in> set (acquired s c)" "\<And>c. distinct (acquired s c)"
    "\<And>c l. phase_of s c = Got l \<or> phase_of s c = Rel l \<Longrightarrow> l \<notin> set (acquired s c)"
    "\<And>c. ncli (cpus s c) = int (length (acquired s c)) + (if phase_of s c = Idle then 0 else 1)"
    "\<And>c. ncli (cpus s c) > 0 \<Longrightarrow> \<not> c_if (cpus s c)"
  shows "lock_inv s"
  using assms unfolding lock_inv_def by blast

lemma lock_inv_enter:
  assumes "lock_inv s" "phase_of s c = Idle" "acquire_enter c l s = Inr s'"
  shows "lock_inv s'"
proof -
  have s': "s' = set_phase c (Spin l) (s\<lparr>cpus := (cpus s)(c := pushcli (cpus s c))\<rparr>)"
    using assms(3) by (auto simp: acquire_enter_def Let_def split: if_splits)
  have o: "owns s' c' l' = owns s c' l'" for c' l'
    using assms(2) by (auto simp: owns_def s' set_phase_def)
  have f: "locks s' = locks s" "acquired s' = acquired s" by (simp_all add: s' set_phase_def)
  show ?thesis
    using lock_invD [OF assms(1)] assms(2) unfolding lock_inv_def o f
    by (auto simp: s' set_phase_def pushcli_fields)
qed

lemma lock_inv_xchg:
  assumes "lock_inv s" "phase_of s c = Spin l"
  shows "lock_inv (acquire_xchg c l s)"
proof (cases "lk_locked (locks s l)")
  case True
  then have "(locks s l)\<lparr>lk_locked := True\<rparr> = locks s l" by simp
  then have "set_lock l ((locks s l)\<lparr>lk_locked := True\<rparr>) s = s" by (simp add: set_lock_def)
  then show ?thesis using True assms(1) by (simp add: acquire_xchg_def Let_def)
next
  case False
  let ?s = "acquire_xchg c l s"
  have f: "acquired ?s = acquired s" "cpus ?s = cpus s" "phase_of ?s = (phase_of s)(c := Got l)"
    "locks ?s = (locks s)(l := (locks s l)\<lparr>lk_locked := True\<rparr>)"
    using False by (simp_all add: acquire_xchg_def Let_def set_phase_def set_lock_def)
  have no: "\<not> owns s c' l" for c' using lock_invD(1) [OF assms(1), of l] False by blast
  have o: "owns ?s c' l' \<longleftrightarrow> owns s c' l' \<or> c' = c \<and> l' = l" for c' l'
    using assms(2) by (auto simp: owns_def f)
  have nm: "l \<notin> set (acquired s c)" using no [of c] by (simp add: owns_def)
  show ?thesis
    using lock_invD [OF assms(1)] assms(2) no nm unfolding lock_inv_def o f
    by auto
qed

lemma lock_inv_record:
  assumes i: "lock_inv s" and p: "phase_of s c = Got l"
  shows "lock_inv (acquire_record c l s)"
proof -
  let ?s = "acquire_record c l s"
  have f: "acquired ?s = (acquired s)(c := l # acquired s c)" "cpus ?s = cpus s" "phase_of ?s = (phase_of s)(c := Idle)"
    "locks ?s = (locks s)(l := (locks s l)\<lparr>lk_cpu := Some c\<rparr>)"
    by (simp_all add: acquire_record_def Let_def set_phase_def set_lock_def)
  have oc: "owns s c l" using p by (simp add: owns_def)
  have o: "owns ?s c' l' \<longleftrightarrow> owns s c' l'" for c' l' using p by (auto simp: owns_def f)
  have nm: "l \<notin> set (acquired s c')" for c'
    using lock_invD(2) [OF i oc, of c'] lock_invD(5) [OF i, of c l] p by (auto simp: owns_def)
  have pc: "phase_of s c' \<noteq> Got l \<and> phase_of s c' \<noteq> Rel l" if "c' \<noteq> c" for c'
    using lock_invD(2) [OF i oc, of c'] that by (auto simp: owns_def)
  show ?thesis
    using lock_invD [OF i] p nm pc unfolding lock_inv_def o f
    by auto
qed

lemma lock_inv_leave:
  assumes i: "lock_inv s" and p: "phase_of s c = Idle" and e: "release_enter c l s = Inr s'"
  shows "lock_inv s'"
proof -
  have h: "lk_cpu (locks s l) = Some c" using e by (auto simp: release_enter_def holding_def split: if_splits)
  then have mem: "l \<in> set (acquired s c)" using lock_invD(3) [OF i] by simp
  have f: "acquired s' = (acquired s)(c := removeAll l (acquired s c))" "cpus s' = cpus s"
    "phase_of s' = (phase_of s)(c := Rel l)" "locks s' = (locks s)(l := (locks s l)\<lparr>lk_cpu := None\<rparr>)"
    using e by (auto simp: release_enter_def Let_def set_phase_def set_lock_def split: if_splits)
  have o: "owns s' c' l' \<longleftrightarrow> owns s c' l'" for c' l' using p mem by (auto simp: owns_def f)
  have oc: "owns s c l" using mem by (simp add: owns_def)
  have nm: "l \<notin> set (acquired s c')" if "c' \<noteq> c" for c'
    using lock_invD(2) [OF i oc, of c'] that by (auto simp: owns_def)
  have len: "length (removeAll l (acquired s c)) = length (acquired s c) - 1" "0 < length (acquired s c)"
    using mem lock_invD(4) [OF i, of c] by (auto simp: distinct_remove1_removeAll [symmetric] length_remove1 length_pos_if_in_set)
  then have "int (length (acquired s c)) = int (length (removeAll l (acquired s c))) + 1" by linarith
  note len = this
  have "lk_cpu (locks s' l') = Some c' \<longleftrightarrow> l' \<in> set (acquired s' c')" for l' c'
    using lock_invD(3) [OF i, of l' c'] nm [of c'] by (auto simp: f)
  moreover have "lk_locked (locks s' l') \<longleftrightarrow> (\<exists>c. owns s' c l')" for l'
    using lock_invD(1) [OF i, of l'] by (auto simp: f o)
  moreover have "ncli (cpus s' c') = int (length (acquired s' c')) + (if phase_of s' c' = Idle then 0 else 1)" for c'
    using lock_invD(6) [OF i, of c'] p len by (auto simp: f)
  moreover have "distinct (acquired s' c')" for c'
    using lock_invD(4) [OF i, of c'] by (auto simp: f distinct_removeAll)
  moreover have "l' \<notin> set (acquired s' c')" if "phase_of s' c' = Got l' \<or> phase_of s' c' = Rel l'" for c' l'
    using that lock_invD(5) [OF i, of c' l'] by (auto simp: f split: if_splits)
  ultimately show ?thesis
    using lock_invD(2,7) [OF i] unfolding lock_inv_def o by (simp add: f(2))
qed

lemma lock_inv_store:
  assumes i: "lock_inv s" and p: "phase_of s c = Rel l" and e: "release_store c l s = Inr s'"
  shows "lock_inv s'"
proof -
  obtain cp where cp: "popcli (cpus s c) = Inr cp" "s' = (set_phase c Idle (set_lock l ((locks s l)\<lparr>lk_locked := False\<rparr>) s))\<lparr>cpus := (cpus s)(c := cp)\<rparr>"
    using e by (auto simp: release_store_def Let_def result_simps set_phase_def set_lock_def)
  have f: "acquired s' = acquired s" "cpus s' = (cpus s)(c := cp)" "phase_of s' = (phase_of s)(c := Idle)"
    "locks s' = (locks s)(l := (locks s l)\<lparr>lk_locked := False\<rparr>)"
    by (simp_all add: cp set_phase_def set_lock_def)
  note pop = popcli_Inr [OF cp(1)]
  have oc: "owns s c l" using p by (simp add: owns_def)
  have only: "\<not> owns s c' l" if "c' \<noteq> c" for c' using lock_invD(2) [OF i oc, of c'] that by blast
  have nm: "l \<notin> set (acquired s c)" using lock_invD(5) [OF i, of c l] p by simp
  have o: "owns s' c' l' \<longleftrightarrow> owns s c' l' \<and> l' \<noteq> l" for c' l'
    using p nm only [of c'] by (auto simp: owns_def f)
  show ?thesis
  proof (rule lock_invI)
    show "lk_locked (locks s' l') \<longleftrightarrow> (\<exists>c. owns s' c l')" for l'
      using lock_invD(1) [OF i, of l'] by (auto simp: f o)
    show "ncli (cpus s' c') = int (length (acquired s' c')) + (if phase_of s' c' = Idle then 0 else 1)" for c'
      using lock_invD(6) [OF i, of c'] p pop by (auto simp: f)
    show "\<not> c_if (cpus s' c')" if "ncli (cpus s' c') > 0" for c'
      using that lock_invD(7) [OF i, of c'] pop by (auto simp: f split: if_splits)
    show "lk_cpu (locks s' l') = Some c' \<longleftrightarrow> l' \<in> set (acquired s' c')" for l' c'
      using lock_invD(3) [OF i, of l' c'] by (auto simp: f)
    show "l' \<notin> set (acquired s' c')" if "phase_of s' c' = Got l' \<or> phase_of s' c' = Rel l'" for c' l'
      using that lock_invD(5) [OF i, of c' l'] by (auto simp: f split: if_splits)
    show "c1 = c2" if "owns s' c1 l'" "owns s' c2 l'" for l' c1 c2
      using that lock_invD(2) [OF i, of c1 l' c2] by (simp add: o)
    show "distinct (acquired s' c')" for c' using lock_invD(4) [OF i, of c'] by (simp add: f)
  qed
qed

lemma lock_reach_inv: "lock_reach s \<Longrightarrow> lock_inv s"
proof (induction rule: lock_reach.induct)
  case (after_step s s')
  from after_step(2,3) show ?case
    by (elim lock_stepE) (auto intro: lock_inv_enter lock_inv_xchg lock_inv_record lock_inv_leave lock_inv_store)
qed (rule lock_inv_init)

section \<open>Properties\<close>

text \<open>
  C9. Mutual exclusion, for any number of CPUs and locks and any interleaving of their steps: at most one CPU
  is in possession of a lock (from its successful \<open>xchg\<close> to its store in \<open>release\<close>); a CPU that possesses a lock
  or spins for one has its interrupts disabled; and \<open>holding\<close> answers exactly whether the CPU that asks has
  acquired the lock, so \<open>acquire\<close> panics exactly on a second acquisition by the same CPU and \<open>release\<close>
  exactly on a lock the CPU has not acquired.
\<close>

theorem spinlock_exclusion:
  assumes "lock_reach s"
  shows "(\<forall>l c c'. owns s c l \<longrightarrow> owns s c' l \<longrightarrow> c = c') \<and>
    (\<forall>c l. owns s c l \<or> phase_of s c = Spin l \<longrightarrow> \<not> c_if (cpus s c)) \<and>
    (\<forall>c l. holding c (locks s l) \<longleftrightarrow> l \<in> set (acquired s c))"
proof -
  note i = lock_reach_inv [OF assms]
  have "\<not> c_if (cpus s c)" if "owns s c l \<or> phase_of s c = Spin l" for c l
  proof -
    have "acquired s c \<noteq> [] \<or> phase_of s c \<noteq> Idle" using that by (auto simp: owns_def)
    then have "ncli (cpus s c) > 0" using lock_invD(6) [OF i, of c] by auto
    then show ?thesis by (rule lock_invD(7) [OF i])
  qed
  moreover have "holding c (locks s l) \<longleftrightarrow> l \<in> set (acquired s c)" for c l
    using lock_invD(1,3) [OF i, of l] by (auto simp: holding_def owns_def)
  ultimately show ?thesis using lock_invD(2) [OF i] by blast
qed

definition demo_locks :: locksys where
  "demo_locks = \<lparr>cpus = (\<lambda>_. \<lparr>ncli = 0, intena = False, c_if = True\<rparr>),
     locks = (\<lambda>_. \<lparr>lk_locked = False, lk_name = [], lk_cpu = None\<rparr>),
     phase_of = (\<lambda>_. Idle), acquired = (\<lambda>_. [])\<rparr>"

definition demo_locked :: locksys where
  "demo_locked = (case acquire_enter 1 7 demo_locks of
     Inl _ \<Rightarrow> demo_locks | Inr s \<Rightarrow> acquire_record 1 7 (acquire_xchg 1 7 s))"

lemmas lock_defs = acquire_enter_def acquire_xchg_def acquire_record_def release_enter_def release_store_def
  set_phase_def set_lock_def holding_def pushcli_def Let_def

lemma demo_locked:
  "lock_reach demo_locked" "phase_of demo_locked 1 = Idle" "acquired demo_locked 1 = [7]"
proof -
  have r0: "lock_reach demo_locks" by (rule at_init) (simp add: lock_init_def demo_locks_def)
  obtain s where s: "acquire_enter 1 7 demo_locks = Inr s" "phase_of s 1 = Spin 7" "locks s = locks demo_locks"
      "acquired s = acquired demo_locks"
    by (simp add: lock_defs demo_locks_def)
  have "phase_of demo_locks 1 = Idle" by (simp add: demo_locks_def)
  note r1 = after_step [OF r0 do_enter [OF this s(1)]]
  note r = after_step [OF r1 do_xchg [OF s(2)]]
  have g: "phase_of (acquire_xchg 1 7 s) 1 = Got 7" using s by (simp add: lock_defs demo_locks_def)
  from after_step [OF r do_record [OF g]] show "lock_reach demo_locked" unfolding demo_locked_def s(1) by simp
  show "phase_of demo_locked 1 = Idle" "acquired demo_locked 1 = [7]"
    unfolding demo_locked_def s(1) using s(2-4) by (simp_all add: lock_defs demo_locks_def)
qed

theorem spinlock_exclusion_witness:
  "lock_reach demo_locked \<and> owns demo_locked 1 7 \<and> \<not> owns demo_locked 2 7 \<and> holding 1 (locks demo_locked 7)"
proof -
  have o: "owns demo_locked 1 7" using demo_locked(3) by (simp add: owns_def)
  note e = spinlock_exclusion [OF demo_locked(1)]
  from e o have "\<not> owns demo_locked 2 7" by fastforce
  with e o demo_locked show ?thesis by simp
qed

text \<open>
  C10. Interrupt state is balanced: in every reachable state \<open>ncli\<close> of a CPU is the number of its acquisitions that
  are not released yet, and a \<open>release\<close> of an acquired lock runs to its end without a panic from \<open>holding\<close> or
  from either check of \<open>popcli\<close>.
\<close>

theorem release_never_panics:
  assumes "lock_reach s"
  shows "ncli (cpus s c) = int (length (acquired s c)) + (if phase_of s c = Idle then 0 else 1) \<and>
    (l \<in> set (acquired s c) \<longrightarrow> (\<exists>s'. release_enter c l s = Inr s')) \<and>
    (phase_of s c = Rel l \<longrightarrow> (\<exists>s'. release_store c l s = Inr s'))"
proof (intro conjI impI)
  note i = lock_reach_inv [OF assms]
  show n: "ncli (cpus s c) = int (length (acquired s c)) + (if phase_of s c = Idle then 0 else 1)"
    by (rule lock_invD(6) [OF i])
  show "\<exists>s'. release_enter c l s = Inr s'" if "l \<in> set (acquired s c)"
    using that lock_invD(1,3) [OF i, of l] by (auto simp: release_enter_def holding_def owns_def Let_def)
  show "\<exists>s'. release_store c l s = Inr s'" if "phase_of s c = Rel l"
    using that n lock_invD(7) [OF i, of c] by (auto simp: release_store_def popcli_def Let_def set_phase_def set_lock_def)
qed

theorem release_never_panics_witness:
  "lock_reach demo_locked \<and> ncli (cpus demo_locked 1) = 1 \<and> (\<exists>s'. release_enter 1 7 demo_locked = Inr s')"
  using release_never_panics [OF demo_locked(1), of 1 7] demo_locked by auto

end
