(* ===== verification/Graphic.thy ===== *)
theory Graphic
  imports Font Mmu
begin

text \<open>
  The frame buffer console: \<open>src/xv6/graphic.c\<close>, \<open>src/xv6/font.c\<close> and \<open>graphic_putc\<close> of \<open>src/xv6/console.c\<close>. The frame
  buffer is a range of the address space. Reading the font outside its 95 characters is undefined.
\<close>

section \<open>Pixels\<close>

record gpu =
  pvram_addr :: u32
  vvram_addr :: u32
  vram_size :: u32
  horizontal_resolution :: u32
  vertical_resolution :: u32
  pixels_per_line :: u32

text \<open>\<open>struct graphic_config\<close> of the boot parameters, five 64-bit numbers.\<close>

record graphic_config =
  gc_frame_base :: u64
  gc_frame_size :: u64
  gc_horizontal_resolution :: u64
  gc_vertical_resolution :: u64
  gc_pixels_per_line :: u64

definition graphic_init :: "graphic_config \<Rightarrow> gpu" where
  "graphic_init b =
    \<lparr>pvram_addr = ucast (gc_frame_base b), vvram_addr = DEVSPACE - ucast (gc_frame_size b), vram_size = ucast (gc_frame_size b),
     horizontal_resolution = ucast (gc_horizontal_resolution b AND 0xFFFFFFFF),
     vertical_resolution = ucast (gc_vertical_resolution b AND 0xFFFFFFFF),
     pixels_per_line = ucast (gc_pixels_per_line b AND 0xFFFFFFFF)\<rparr>"

record graphic_pixel =
  px_blue :: u8
  px_green :: u8
  px_red :: u8

definition black_pixel :: graphic_pixel where
  "black_pixel = \<lparr>px_blue = 0, px_green = 0, px_red = 0\<rparr>"

definition white_pixel :: graphic_pixel where
  "white_pixel = \<lparr>px_blue = 0xFF, px_green = 0xFF, px_red = 0xFF\<rparr>"

definition pixel_addr :: "gpu \<Rightarrow> int \<Rightarrow> int \<Rightarrow> u32" where
  "pixel_addr g x y = vvram_addr g + 4 * (of_int y * pixels_per_line g + of_int x)"

definition graphic_draw_pixel :: "gpu \<Rightarrow> int \<Rightarrow> int \<Rightarrow> graphic_pixel \<Rightarrow> mem \<Rightarrow> mem" where
  "graphic_draw_pixel g x y p m =
    (let a = pixel_addr g x y in m(a := px_blue p, a + 1 := px_green p, a + 2 := px_red p))"

definition graphic_scroll_up :: "gpu \<Rightarrow> u32 \<Rightarrow> mem \<Rightarrow> mem" where
  "graphic_scroll_up g height m =
    (let d = 4 * pixels_per_line g * height;
         m = memmove (vvram_addr g) (vvram_addr g + d) (vram_size g - d) m
     in memset (vvram_addr g + vram_size g - d) 0 d m)"

section \<open>Characters\<close>

definition FONT_WIDTH :: int where "FONT_WIDTH = 15"

definition FONT_HEIGHT :: int where "FONT_HEIGHT = 30"

text \<open>The pixels of a character, in the order they are drawn: row by row, from bit 14 down to bit 0.\<close>

definition glyph :: "u16 list \<Rightarrow> (nat \<times> nat \<times> bool) list" where
  "glyph rows = concat (map (\<lambda>i. map (\<lambda>k. (k, i, bit (rows ! i) (14 - k))) [0..<15]) [0..<30])"

definition font_render :: "gpu \<Rightarrow> int \<Rightarrow> int \<Rightarrow> int \<Rightarrow> mem \<Rightarrow> mem result" where
  "font_render g x y index m =
    (if index - 0x20 < 0 \<or> index - 0x20 \<ge> 95 then Inl (Undefined ''font_bin'')
     else Inr (fold (\<lambda>(k, i, b). graphic_draw_pixel g (x + int k) (y + int i) (if b then white_pixel else black_pixel))
       (glyph (font_bin ! nat (index - 0x20))) m))"

fun font_render_string_loop :: "gpu \<Rightarrow> int \<Rightarrow> int \<Rightarrow> u8 list \<Rightarrow> mem \<Rightarrow> mem result" where
  "font_render_string_loop g row i [] m = Inr m"
| "font_render_string_loop g row i (c # cs) m =
    (if i < 52 then andthen (font_render g (i * 15 + 2) (row * 30) (sint c) m) (font_render_string_loop g row (i + 1) cs)
     else Inr m)"

definition font_render_string :: "gpu \<Rightarrow> u8 list \<Rightarrow> int \<Rightarrow> mem \<Rightarrow> mem result" where
  "font_render_string g cs row m = font_render_string_loop g row 0 cs m"

section \<open>The text screen\<close>

definition CONSOLE_HORIZONTAL_MAX :: int where "CONSOLE_HORIZONTAL_MAX = 53"

definition CONSOLE_VERTICAL_MAX :: int where "CONSOLE_VERTICAL_MAX = 20"

definition BACKSPACE :: int where "BACKSPACE = 0x100"

lemmas screen_defs = FONT_WIDTH_def FONT_HEIGHT_def CONSOLE_HORIZONTAL_MAX_def CONSOLE_VERTICAL_MAX_def BACKSPACE_def

record screen =
  sc_gpu :: gpu
  sc_mem :: mem
  console_pos :: int

text \<open>The initial value of \<open>console_pos\<close>.\<close>

definition screen_init :: "gpu \<Rightarrow> mem \<Rightarrow> screen" where
  "screen_init g m = \<lparr>sc_gpu = g, sc_mem = m, console_pos = CONSOLE_HORIZONTAL_MAX * CONSOLE_VERTICAL_MAX\<rparr>"

definition scroll_full :: "'z screen_scheme \<Rightarrow> 'z screen_scheme" where
  "scroll_full s =
    (if console_pos s \<ge> CONSOLE_VERTICAL_MAX * CONSOLE_HORIZONTAL_MAX
     then s\<lparr>console_pos := console_pos s - CONSOLE_HORIZONTAL_MAX, sc_mem := graphic_scroll_up (sc_gpu s) 30 (sc_mem s)\<rparr>
     else s)"

definition graphic_putc :: "int \<Rightarrow> 'z screen_scheme \<Rightarrow> 'z screen_scheme result" where
  "graphic_putc c s =
    (if c = 10 then
       Inr (scroll_full (s\<lparr>console_pos := console_pos s + (CONSOLE_HORIZONTAL_MAX - console_pos s mod CONSOLE_HORIZONTAL_MAX)\<rparr>))
     else if c = BACKSPACE then
       Inr (if console_pos s > 0 then s\<lparr>console_pos := console_pos s - 1\<rparr> else s)
     else
       let s = scroll_full s;
           x = console_pos s mod CONSOLE_HORIZONTAL_MAX * FONT_WIDTH + 2;
           y = console_pos s div CONSOLE_HORIZONTAL_MAX * FONT_HEIGHT
       in andthen (font_render (sc_gpu s) x y c (sc_mem s)) (\<lambda>m.
            Inr (s\<lparr>sc_mem := m, console_pos := console_pos s + 1\<rparr>)))"

end
