(* ===== verification/Printf.thy ===== *)
theory Printf
  imports Cstring
begin

text \<open>
  Formatted output: \<open>printint\<close> and \<open>cprintf\<close> of \<open>src/xv6/console.c\<close> and \<open>printint\<close> and \<open>printf\<close> of
  \<open>src/xv6/printf.c\<close>, as functions from the format and the arguments to the bytes that are put out, in
  order. The arguments are the words on the stack above the format; reading past them is undefined.
  \<open>strs\<close> gives the bytes of the string an argument points to.
\<close>

section \<open>Numbers\<close>

text \<open>The table \<open>digits\<close>: \<open>lower\<close> is the kernel's, the user library's has capital letters.\<close>

definition digit_char :: "bool \<Rightarrow> nat \<Rightarrow> u8" where
  "digit_char lower d = (if d < 10 then of_nat (48 + d) else of_nat ((if lower then 97 else 65) + (d - 10)))"

text \<open>The contents of \<open>buf\<close> after the \<open>do\<close> loop: the digits, the least significant one first.\<close>

function digits_rev :: "bool \<Rightarrow> nat \<Rightarrow> nat \<Rightarrow> u8 list" where
  "digits_rev lower base x =
    digit_char lower (x mod base) # (if base \<le> 1 \<or> x div base = 0 then [] else digits_rev lower base (x div base))"
  by pat_completeness auto
termination
  by (relation "measure (\<lambda>(l, b, x). x)") (auto simp: div_less_dividend intro!: div_less_dividend gr0I)

declare digits_rev.simps [simp del]

definition print_number :: "bool \<Rightarrow> u32 \<Rightarrow> nat \<Rightarrow> bool \<Rightarrow> u8 list" where
  "print_number lower xx base sign =
    (let neg = sign \<and> sint xx < 0; x = (if neg then - xx else xx);
         buf = digits_rev lower base (unat x) @ (if neg then [45] else [])
     in rev buf)"

definition printint :: "u32 \<Rightarrow> nat \<Rightarrow> bool \<Rightarrow> u8 list" where
  "printint xx base sign = print_number False xx base sign"

definition cons_printint :: "u32 \<Rightarrow> nat \<Rightarrow> bool \<Rightarrow> u8 list" where
  "cons_printint xx base sign = print_number True xx base sign"

section \<open>Formats\<close>

definition fmt_null :: "u8 list" where
  "fmt_null = [40, 110, 117, 108, 108, 41]"

definition take_arg :: "u32 list \<Rightarrow> (u32 \<times> u32 list) result" where
  "take_arg args = (case args of [] \<Rightarrow> Inl (Undefined ''argp'') | a # as \<Rightarrow> Inr (a, as))"

definition fmt_str :: "(u32 \<Rightarrow> u8 list) \<Rightarrow> u32 \<Rightarrow> u8 list" where
  "fmt_str strs a = (if a = 0 then fmt_null else strs a)"

text \<open>\<open>cprintf\<close>: the format ends at a NUL, also right after a percent sign.\<close>

fun cprintf :: "(u32 \<Rightarrow> u8 list) \<Rightarrow> u8 list \<Rightarrow> u32 list \<Rightarrow> u8 list result" where
  "cprintf strs [] args = Inr []"
| "cprintf strs [c] args = (if c \<noteq> 37 then Inr [c] else Inr [])"
| "cprintf strs (c # d # fmt) args =
    (if c \<noteq> 37 then andthen (cprintf strs (d # fmt) args) (\<lambda>out. Inr (c # out))
     else if d = 100 then
       andthen (take_arg args) (\<lambda>(a, as). andthen (cprintf strs fmt as) (\<lambda>out. Inr (cons_printint a 10 True @ out)))
     else if d = 120 \<or> d = 112 then
       andthen (take_arg args) (\<lambda>(a, as). andthen (cprintf strs fmt as) (\<lambda>out. Inr (cons_printint a 16 False @ out)))
     else if d = 115 then
       andthen (take_arg args) (\<lambda>(a, as). andthen (cprintf strs fmt as) (\<lambda>out. Inr (fmt_str strs a @ out)))
     else if d = 37 then andthen (cprintf strs fmt args) (\<lambda>out. Inr (37 # out))
     else andthen (cprintf strs fmt args) (\<lambda>out. Inr (37 # d # out)))"

text \<open>\<open>printf\<close>: the boolean is the variable \<open>state\<close>, set after a percent sign.\<close>

fun printf_loop :: "(u32 \<Rightarrow> u8 list) \<Rightarrow> bool \<Rightarrow> u8 list \<Rightarrow> u32 list \<Rightarrow> u8 list result" where
  "printf_loop strs st [] ap = Inr []"
| "printf_loop strs False (c # fmt) ap =
    (if c = 37 then printf_loop strs True fmt ap
     else andthen (printf_loop strs False fmt ap) (\<lambda>out. Inr (c # out)))"
| "printf_loop strs True (c # fmt) ap =
    (if c = 100 then
       andthen (take_arg ap) (\<lambda>(a, ap). andthen (printf_loop strs False fmt ap) (\<lambda>out. Inr (printint a 10 True @ out)))
     else if c = 120 \<or> c = 112 then
       andthen (take_arg ap) (\<lambda>(a, ap). andthen (printf_loop strs False fmt ap) (\<lambda>out. Inr (printint a 16 False @ out)))
     else if c = 115 then
       andthen (take_arg ap) (\<lambda>(a, ap). andthen (printf_loop strs False fmt ap) (\<lambda>out. Inr (fmt_str strs a @ out)))
     else if c = 99 then
       andthen (take_arg ap) (\<lambda>(a, ap). andthen (printf_loop strs False fmt ap) (\<lambda>out. Inr (ucast a # out)))
     else if c = 37 then andthen (printf_loop strs False fmt ap) (\<lambda>out. Inr (c # out))
     else andthen (printf_loop strs False fmt ap) (\<lambda>out. Inr (37 # c # out)))"

definition printf :: "(u32 \<Rightarrow> u8 list) \<Rightarrow> u8 list \<Rightarrow> u32 list \<Rightarrow> u8 list result" where
  "printf strs fmt ap = printf_loop strs False fmt ap"

section \<open>Decimal numbers\<close>

text \<open>The reference: the decimal representation, written from the most significant digit.\<close>

fun dec :: "nat \<Rightarrow> u8 list" where
  "dec n = (if n < 10 then [of_nat (48 + n)] else dec (n div 10) @ [of_nat (48 + n mod 10)])"

declare dec.simps [simp del]

lemma digits_rev_dec: "rev (digits_rev lower 10 n) = dec n"
proof (induction n rule: dec.induct)
  case (1 n)
  show ?case
  proof (cases "n < 10")
    case True
    then show ?thesis by (simp add: digits_rev.simps [of lower 10 n] dec.simps [of n] digit_char_def)
  next
    case False
    then have "n div 10 \<noteq> 0" by simp
    with 1 [OF False] False show ?thesis
      by (simp add: digits_rev.simps [of lower 10 n] dec.simps [of n] digit_char_def)
  qed
qed

lemma length_digits_rev:
  assumes "2 \<le> base" "x < base ^ k" "0 < k"
  shows "length (digits_rev lower base x) \<le> k"
  using assms(2,3)
proof (induction k arbitrary: x)
  case (Suc k)
  show ?case
  proof (cases "x div base = 0")
    case True
    then show ?thesis by (simp add: digits_rev.simps [of lower base x])
  next
    case False
    have lt: "x div base < base ^ k" using Suc.prems(1) by (simp add: less_mult_imp_div_less mult.commute)
    have "0 < k"
    proof (rule ccontr)
      assume "\<not> 0 < k"
      with lt False show False by simp
    qed
    from Suc.IH [OF lt this] show ?thesis by (simp add: digits_rev.simps [of lower base x])
  qed
qed simp

lemma sint_neg_unat: "sint (x :: u32) < 0 \<Longrightarrow> int (unat (- x)) = - sint x"
proof -
  assume neg: "sint x < 0"
  have "- x = word_of_int (- sint x)" by simp
  then have "uint (- x) = take_bit 32 (- sint x)" by (simp only: uint_word_of_int_eq) simp
  moreover have "- (2 ^ 31) \<le> sint x" using sint_ge [of x] by simp
  ultimately show ?thesis using neg by (simp add: take_bit_int_eq_self)
qed

lemma sint_nonneg_unat: "0 \<le> sint (x :: u32) \<Longrightarrow> int (unat x) = sint x"
proof -
  assume "0 \<le> sint x"
  moreover have "sint x < 2 ^ 31" using sint_lt [of x] by simp
  ultimately show ?thesis by (simp add: uint_sint take_bit_int_eq_self)
qed

lemma unat_digit: "d < 10 \<Longrightarrow> unat (of_nat (48 + d) :: u8) = 48 + d"
  by (simp only: unat_of_nat) simp

lemma dec_digits: "\<forall>c\<in>set (dec n). 48 \<le> c \<and> c \<le> 57"
proof (induction n rule: dec.induct)
  case (1 n)
  have digit: "48 \<le> (of_nat (48 + d) :: u8) \<and> (of_nat (48 + d) :: u8) \<le> 57" if "d < 10" for d
    using unat_digit [OF that] by (simp only: word_le_nat_alt) (use that in simp)
  show ?case
  proof (cases "n < 10")
    case True
    then show ?thesis using digit [of n] by (simp add: dec.simps [of n])
  next
    case False
    with 1 [OF False] digit [of "n mod 10"] show ?thesis by (auto simp: dec.simps [of n])
  qed
qed

lemma atoi_loop_digits:
  "cstring m s cs \<Longrightarrow> \<forall>c\<in>set cs. 48 \<le> c \<and> c \<le> 57 \<Longrightarrow>
    atoi_loop m s n = Some (foldl (\<lambda>n c. n * 10 + ucast c - 48) n cs)"
proof (induction cs arbitrary: s n)
  case Nil
  then show ?case by (simp add: atoi_loop.simps)
next
  case (Cons c cs)
  then show ?case by (subst atoi_loop.simps) simp
qed

lemma foldl_dec: "foldl (\<lambda>n c. n * 10 + ucast c - 48) 0 (dec n) = (of_nat n :: u32)"
proof (induction n rule: dec.induct)
  case (1 n)
  have digit: "ucast (of_nat (48 + d) :: u8) = (48 + of_nat d :: u32)" if "d < 10" for d
  proof -
    have "ucast (of_nat (48 + d) :: u8) = (of_nat (48 + d) :: u32)"
      using that by (simp only: unsigned_of_nat) (simp add: take_bit_eq_mod)
    then show ?thesis by simp
  qed
  show ?case
  proof (cases "n < 10")
    case True
    then show ?thesis using digit [of n] by (simp add: dec.simps [of n])
  next
    case False
    have "(of_nat n :: u32) = of_nat (n div 10 * 10 + n mod 10)" by simp
    also have "\<dots> = of_nat (n div 10) * 10 + of_nat (n mod 10)" by (simp only: of_nat_add of_nat_mult of_nat_numeral)
    finally show ?thesis using 1 [OF False] False digit [of "n mod 10"] by (simp add: dec.simps [of n])
  qed
qed

lemma print_number_decimal:
  "print_number lower x 10 True = (if sint x < 0 then 45 # dec (nat (- sint x)) else dec (nat (sint x)))"
  "print_number lower x 10 False = dec (unat x)"
  using sint_neg_unat [of x] sint_nonneg_unat [of x]
  by (auto simp: print_number_def digits_rev_dec Let_def dest!: arg_cong [where f = nat])

lemma length_print_number:
  "length (print_number lower x 10 sign) \<le> 11" "length (print_number lower x 16 sign) \<le> 9"
proof -
  have len: "length (digits_rev lower base (unat y)) \<le> k"
    if "2 \<le> base" "2 ^ 32 \<le> base ^ k" "0 < k" for base k and y :: u32
    using length_digits_rev [of base "unat y" k lower] that unsigned_less [of y, where 'a = nat] by simp
  show "length (print_number lower x 10 sign) \<le> 11" "length (print_number lower x 16 sign) \<le> 9"
    using len [of 10 10 x] len [of 10 10 "- x"] len [of 16 8 x] len [of 16 8 "- x"] by (auto simp: print_number_def Let_def)
qed

text \<open>
  C21. The two functions \<open>printint\<close> (of the kernel and of the user library) print, with base 10, the decimal
  representation: of the value as a signed number when asked to, with a minus sign in front of a negative one
  (\<open>INT_MIN\<close> included), and of the value as an unsigned number otherwise. They store at most 11 bytes in base 10
  and at most 9 in base 16, which fit \<open>char buf[16]\<close>.
\<close>

theorem printint_decimal:
  "printint x 10 True = (if sint x < 0 then 45 # dec (nat (- sint x)) else dec (nat (sint x))) \<and>
    printint x 10 False = dec (unat x) \<and> cons_printint x 10 sign = printint x 10 sign \<and>
    length (printint x 10 sign) \<le> 11 \<and> length (printint x 16 sign) \<le> 9 \<and> length (cons_printint x 16 sign) \<le> 9"
  using length_print_number [of _ x sign]
  by (cases sign) (simp_all add: printint_def cons_printint_def print_number_decimal)

text \<open>
  Numbers survive printing and reading: if the bytes \<open>printint\<close> puts out for a value in base 10 (unsigned, or
  signed and not negative) stand in memory as a string, \<open>atoi\<close> returns and its result is that value.
\<close>

theorem atoi_printint:
  assumes "cstring m a (printint x 10 sign)" and "\<not> (sign \<and> sint x < 0)"
  shows "atoi m a = Some x"
proof -
  have d: "printint x 10 sign = dec (unat x)"
    using assms(2) by (auto simp: printint_def print_number_def digits_rev_dec Let_def)
  show ?thesis
    using atoi_loop_digits [OF assms(1) [unfolded d] dec_digits, of 0] by (simp add: atoi_def foldl_dec)
qed

theorem atoi_printint_witness:
  "printint 4095 10 True = [52, 48, 57, 53] \<and>
    atoi ((\<lambda>_. 0)(100 := 52, 101 := 48, 102 := 57, 103 := 53)) 100 = Some 4095"
proof -
  have p: "printint 4095 10 True = [52, 48, 57, 53]"
    by (simp add: printint_def print_number_def digits_rev.simps digit_char_def)
  have "cstring ((\<lambda>_. 0)(100 := 52, 101 := 48, 102 := 57, 103 := 53)) 100 (printint 4095 10 True)" unfolding p by simp
  from atoi_printint [OF this] p show ?thesis by simp
qed

end
