(* ===== verification/Ring.thy ===== *)
theory Ring
  imports Prelude
begin

text \<open>
  Ring buffers with free-running 32-bit counters, as pipes and the console input use them: a byte is
  stored at the write counter modulo the size, the counters only ever grow and wrap around at \<open>2 ^ 32\<close>,
  which is harmless because the size divides \<open>2 ^ 32\<close>. The locale \<open>fifo\<close> is what their clients rely on.
\<close>

section \<open>The contents of a ring\<close>

definition ring_items :: "'a list \<Rightarrow> u32 \<Rightarrow> u32 \<Rightarrow> 'a list" where
  "ring_items buf r w = map (\<lambda>i. buf ! (unat (r + of_nat i) mod length buf)) [0..<unat (w - r)]"

lemma length_ring_items [simp]: "length (ring_items buf r w) = unat (w - r)"
  by (simp add: ring_items_def)

lemma nth_ring_items:
  "i < unat (w - r) \<Longrightarrow> ring_items buf r w ! i = buf ! (unat (r + of_nat i) mod length buf)"
  by (simp add: ring_items_def)

lemma ring_items_empty [simp]: "ring_items buf r r = []"
  by (simp add: ring_items_def)

lemma ring_items_Nil: "ring_items buf r w = [] \<longleftrightarrow> w = r"
  by (metis length_0_conv length_ring_items unat_eq_zero eq_iff_diff_eq_0)

lemma unat_diff_Suc:
  assumes "unat (w - r :: u32) < n" "n < 2 ^ 32"
  shows "unat (w + 1 - r) = Suc (unat (w - r))"
proof -
  have "unat (w - r) + unat (1 :: u32) < 4294967296" using assms by simp
  then have "unat ((w - r) + 1) = unat (w - r) + unat (1 :: u32)" by (rule unat_add_u32)
  moreover have "(w - r) + 1 = w + 1 - r" by simp
  ultimately show ?thesis by simp
qed

lemma ring_slot_inj:
  assumes "n dvd 2 ^ 32" "0 < n" "i < n" "j < n"
    "unat (r + of_nat i :: u32) mod n = unat (r + of_nat j :: u32) mod n"
  shows "i = j"
proof -
  have n: "n \<le> 2 ^ 32" using assms(1) by (rule dvd_imp_le) simp
  have m: "unat (r + of_nat k :: u32) mod n = (unat r + k) mod n" if "k < n" for k
  proof -
    have "unat (r + of_nat k :: u32) = (unat r + k) mod 2 ^ 32"
      using that n by (simp add: unat_word_ariths unat_of_nat)
    then show ?thesis using assms(1) by (simp add: mod_mod_cancel)
  qed
  have e: "(unat r + i) mod n = (unat r + j) mod n" using assms(5) m assms(3,4) by simp
  have *: "a = b" if "a \<le> b" "b < n" "(unat r + b) mod n = (unat r + a) mod n" for a b
  proof -
    have "n dvd (unat r + b) - (unat r + a)" using that by (subst mod_eq_dvd_iff_nat [symmetric]) auto
    then have "n dvd b - a" by simp
    then have "b - a = 0" using that(2) by (auto dest!: dvd_imp_le)
    then show "a = b" using that(1) by simp
  qed
  show ?thesis using * [of i j] * [of j i] e assms(3,4) by (cases "i \<le> j") auto
qed

text \<open>Storing at the write counter, taking at the read counter, and taking back what was stored last.\<close>

lemma ring_put:
  assumes "length buf dvd 2 ^ 32" "length buf < 2 ^ 32" "unat (w - r) < length buf"
  shows "ring_items (buf[unat w mod length buf := x]) r (w + 1) = ring_items buf r w @ [x]"
proof -
  let ?n = "length buf" and ?k = "unat (w - r)"
  have pos: "0 < ?n" using assms(3) by linarith
  have w: "w = r + of_nat ?k" by simp
  have "buf[unat w mod ?n := x] ! (unat (r + of_nat i) mod ?n) = buf ! (unat (r + of_nat i) mod ?n)" if "i < ?k" for i
  proof -
    have "unat (r + of_nat i) mod ?n \<noteq> unat w mod ?n"
      using ring_slot_inj [OF assms(1) pos, of i ?k r] that assms(3) w by auto
    then show ?thesis by simp
  qed
  moreover have "unat (w + 1 - r) = Suc ?k" by (rule unat_diff_Suc [OF assms(3,2)])
  ultimately show ?thesis using pos by (simp add: ring_items_def)
qed

lemma ring_get:
  assumes "w \<noteq> r"
  shows "ring_items buf r w = buf ! (unat r mod length buf) # ring_items buf (r + 1) w"
proof -
  have "w - r \<noteq> 0" using assms by simp
  then have "unat (w - r - 1) = unat (w - r) - 1" "unat (w - r) \<noteq> 0" by (simp_all add: unat_minus_one unat_eq_zero)
  moreover have "w - r - 1 = w - (r + 1)" by simp
  ultimately have k: "unat (w - r) = Suc (unat (w - (r + 1)))" by simp
  have "[0..<Suc (unat (w - (r + 1)))] = 0 # map Suc [0..<unat (w - (r + 1))]"
    by (simp add: map_Suc_upt upt_conv_Cons)
  then show ?thesis by (simp add: ring_items_def k add.assoc o_def)
qed

lemma ring_unput:
  assumes "w \<noteq> r"
  shows "ring_items buf r w = ring_items buf r (w - 1) @ [buf ! (unat (w - 1) mod length buf)]"
proof -
  have "w - r \<noteq> 0" using assms by simp
  then have "unat (w - r - 1) = unat (w - r) - 1" "unat (w - r) \<noteq> 0" by (simp_all add: unat_minus_one unat_eq_zero)
  moreover have "w - r - 1 = w - 1 - r" by simp
  ultimately have k: "unat (w - r) = Suc (unat (w - 1 - r))" by simp
  have "r + of_nat (unat (w - 1 - r)) = w - 1" by simp
  then show ?thesis by (simp only: ring_items_def k upt_Suc) simp
qed

lemma ring_split:
  assumes "unat (e - r) = unat (w - r) + unat (e - w)"
  shows "ring_items buf r e = ring_items buf r w @ ring_items buf w e"
proof -
  have "w + of_nat (i - unat (w - r)) = r + of_nat i" if "unat (w - r) \<le> i" for i
    using that by (simp add: of_nat_diff)
  then show ?thesis by (intro nth_equalityI) (auto simp: assms nth_append nth_ring_items not_less add.commute)
qed

section \<open>First in, first out\<close>

locale fifo =
  fixes ok :: "'s \<Rightarrow> bool" and cap :: nat and items :: "'s \<Rightarrow> 'a list"
    and put :: "'a \<Rightarrow> 's \<Rightarrow> 's" and get :: "'s \<Rightarrow> 'a \<times> 's"
  assumes put: "ok s \<Longrightarrow> length (items s) < cap \<Longrightarrow> ok (put x s) \<and> items (put x s) = items s @ [x]"
    and get: "ok s \<Longrightarrow> items s = x # xs \<Longrightarrow> \<exists>s'. get s = (x, s') \<and> ok s' \<and> items s' = xs"
begin

lemma put_all:
  "ok s \<Longrightarrow> length (items s) + length xs \<le> cap \<Longrightarrow> ok (fold put xs s) \<and> items (fold put xs s) = items s @ xs"
proof (induction xs arbitrary: s)
  case (Cons x xs)
  then have "ok (put x s) \<and> items (put x s) = items s @ [x]" by (intro put) simp_all
  then show ?case using Cons by simp
qed simp

lemma put_get:
  assumes "ok s" "items s = []" "0 < cap"
  shows "\<exists>s'. get (put x s) = (x, s') \<and> ok s' \<and> items s' = []"
  using put [OF assms(1), of x] get [of "put x s" x "[]"] assms by simp

end

end
