(* ===== verification/Sleeplock.thy ===== *)
theory Sleeplock
  imports Prelude
begin

text \<open>
  The sleep locks of \<open>src/xv6/sleeplock.c\<close>, as one process sees them. Each operation runs under
  the lock's own spin lock \<open>lk->lk\<close> (theory \<open>Spinlock\<close> models spin locks and proves mutual
  exclusion), so it is one atomic transition of the lock. Finding the lock taken is a
  call of \<open>sleep(lk, ...)\<close>: the result \<open>Sleep\<close>, since in a run of a single process nobody else
  calls \<open>releasesleep\<close>. The debugging field \<open>name\<close> is kept, the debugging field of the inner
  spin lock is not.
\<close>

record sleeplock =
  sl_locked :: bool
  sl_name :: string
  sl_pid :: int

definition initsleeplock :: "string \<Rightarrow> sleeplock \<Rightarrow> sleeplock" where
  "initsleeplock name lk = lk\<lparr>sl_name := name, sl_locked := False, sl_pid := 0\<rparr>"

text \<open>\<open>pid\<close> is \<open>myproc()->pid\<close>.\<close>

definition acquiresleep :: "int \<Rightarrow> sleeplock \<Rightarrow> sleeplock result" where
  "acquiresleep pid lk =
     (if sl_locked lk then Inl (Sleep (sl_name lk))
      else Inr (lk\<lparr>sl_locked := True, sl_pid := pid\<rparr>))"

definition releasesleep :: "sleeplock \<Rightarrow> sleeplock" where
  "releasesleep lk = lk\<lparr>sl_locked := False, sl_pid := 0\<rparr>"

definition holdingsleep :: "sleeplock \<Rightarrow> bool" where
  "holdingsleep lk = sl_locked lk"

lemmas sleeplock_defs = initsleeplock_def acquiresleep_def releasesleep_def holdingsleep_def

declare sleeplock_defs [kernel_defs]

end
