(* ===== verification/Linked.thy ===== *)
theory Linked
  imports Main
begin

text \<open>
  Linked structures given by a successor function: \<open>linked f ys\<close> says that \<open>f\<close> leads from each
  element of \<open>ys\<close> to the next one. The lemmas describe what the pointer assignments of a circular
  list with a head \<open>H\<close> do: unlinking an element, linking one in right after the head, and
  the same seen along the backward pointers.
\<close>

fun linked :: "('n \<Rightarrow> 'n) \<Rightarrow> 'n list \<Rightarrow> bool" where
  "linked f (x # y # ys) = (f x = y \<and> linked f (y # ys))"
| "linked f ys = True"
lemma linked_append:
  "linked f (us @ v # vs) \<longleftrightarrow> linked f (us @ [v]) \<and> linked f (v # vs)"
proof (induction us)
  case (Cons u us)
  then show ?case by (cases us) auto
qed simp
lemma linked_cong:
  "(\<And>x. x \<in> set (butlast ys) \<Longrightarrow> f x = g x) \<Longrightarrow> linked f ys = linked g ys"
  by (induction f ys rule: linked.induct) auto

lemma linked_snoc2: "linked f (us @ [u, v]) \<longleftrightarrow> linked f (us @ [u]) \<and> f u = v"
  using linked_append [of f us u "[v]"] by simp

lemma linked_upd: "x \<notin> set (butlast ys) \<Longrightarrow> linked (f(x := y)) ys = linked f ys"
  by (rule linked_cong) auto

lemma linked_unlink:
  assumes "linked f (H # as @ b # bs @ [H])" and "distinct (as @ b # bs)" and "H \<notin> set (as @ b # bs)"
  shows "linked (f(last (H # as) := hd (bs @ [H]))) (H # as @ bs @ [H])"
proof (cases as rule: rev_cases)
  case Nil
  then show ?thesis using assms by (cases bs) (auto simp: linked_upd)
next
  case (snoc as' a)
  have "linked f (H # as' @ [a])" "linked f (b # bs @ [H])"
    using assms(1) linked_append [of f "H # as'" a "b # bs @ [H]"] linked_append[of f "H # as' @ [a]" b "bs @ [H]"]
    by (auto simp: snoc)
  then show ?thesis
    using assms(2,3) linked_append [of "f(a := hd (bs @ [H]))" "H # as'" a "bs @ [H]"] snoc
    by (cases bs) (auto simp: linked_upd butlast_append)
qed

lemma linked_push_front:
  assumes "linked f (H # ys @ [H])" and "b \<noteq> H" and "b \<notin> set ys" "H \<notin> set ys"
  shows "linked (f(b := hd (ys @ [H]), H := b)) (H # b # ys @ [H])"
  using assms by (cases ys) (auto simp: linked_upd butlast_append)

lemma linked_push_back:
  assumes "linked f (H # ys @ [H])" and "b \<noteq> H" and "b \<notin> set ys" "H \<notin> set ys" "distinct ys"
  shows "linked (f(b := H, last (H # ys) := b)) (H # ys @ [b, H])"
proof (cases ys rule: rev_cases)
  case Nil
  then show ?thesis using assms by auto
next
  case (snoc zs z)
  have "linked f (H # zs @ [z])"
    using assms(1) linked_append [of f "H # zs" z "[H]"] snoc by auto
  then show ?thesis
    using assms(2-) snoc linked_append [of "f(b := H, z := b)" "H # zs" z "[b, H]"]
    by (auto simp: linked_upd butlast_append)
qed
end
