(* ===== verification/Param.thy ===== *)
theory Param
  imports Prelude
begin

text \<open>The sizes the kernel is configured with, \<open>src/xv6/param.h\<close>, and the block size of \<open>fs.h\<close>.\<close>

definition NPROC :: nat where "NPROC = 64"

definition KSTACKSIZE :: u32 where "KSTACKSIZE = 4096"

definition NCPU :: nat where "NCPU = 4"

definition NOFILE :: nat where "NOFILE = 16"

definition NFILE :: nat where "NFILE = 100"

definition NINODE :: nat where "NINODE = 50"

definition NDEV :: nat where "NDEV = 10"

definition ROOTDEV :: u32 where "ROOTDEV = 1"

definition MAXARG :: nat where "MAXARG = 32"

definition MAXOPBLOCKS :: nat where "MAXOPBLOCKS = 10"

definition LOGSIZE :: nat where "LOGSIZE = MAXOPBLOCKS * 3"

definition NBUF :: nat where "NBUF = MAXOPBLOCKS * 3"

definition BSIZE :: nat where "BSIZE = 512"

lemmas param_defs = NPROC_def KSTACKSIZE_def NCPU_def NOFILE_def NFILE_def NINODE_def NDEV_def
  ROOTDEV_def MAXARG_def MAXOPBLOCKS_def LOGSIZE_def NBUF_def BSIZE_def

end
