(* ===== verification/Block_Store.thy ===== *)
theory Block_Store
  imports Param
begin

text \<open>
  What the buffer cache promises its clients. The abstract state of the cache is a \<open>bstore\<close>:
  the contents of every block as the cache shows it, the contents on the disk, the blocks
  pinned by \<open>B_DIRTY\<close>, the blocks held by the running process with the buffer they are
  held through, and the writes the disk has seen. The locale \<open>block_cache\<close> states each
  operation as a function on that state; \<open>Bio\<close> shows that \<open>bread\<close>, \<open>bwrite\<close>, \<open>brelse\<close> and the
  assignments to \<open>b->data\<close> satisfy it.
\<close>

record bstore =
  st_view :: "u32 \<Rightarrow> u8 list"
  st_disk :: "u32 \<Rightarrow> u8 list"
  st_size :: u32
  st_dirty :: "u32 set"
  st_held :: "u32 \<Rightarrow> nat option"
  st_writes :: "(u32 \<times> u8 list) list"

definition st_take :: "u32 \<Rightarrow> nat \<Rightarrow> bstore \<Rightarrow> bstore" where
  "st_take blk b a = a\<lparr>st_held := (st_held a)(blk := Some b)\<rparr>"

definition st_drop :: "u32 \<Rightarrow> bstore \<Rightarrow> bstore" where
  "st_drop blk a = a\<lparr>st_held := (st_held a)(blk := None)\<rparr>"

definition st_edit :: "u32 \<Rightarrow> u8 list \<Rightarrow> bstore \<Rightarrow> bstore" where
  "st_edit blk d a = a\<lparr>st_view := (st_view a)(blk := d)\<rparr>"

definition st_write :: "u32 \<Rightarrow> bstore \<Rightarrow> bstore" where
  "st_write blk a = a\<lparr>st_disk := (st_disk a)(blk := st_view a blk), st_dirty := st_dirty a - {blk},
     st_writes := st_writes a @ [(blk, st_view a blk)]\<rparr>"

definition st_pin :: "u32 \<Rightarrow> bstore \<Rightarrow> bstore" where
  "st_pin blk a = a\<lparr>st_dirty := insert blk (st_dirty a)\<rparr>"

text \<open>A block can be read when it exists, is not held already, and a buffer is left for it.\<close>

definition st_readable :: "u32 \<Rightarrow> bstore \<Rightarrow> bool" where
  "st_readable blk a \<longleftrightarrow> blk < st_size a \<and> st_held a blk = None \<and>
     (blk \<in> st_dirty a \<or> card (dom (st_held a) \<union> st_dirty a) < NBUF)"

text \<open>Writing \<open>d\<close> to block \<open>blk\<close> and through to the disk.\<close>

definition st_put :: "u32 \<Rightarrow> u8 list \<Rightarrow> bstore \<Rightarrow> bstore" where
  "st_put blk d a = st_write blk (st_edit blk d a)"

lemmas st_defs = st_take_def st_drop_def st_edit_def st_write_def st_pin_def st_put_def

lemma st_put_fields [simp]:
  "st_view (st_put blk d a) = (st_view a)(blk := d)"
  "st_disk (st_put blk d a) = (st_disk a)(blk := d)"
  "st_size (st_put blk d a) = st_size a"
  "st_dirty (st_put blk d a) = st_dirty a - {blk}"
  "st_held (st_put blk d a) = st_held a"
  "st_writes (st_put blk d a) = st_writes a @ [(blk, d)]"
  by (simp_all add: st_defs)

text \<open>A sequence of writes, on the disk alone and on the store.\<close>

definition apply_writes :: "('a \<times> 'b) list \<Rightarrow> ('a \<Rightarrow> 'b) \<Rightarrow> 'a \<Rightarrow> 'b" where
  "apply_writes ws d = fold (\<lambda>(x, v) d. d(x := v)) ws d"

lemma apply_writes_Nil [simp]: "apply_writes [] d = d"
  by (simp add: apply_writes_def)

lemma apply_writes_Cons [simp]: "apply_writes ((x, v) # ws) d = apply_writes ws (d(x := v))"
  by (simp add: apply_writes_def)

lemma apply_writes_append [simp]: "apply_writes (xs @ ys) d = apply_writes ys (apply_writes xs d)"
  by (simp add: apply_writes_def)

lemma apply_writes_notin: "x \<notin> fst ` set ws \<Longrightarrow> apply_writes ws d x = d x"
  by (induction ws arbitrary: d) auto

lemma apply_writes_in:
  "distinct (map fst ws) \<Longrightarrow> (x, v) \<in> set ws \<Longrightarrow> apply_writes ws d x = v"
proof (induction ws arbitrary: d)
  case (Cons w ws)
  obtain y u where w: "w = (y, u)" by (cases w)
  show ?case
  proof (cases "(x, v) \<in> set ws")
    case False
    then have "x = y" "v = u" using Cons.prems(2) by (auto simp: w)
    then show ?thesis using Cons.prems(1) by (simp add: w apply_writes_notin)
  qed (use Cons w in auto)
qed simp

definition st_puts :: "(u32 \<times> u8 list) list \<Rightarrow> bstore \<Rightarrow> bstore" where
  "st_puts ws a = fold (\<lambda>(blk, d). st_put blk d) ws a"

lemma st_puts_Nil [simp]: "st_puts [] a = a"
  by (simp add: st_puts_def)

lemma st_puts_append: "st_puts (xs @ ys) a = st_puts ys (st_puts xs a)"
  by (simp add: st_puts_def)

lemma st_puts_single [simp]: "st_puts [(blk, d)] a = st_put blk d a"
  by (simp add: st_puts_def)

lemma st_puts_fields [simp]:
  "st_view (st_puts ws a) = apply_writes ws (st_view a)"
  "st_disk (st_puts ws a) = apply_writes ws (st_disk a)"
  "st_size (st_puts ws a) = st_size a"
  "st_dirty (st_puts ws a) = st_dirty a - fst ` set ws"
  "st_held (st_puts ws a) = st_held a"
  "st_writes (st_puts ws a) = st_writes a @ ws"
  by (induction ws arbitrary: a) (auto simp: st_puts_def)

locale block_cache =
  fixes ok :: "'s \<Rightarrow> bool" and abs :: "'s \<Rightarrow> bstore" and rest :: "'s \<Rightarrow> 'r"
    and rd :: "u32 \<Rightarrow> 's \<Rightarrow> (nat \<times> 's) result" and dat :: "'s \<Rightarrow> nat \<Rightarrow> u8 list"
    and edit :: "nat \<Rightarrow> u8 list \<Rightarrow> 's \<Rightarrow> 's" and pin :: "nat \<Rightarrow> 's \<Rightarrow> 's"
    and wr :: "nat \<Rightarrow> 's \<Rightarrow> 's result" and rel :: "nat \<Rightarrow> 's \<Rightarrow> 's result"
  assumes rd: "ok s \<Longrightarrow> st_readable blk (abs s) \<Longrightarrow>
      \<exists>b s'. rd blk s = Inr (b, s') \<and> ok s' \<and> abs s' = st_take blk b (abs s) \<and> rest s' = rest s"
    and dat: "ok s \<Longrightarrow> st_held (abs s) blk = Some b \<Longrightarrow> dat s b = st_view (abs s) blk"
    and len: "ok s \<Longrightarrow> blk < st_size (abs s) \<Longrightarrow> length (st_view (abs s) blk) = BSIZE"
    and clean: "ok s \<Longrightarrow> st_held (abs s) blk = None \<Longrightarrow> blk \<notin> st_dirty (abs s) \<Longrightarrow>
      st_view (abs s) blk = st_disk (abs s) blk"
    and edit: "ok s \<Longrightarrow> st_held (abs s) blk = Some b \<Longrightarrow> length d = BSIZE \<Longrightarrow>
      ok (edit b d s) \<and> abs (edit b d s) = st_edit blk d (abs s) \<and> rest (edit b d s) = rest s"
    and pin: "ok s \<Longrightarrow> st_held (abs s) blk = Some b \<Longrightarrow>
      ok (pin b s) \<and> abs (pin b s) = st_pin blk (abs s) \<and> rest (pin b s) = rest s"
    and wr: "ok s \<Longrightarrow> st_held (abs s) blk = Some b \<Longrightarrow>
      \<exists>s'. wr b s = Inr s' \<and> ok s' \<and> abs s' = st_write blk (abs s) \<and> rest s' = rest s"
    and rel: "ok s \<Longrightarrow> st_held (abs s) blk = Some b \<Longrightarrow>
      blk \<in> st_dirty (abs s) \<or> st_view (abs s) blk = st_disk (abs s) blk \<Longrightarrow>
      \<exists>s'. rel b s = Inr s' \<and> ok s' \<and> abs s' = st_drop blk (abs s) \<and> rest s' = rest s"
begin

text \<open>Reading a block and releasing it again changes nothing.\<close>

lemma read_only:
  assumes "ok s" "st_readable blk (abs s)"
  shows "\<exists>b s1 s'. rd blk s = Inr (b, s1) \<and> dat s1 b = st_view (abs s) blk \<and> rest s1 = rest s \<and>
    rel b s1 = Inr s' \<and> ok s' \<and> abs s' = abs s \<and> rest s' = rest s"
proof -
  from rd [OF assms] obtain b s1 where 1: "rd blk s = Inr (b, s1)" "ok s1"
    "abs s1 = st_take blk b (abs s)" "rest s1 = rest s" by blast
  have h: "st_held (abs s1) blk = Some b" by (simp add: 1 st_take_def)
  have n: "st_held (abs s) blk = None" using assms(2) by (simp add: st_readable_def)
  have "blk \<in> st_dirty (abs s1) \<or> st_view (abs s1) blk = st_disk (abs s1) blk"
    using clean [OF assms(1) n] by (auto simp: 1 st_take_def)
  from rel [OF 1(2) h this] obtain s' where "rel b s1 = Inr s'" "ok s'"
    "abs s' = st_drop blk (abs s1)" "rest s' = rest s1" by blast
  moreover have "st_drop blk (abs s1) = abs s" using n by (simp add: 1 st_take_def st_drop_def fun_upd_idem)
  ultimately show ?thesis using 1 dat [OF 1(2) h] by (auto simp: st_take_def)
qed

text \<open>Reading a block, changing it, writing it through to the disk and releasing it.\<close>

lemma put_rel:
  assumes "ok s" "st_held (abs s) blk = Some b" "length d = BSIZE"
  shows "\<exists>s1 s'. wr b (edit b d s) = Inr s1 \<and> ok s1 \<and> abs s1 = st_put blk d (abs s) \<and> rest s1 = rest s \<and>
    rel b s1 = Inr s' \<and> ok s' \<and> abs s' = st_drop blk (st_put blk d (abs s)) \<and> rest s' = rest s"
proof -
  note e = edit [OF assms]
  from wr [of "edit b d s" blk b] obtain s1 where 1: "wr b (edit b d s) = Inr s1" "ok s1"
    "abs s1 = st_put blk d (abs s)" "rest s1 = rest s"
    using e assms(2) by (auto simp: st_edit_def st_put_def)
  have h: "st_held (abs s1) blk = Some b" by (simp add: 1 assms)
  from rel [OF 1(2) h] show ?thesis using 1 by auto
qed

text \<open>Two blocks read one after the other, and the contents of one copied to the other.\<close>

lemma read2:
  assumes "ok s" "st_held (abs s) = Map.empty" "x \<noteq> y" "st_readable x (abs s)" "y < st_size (abs s)"
    "y \<in> st_dirty (abs s) \<or> card (insert x (st_dirty (abs s))) < NBUF"
  shows "\<exists>b c s1 s2. rd x s = Inr (b, s1) \<and> rd y s1 = Inr (c, s2) \<and> ok s2 \<and>
    abs s2 = st_take y c (st_take x b (abs s)) \<and> rest s2 = rest s"
proof -
  from rd [OF assms(1,4)] obtain b s1 where 1: "rd x s = Inr (b, s1)" "ok s1"
    "abs s1 = st_take x b (abs s)" "rest s1 = rest s" by blast
  have "st_readable y (abs s1)" using assms(2,3,5,6) by (simp add: 1 st_readable_def st_take_def)
  from rd [OF 1(2) this] show ?thesis using 1 by fastforce
qed

lemma copy_rel:
  assumes "ok s" "x \<noteq> y" "st_held (abs s) x = Some b" "st_held (abs s) y = Some c" "y < st_size (abs s)"
    "y \<in> st_dirty (abs s) \<or> st_view (abs s) y = st_disk (abs s) y"
  shows "\<exists>s1 s2 s'. wr b (edit b (dat s c) s) = Inr s1 \<and> rel c s1 = Inr s2 \<and> rel b s2 = Inr s' \<and> ok s' \<and>
    abs s' = st_drop x (st_drop y (st_put x (st_view (abs s) y) (abs s))) \<and> rest s' = rest s"
proof -
  have d: "dat s c = st_view (abs s) y" by (rule dat [OF assms(1,4)])
  have "length (dat s c) = BSIZE" using len [OF assms(1,5)] by (simp add: d)
  from put_rel [OF assms(1,3) this] obtain s1 where 1: "wr b (edit b (dat s c) s) = Inr s1" "ok s1"
    "abs s1 = st_put x (st_view (abs s) y) (abs s)" "rest s1 = rest s" by (auto simp: d)
  from rel [of s1 y c] obtain s2 where 2: "rel c s1 = Inr s2" "ok s2" "abs s2 = st_drop y (abs s1)" "rest s2 = rest s"
    using 1 assms by auto
  from rel [of s2 x b] 2 1 assms show ?thesis by (auto simp: st_drop_def)
qed

lemma copy_first:
  assumes "ok s" "st_held (abs s) = Map.empty" "x \<noteq> y" "st_readable x (abs s)" "y < st_size (abs s)"
    "y \<in> st_dirty (abs s) \<or> card (insert x (st_dirty (abs s))) < NBUF"
  shows "\<exists>s'. andthen (rd x s) (\<lambda>(b, s). andthen (rd y s) (\<lambda>(c, s).
      andthen (wr b (edit b (dat s c) s)) (\<lambda>s. andthen (rel c s) (rel b)))) = Inr s' \<and>
    ok s' \<and> abs s' = st_put x (st_view (abs s) y) (abs s) \<and> rest s' = rest s"
proof -
  from read2 [OF assms] obtain b c s1 s2 where 2: "rd x s = Inr (b, s1)" "rd y s1 = Inr (c, s2)" "ok s2"
    "abs s2 = st_take y c (st_take x b (abs s))" "rest s2 = rest s" by blast
  have "y \<in> st_dirty (abs s2) \<or> st_view (abs s2) y = st_disk (abs s2) y"
    using clean [OF assms(1), of y] assms(2) by (auto simp: 2 st_take_def)
  from copy_rel [OF 2(3) assms(3) _ _ _ this] show ?thesis
    using 2 assms by (fastforce simp: st_defs)
qed

lemma copy_second:
  assumes "ok s" "st_held (abs s) = Map.empty" "y \<noteq> x" "st_readable y (abs s)" "x < st_size (abs s)"
    "x \<in> st_dirty (abs s) \<or> card (insert y (st_dirty (abs s))) < NBUF"
  shows "\<exists>s'. andthen (rd y s) (\<lambda>(c, s). andthen (rd x s) (\<lambda>(b, s).
      andthen (wr b (edit b (dat s c) s)) (\<lambda>s. andthen (rel c s) (rel b)))) = Inr s' \<and>
    ok s' \<and> abs s' = st_put x (st_view (abs s) y) (abs s) \<and> rest s' = rest s"
proof -
  from read2 [OF assms] obtain c b s1 s2 where 2: "rd y s = Inr (c, s1)" "rd x s1 = Inr (b, s2)" "ok s2"
    "abs s2 = st_take x b (st_take y c (abs s))" "rest s2 = rest s" by blast
  have "y \<in> st_dirty (abs s2) \<or> st_view (abs s2) y = st_disk (abs s2) y"
    using clean [OF assms(1), of y] assms(2) by (auto simp: 2 st_take_def)
  from copy_rel [OF 2(3) assms(3)[symmetric] _ _ _ this] show ?thesis
    using 2 assms by (fastforce simp: st_defs st_readable_def)
qed

end

end
