(* ===== verification/Bio.thy ===== *)
theory Bio
  imports Sleeplock Linked Block_Store
begin

text \<open>
  The buffer cache of \<open>src/xv6/bio.c\<close> over the memory disk of \<open>src/xv6/memide.c\<close>.

  A buffer is addressed by a number: \<open>i < NBUF\<close> is \<open>&bcache.buf[i]\<close> and \<open>NBUF\<close> is
  \<open>&bcache.head\<close>, the list head that follows the array in the C struct. The \<open>prev\<close> and \<open>next\<close>
  pointers are such numbers, so the doubly linked LRU list is the pointer structure of the
  source; \<open>lru_list\<close> relates it to the list of buffers it stands for. The spin lock
  \<open>bcache.lock\<close> brackets every access to the list and is left out: each function is one atomic
  section. The disk is a function from block numbers to blocks. The component \<open>bio_writes\<close>
  is a history variable: the sequence of blocks written to the disk so far, which no operation
  reads; it is what a crash in the middle of an operation is stated with.
\<close>

section \<open>State and operations\<close>

definition B_VALID :: u32 where "B_VALID = 0x2"

definition B_DIRTY :: u32 where "B_DIRTY = 0x4"

record buf =
  b_flags :: u32
  b_dev :: u32
  b_blockno :: u32
  b_lock :: sleeplock
  b_refcnt :: u32
  b_prev :: nat
  b_next :: nat
  b_data :: "u8 list"

record bio =
  memdisk :: "u32 \<Rightarrow> u8 list"
  disksize :: u32
  bcache :: "nat \<Rightarrow> buf"
  cur_pid :: int
  bio_writes :: "(u32 \<times> u8 list) list"

abbreviation HEAD :: nat where "HEAD \<equiv> NBUF"

definition upd_buf :: "nat \<Rightarrow> (buf \<Rightarrow> buf) \<Rightarrow> 'z bio_scheme \<Rightarrow> 'z bio_scheme" where
  "upd_buf b f s = s\<lparr>bcache := (bcache s)(b := f (bcache s b))\<rparr>"

text \<open>\<open>ideinit\<close> of the memory disk: the image is the block array, its size in blocks.\<close>

definition ideinit :: "(u32 \<Rightarrow> u8 list) \<Rightarrow> u32 \<Rightarrow> 'z bio_scheme \<Rightarrow> 'z bio_scheme" where
  "ideinit img img_size s = s\<lparr>memdisk := img, disksize := img_size div of_nat BSIZE\<rparr>"

definition iderw :: "nat \<Rightarrow> 'z bio_scheme \<Rightarrow> 'z bio_scheme result" where
  "iderw b s =
    (let bf = bcache s b in
     if \<not> holdingsleep (b_lock bf) then Inl (Panic ''iderw: buf not locked'')
     else if b_flags bf AND (B_VALID OR B_DIRTY) = B_VALID then Inl (Panic ''iderw: nothing to do'')
     else if b_dev bf \<noteq> 1 then Inl (Panic ''iderw: request not for disk 1'')
     else if b_blockno bf \<ge> disksize s then Inl (Panic ''iderw: block out of range'')
     else if b_flags bf AND B_DIRTY \<noteq> 0 then
       Inr (upd_buf b (\<lambda>bf. bf\<lparr>b_flags := (b_flags bf AND NOT B_DIRTY) OR B_VALID\<rparr>)
         (s\<lparr>memdisk := (memdisk s)(b_blockno bf := b_data bf),
            bio_writes := bio_writes s @ [(b_blockno bf, b_data bf)]\<rparr>))
     else
       Inr (upd_buf b
         (\<lambda>bf. bf\<lparr>b_data := memdisk s (b_blockno bf), b_flags := b_flags bf OR B_VALID\<rparr>) s))"

text \<open>The assignments \<open>i->next = v\<close> and \<open>i->prev = v\<close>.\<close>

definition set_next :: "nat \<Rightarrow> nat \<Rightarrow> (nat \<Rightarrow> buf) \<Rightarrow> (nat \<Rightarrow> buf)" where
  "set_next i v c = c(i := (c i)\<lparr>b_next := v\<rparr>)"

definition set_prev :: "nat \<Rightarrow> nat \<Rightarrow> (nat \<Rightarrow> buf) \<Rightarrow> (nat \<Rightarrow> buf)" where
  "set_prev i v c = c(i := (c i)\<lparr>b_prev := v\<rparr>)"

text \<open>One turn of the loop of \<open>binit\<close>: link buffer \<open>b\<close> in right after the head.\<close>

definition binit_step :: "nat \<Rightarrow> (nat \<Rightarrow> buf) \<Rightarrow> (nat \<Rightarrow> buf)" where
  "binit_step b c =
    (let c = set_next b (b_next (c HEAD)) c;
         c = set_prev b HEAD c;
         c = c(b := (c b)\<lparr>b_lock := initsleeplock ''buffer'' (b_lock (c b))\<rparr>);
         c = set_prev (b_next (c HEAD)) b c
     in set_next HEAD b c)"

definition binit :: "'z bio_scheme \<Rightarrow> 'z bio_scheme" where
  "binit s =
    (let c = set_next HEAD HEAD (set_prev HEAD HEAD (bcache s))
     in s\<lparr>bcache := fold binit_step [0..<NBUF] c\<rparr>)"

text \<open>
  The two searches of \<open>bget\<close>: follow \<open>step\<close> from \<open>b\<close> until the head or a buffer that satisfies
  \<open>P\<close>. \<open>None\<close> is a search that never ends, \<open>Some None\<close> one that came back to the head.
\<close>

partial_function (option) bscan ::
  "(buf \<Rightarrow> bool) \<Rightarrow> (buf \<Rightarrow> nat) \<Rightarrow> (nat \<Rightarrow> buf) \<Rightarrow> nat \<Rightarrow> nat option option" where
  "bscan P step c b =
    (if b = HEAD then Some None
     else if P (c b) then Some (Some b)
     else bscan P step c (step (c b)))"

definition acquire_buf :: "nat \<Rightarrow> 'z bio_scheme \<Rightarrow> (nat \<times> 'z bio_scheme) result" where
  "acquire_buf b s =
    andthen (acquiresleep (cur_pid s) (b_lock (bcache s b)))
      (\<lambda>lk. Inr (b, upd_buf b (\<lambda>bf. bf\<lparr>b_lock := lk\<rparr>) s))"

definition bget :: "u32 \<Rightarrow> u32 \<Rightarrow> 'z bio_scheme \<Rightarrow> (nat \<times> 'z bio_scheme) result" where
  "bget dev blockno s =
    (case bscan (\<lambda>bf. b_dev bf = dev \<and> b_blockno bf = blockno) b_next (bcache s)
            (b_next (bcache s HEAD)) of
       None \<Rightarrow> Inl Diverge
     | Some (Some b) \<Rightarrow>
         acquire_buf b (upd_buf b (\<lambda>bf. bf\<lparr>b_refcnt := b_refcnt bf + 1\<rparr>) s)
     | Some None \<Rightarrow>
         (case bscan (\<lambda>bf. b_refcnt bf = 0 \<and> b_flags bf AND B_DIRTY = 0) b_prev (bcache s)
                 (b_prev (bcache s HEAD)) of
            None \<Rightarrow> Inl Diverge
          | Some (Some b) \<Rightarrow>
              acquire_buf b (upd_buf b
                (\<lambda>bf. bf\<lparr>b_dev := dev, b_blockno := blockno, b_flags := 0, b_refcnt := 1\<rparr>) s)
          | Some None \<Rightarrow> Inl (Panic ''bget: no buffers'')))"

definition bread :: "u32 \<Rightarrow> u32 \<Rightarrow> 'z bio_scheme \<Rightarrow> (nat \<times> 'z bio_scheme) result" where
  "bread dev blockno s =
    andthen (bget dev blockno s) (\<lambda>(b, s).
      if b_flags (bcache s b) AND B_VALID = 0 then andthen (iderw b s) (\<lambda>s. Inr (b, s))
      else Inr (b, s))"

definition bwrite :: "nat \<Rightarrow> 'z bio_scheme \<Rightarrow> 'z bio_scheme result" where
  "bwrite b s =
    (if \<not> holdingsleep (b_lock (bcache s b)) then Inl (Panic ''bwrite'')
     else iderw b (upd_buf b (\<lambda>bf. bf\<lparr>b_flags := b_flags bf OR B_DIRTY\<rparr>) s))"

text \<open>Unlink \<open>b\<close> and link it in at the front: the six assignments of \<open>brelse\<close>, in order.\<close>

definition move_to_front :: "nat \<Rightarrow> (nat \<Rightarrow> buf) \<Rightarrow> (nat \<Rightarrow> buf)" where
  "move_to_front b c =
    (let c = set_prev (b_next (c b)) (b_prev (c b)) c;
         c = set_next (b_prev (c b)) (b_next (c b)) c;
         c = set_next b (b_next (c HEAD)) c;
         c = set_prev b HEAD c;
         c = set_prev (b_next (c HEAD)) b c
     in set_next HEAD b c)"

definition brelse :: "nat \<Rightarrow> 'z bio_scheme \<Rightarrow> 'z bio_scheme result" where
  "brelse b s =
    (if \<not> holdingsleep (b_lock (bcache s b)) then Inl (Panic ''brelse'')
     else
       let s = upd_buf b (\<lambda>bf. bf\<lparr>b_lock := releasesleep (b_lock bf)\<rparr>) s;
           s = upd_buf b (\<lambda>bf. bf\<lparr>b_refcnt := b_refcnt bf - 1\<rparr>) s
       in if b_refcnt (bcache s b) = 0 then Inr (s\<lparr>bcache := move_to_front b (bcache s)\<rparr>)
          else Inr s)"

text \<open>The assignments \<open>b->data[...] = ...\<close> of the cache's clients.\<close>

definition set_data :: "nat \<Rightarrow> u8 list \<Rightarrow> 'z bio_scheme \<Rightarrow> 'z bio_scheme" where
  "set_data b d s = upd_buf b (\<lambda>bf. bf\<lparr>b_data := d\<rparr>) s"

abbreviation bdata :: "'z bio_scheme \<Rightarrow> nat \<Rightarrow> u8 list" where
  "bdata s b \<equiv> b_data (bcache s b)"

section \<open>The LRU list\<close>

definition lru_list :: "(nat \<Rightarrow> buf) \<Rightarrow> nat list \<Rightarrow> bool" where
  "lru_list c xs \<longleftrightarrow>
     distinct xs \<and> HEAD \<notin> set xs \<and>
     linked (\<lambda>b. b_next (c b)) (HEAD # xs @ [HEAD]) \<and>
     linked (\<lambda>b. b_prev (c b)) (HEAD # rev xs @ [HEAD])"

lemma set_next_fields [simp]:
  "b_next (set_next i v c j) = (if j = i then v else b_next (c j))"
  "b_prev (set_next i v c j) = b_prev (c j)"
  "b_flags (set_next i v c j) = b_flags (c j)"
  "b_dev (set_next i v c j) = b_dev (c j)"
  "b_blockno (set_next i v c j) = b_blockno (c j)"
  "b_lock (set_next i v c j) = b_lock (c j)"
  "b_refcnt (set_next i v c j) = b_refcnt (c j)"
  "b_data (set_next i v c j) = b_data (c j)"
  by (simp_all add: set_next_def)

lemma set_prev_fields [simp]:
  "b_prev (set_prev i v c j) = (if j = i then v else b_prev (c j))"
  "b_next (set_prev i v c j) = b_next (c j)"
  "b_flags (set_prev i v c j) = b_flags (c j)"
  "b_dev (set_prev i v c j) = b_dev (c j)"
  "b_blockno (set_prev i v c j) = b_blockno (c j)"
  "b_lock (set_prev i v c j) = b_lock (c j)"
  "b_refcnt (set_prev i v c j) = b_refcnt (c j)"
  "b_data (set_prev i v c j) = b_data (c j)"
  by (simp_all add: set_prev_def)

lemma move_to_front_next:
  assumes "b \<noteq> HEAD" and "b_next (c b) \<noteq> b" and "b_prev (c b) \<noteq> b"
  shows "(\<lambda>i. b_next (move_to_front b c i)) =
    (let f = (\<lambda>i. b_next (c i))(b_prev (c b) := b_next (c b)) in f(b := f HEAD, HEAD := b))"
  using assms by (auto simp: move_to_front_def Let_def fun_eq_iff)

lemma move_to_front_prev:
  assumes "b \<noteq> HEAD" and "b_next (c b) \<noteq> b" and "b_prev (c b) \<noteq> b" and "b_next (c HEAD) \<noteq> b \<or> b_prev (c b) = HEAD"
  shows "(\<lambda>i. b_prev (move_to_front b c i)) =
    ((\<lambda>i. b_prev (c i))(b_next (c b) := b_prev (c b)))
      (b := HEAD, (if b_prev (c b) = HEAD then b_next (c b) else b_next (c HEAD)) := b)"
  using assms by (auto simp: move_to_front_def Let_def fun_eq_iff)

lemma move_to_front_fields [simp]:
  "b_flags (move_to_front b c i) = b_flags (c i)"
  "b_dev (move_to_front b c i) = b_dev (c i)"
  "b_blockno (move_to_front b c i) = b_blockno (c i)"
  "b_lock (move_to_front b c i) = b_lock (c i)"
  "b_refcnt (move_to_front b c i) = b_refcnt (c i)"
  "b_data (move_to_front b c i) = b_data (c i)"
  by (simp_all add: move_to_front_def Let_def)

lemma lru_list_split:
  assumes "lru_list c (as @ b # bs)"
  shows "b_prev (c b) = last (HEAD # as)" and "b_next (c b) = hd (bs @ [HEAD])"
    and "b_next (c HEAD) = hd (as @ [b])"
proof -
  have n: "linked (\<lambda>b. b_next (c b)) ((HEAD # as) @ b # bs @ [HEAD])"
    and p: "linked (\<lambda>b. b_prev (c b)) ((HEAD # rev bs) @ b # rev as @ [HEAD])"
    using assms by (simp_all add: lru_list_def)
  show "b_next (c b) = hd (bs @ [HEAD])"
    using n linked_append [of "\<lambda>b. b_next (c b)" "HEAD # as" b "bs @ [HEAD]"] by (cases bs) auto
  show "b_prev (c b) = last (HEAD # as)"
    using p linked_append [of "\<lambda>b. b_prev (c b)" "HEAD # rev bs" b "rev as @ [HEAD]"]
    by (cases as rule: rev_cases) auto
  show "b_next (c HEAD) = hd (as @ [b])"
    using n by (cases as) auto
qed

lemma lru_list_move_to_front:
  assumes "lru_list c (as @ b # bs)"
  shows "lru_list (move_to_front b c) (b # as @ bs)"
proof -
  let ?nx = "\<lambda>b. b_next (c b)" and ?pv = "\<lambda>b. b_prev (c b)"
  note ptrs = lru_list_split [OF assms]
  have dist: "distinct (as @ b # bs)" and H: "HEAD \<notin> set (as @ b # bs)"
    and n: "linked ?nx (HEAD # as @ b # bs @ [HEAD])"
    and p: "linked ?pv (HEAD # rev bs @ b # rev as @ [HEAD])"
    using assms by (simp_all add: lru_list_def)
  have b: "b \<noteq> HEAD" using H by auto
  have "b_next (c b) \<in> set (bs @ [HEAD])" unfolding ptrs by (rule hd_in_set) simp
  then have np1: "b_next (c b) \<noteq> b" using dist H by auto
  have "b_prev (c b) \<in> set (HEAD # as)" unfolding ptrs by (rule last_in_set) simp
  then have np2: "b_prev (c b) \<noteq> b" using dist H by auto
  define f where "f = ?nx(last (HEAD # as) := hd (bs @ [HEAD]))"
  have f: "linked f (HEAD # as @ bs @ [HEAD])"
    unfolding f_def by (rule linked_unlink [OF n dist H])
  have fH: "f HEAD = hd ((as @ bs) @ [HEAD])"
    using f by (cases as; cases bs) auto
  have nx': "linked (f(b := f HEAD, HEAD := b)) (HEAD # b # (as @ bs) @ [HEAD])"
    unfolding fH by (rule linked_push_front) (use f b dist H in auto)
  define g where "g = ?pv(last (HEAD # rev bs) := hd (rev as @ [HEAD]))"
  have g: "linked g (HEAD # rev (as @ bs) @ [HEAD])"
  proof -
    have "distinct (rev bs @ b # rev as)" and "HEAD \<notin> set (rev bs @ b # rev as)"
      using dist H by auto
    from linked_unlink [OF p this] show ?thesis by (simp only: g_def rev_append append_assoc)
  qed
  have pv': "linked (g(b := HEAD, last (HEAD # rev (as @ bs)) := b)) (HEAD # rev (as @ bs) @ [b, HEAD])"
    by (rule linked_push_back) (use g b dist H in auto)
  have hN: "last (HEAD # rev bs) = hd (bs @ [HEAD])" "hd (rev as @ [HEAD]) = last (HEAD # as)"
    by (cases bs; simp) (cases as rule: rev_cases; simp)
  have hA: "(if b_prev (c b) = HEAD then b_next (c b) else b_next (c HEAD)) = last (HEAD # rev (as @ bs))"
  proof (cases as)
    case Nil
    then show ?thesis using ptrs by (cases bs) auto
  next
    case (Cons a as')
    then have "b_prev (c b) \<noteq> HEAD" using ptrs H last_in_set [of as] by auto
    then show ?thesis using ptrs Cons by simp
  qed
  have "(\<lambda>i. b_next (move_to_front b c i)) = f(b := f HEAD, HEAD := b)"
    using move_to_front_next [of b c] b np1 np2 by (simp add: f_def ptrs Let_def)
  moreover have "b_next (c HEAD) \<noteq> b \<or> b_prev (c b) = HEAD"
    using ptrs dist by (cases as) auto
  then have "(\<lambda>i. b_prev (move_to_front b c i)) =
      (?pv(b_next (c b) := b_prev (c b)))
        (b := HEAD, (if b_prev (c b) = HEAD then b_next (c b) else b_next (c HEAD)) := b)"
    by (intro move_to_front_prev b np1 np2)
  then have "(\<lambda>i. b_prev (move_to_front b c i)) = g(b := HEAD, last (HEAD # rev (as @ bs)) := b)"
    unfolding hA by (simp only: g_def hN ptrs(1,2))
  ultimately show ?thesis
    using nx' pv' dist H b unfolding lru_list_def by auto
qed

lemma and_B_VALID: "x AND B_VALID = 0 \<longleftrightarrow> \<not> bit x 1"
  using and_exp_eq_0_iff_not_bit [of x 1] by (simp add: B_VALID_def)
lemma and_B_DIRTY: "x AND B_DIRTY = 0 \<longleftrightarrow> \<not> bit x 2"
  using and_exp_eq_0_iff_not_bit [of x 2] by (simp add: B_DIRTY_def)
lemma bit_flag_consts: "bit B_VALID n \<longleftrightarrow> n = 1" "bit B_DIRTY n \<longleftrightarrow> n = 2"
  using bit_exp_iff [where 'a = u32, of 1 n] bit_exp_iff [where 'a = u32, of 2 n]
  by (auto simp: B_VALID_def B_DIRTY_def)
lemma and_flags: "x AND (B_VALID OR B_DIRTY) = B_VALID \<longleftrightarrow> bit x 1 \<and> \<not> bit x 2"
proof
  assume eq: "x AND (B_VALID OR B_DIRTY) = B_VALID"
  have "bit (x AND (B_VALID OR B_DIRTY)) 1" and "\<not> bit (x AND (B_VALID OR B_DIRTY)) 2"
    unfolding eq by (simp_all add: bit_flag_consts)
  then show "bit x 1 \<and> \<not> bit x 2" by (simp_all add: bit_simps bit_flag_consts)
next
  assume "bit x 1 \<and> \<not> bit x 2"
  then show "x AND (B_VALID OR B_DIRTY) = B_VALID"
    by (intro bit_word_eqI) (auto simp: bit_simps bit_flag_consts)
qed

lemma bscan_linked:
  assumes "linked (\<lambda>b. step (c b)) (xs @ [HEAD])" and "HEAD \<notin> set xs"
  shows "bscan P step c (hd (xs @ [HEAD])) = Some (find (\<lambda>b. P (c b)) xs)"
  using assms
proof (induction xs)
  case Nil
  then show ?case by (simp add: bscan.simps)
next
  case (Cons x xs)
  then have "step (c x) = hd (xs @ [HEAD])" by (cases xs) auto
  moreover have "linked (\<lambda>b. step (c b)) (xs @ [HEAD])" using Cons by (cases xs) auto
  ultimately show ?case using Cons by (simp add: bscan.simps [of P step c x])
qed

lemma lru_list_binit_step:
  assumes "lru_list c ys" and "b \<notin> set ys" and "b \<noteq> HEAD"
  shows "lru_list (binit_step b c) (b # ys)"
proof -
  let ?nx = "\<lambda>b. b_next (c b)" and ?pv = "\<lambda>b. b_prev (c b)"
  have d: "distinct ys" "HEAD \<notin> set ys" and n: "linked ?nx (HEAD # ys @ [HEAD])"
    and p: "linked ?pv (HEAD # rev ys @ [HEAD])"
    using assms(1) by (simp_all add: lru_list_def)
  have h: "b_next (c HEAD) = hd (ys @ [HEAD])" using n by (cases ys) auto
  have hl: "hd (ys @ [HEAD]) = last (HEAD # rev ys)" by (cases ys) auto
  have "hd (ys @ [HEAD]) \<in> set (ys @ [HEAD])" by (rule hd_in_set) simp
  then have hb: "hd (ys @ [HEAD]) \<noteq> b" using assms by auto
  have "(\<lambda>i. b_next (binit_step b c i)) = ?nx(b := hd (ys @ [HEAD]), HEAD := b)"
    using assms(3) hb by (auto simp: binit_step_def Let_def h fun_eq_iff)
  moreover have "(\<lambda>i. b_prev (binit_step b c i)) = ?pv(b := HEAD, last (HEAD # rev ys) := b)"
    using assms(3) hb by (auto simp: binit_step_def Let_def h last_rev fun_eq_iff)
  moreover have "linked (?nx(b := hd (ys @ [HEAD]), HEAD := b)) (HEAD # b # ys @ [HEAD])"
    by (rule linked_push_front) (use assms d n in auto)
  moreover have "linked (?pv(b := HEAD, last (HEAD # rev ys) := b)) (HEAD # rev ys @ [b, HEAD])"
    by (rule linked_push_back) (use assms d p in auto)
  ultimately show ?thesis using d assms by (simp add: lru_list_def)
qed

lemma lru_list_binit_fold:
  assumes "k \<le> NBUF"
  shows "lru_list (fold binit_step [0..<k] (set_next HEAD HEAD (set_prev HEAD HEAD c))) (rev [0..<k])"
  using assms
proof (induction k)
  case 0
  then show ?case by (simp add: lru_list_def)
next
  case (Suc k)
  then show ?case using lru_list_binit_step [where b = k] by auto
qed

lemma lru_list_binit: "lru_list (bcache (binit s)) (rev [0..<NBUF])"
  using lru_list_binit_fold [of NBUF "bcache s"] by (simp add: binit_def)
section \<open>What the cache promises\<close>

definition is_valid :: "buf \<Rightarrow> bool" where
  "is_valid bf \<longleftrightarrow> b_flags bf AND B_VALID \<noteq> 0"

definition is_dirty :: "buf \<Rightarrow> bool" where
  "is_dirty bf \<longleftrightarrow> b_flags bf AND B_DIRTY \<noteq> 0"

abbreviation is_locked :: "buf \<Rightarrow> bool" where
  "is_locked bf \<equiv> sl_locked (b_lock bf)"

definition buf_ok :: "'z bio_scheme \<Rightarrow> buf \<Rightarrow> bool" where
  "buf_ok s bf \<longleftrightarrow>
     b_refcnt bf = (if is_locked bf then 1 else 0) \<and>
     (is_locked bf \<longrightarrow> is_valid bf) \<and> (is_dirty bf \<longrightarrow> is_valid bf) \<and>
     (is_valid bf \<longrightarrow> b_dev bf = 1 \<and> b_blockno bf < disksize s \<and> length (b_data bf) = BSIZE) \<and>
     (is_valid bf \<and> \<not> is_dirty bf \<and> \<not> is_locked bf \<longrightarrow> b_data bf = memdisk s (b_blockno bf))"

definition cache_ok :: "'z bio_scheme \<Rightarrow> bool" where
  "cache_ok s \<longleftrightarrow>
     (\<exists>xs. lru_list (bcache s) xs \<and> set xs = {..<NBUF}) \<and>
     (\<forall>i < NBUF. \<forall>j < NBUF. b_dev (bcache s i) = b_dev (bcache s j) \<longrightarrow>
        b_blockno (bcache s i) = b_blockno (bcache s j) \<longrightarrow> b_dev (bcache s i) \<noteq> 0 \<longrightarrow> i = j) \<and>
     (\<forall>i < NBUF. buf_ok s (bcache s i)) \<and>
     (\<forall>blk. length (memdisk s blk) = BSIZE)"

text \<open>The buffer through which a block is held: locked by the running process.\<close>

definition held :: "'z bio_scheme \<Rightarrow> u32 \<Rightarrow> nat option" where
  "held s blk =
     find (\<lambda>i. is_locked (bcache s i) \<and> b_blockno (bcache s i) = blk) [0..<NBUF]"

definition dirty :: "'z bio_scheme \<Rightarrow> u32 set" where
  "dirty s = {blk. \<exists>i < NBUF. is_dirty (bcache s i) \<and> b_blockno (bcache s i) = blk}"

definition cached :: "'z bio_scheme \<Rightarrow> u32 \<Rightarrow> nat option" where
  "cached s blk =
     find (\<lambda>i. is_valid (bcache s i) \<and> b_blockno (bcache s i) = blk) [0..<NBUF]"

text \<open>The contents of a block as the cache shows it.\<close>

definition bview :: "'z bio_scheme \<Rightarrow> u32 \<Rightarrow> u8 list" where
  "bview s blk = (case cached s blk of Some i \<Rightarrow> bdata s i | None \<Rightarrow> memdisk s blk)"

lemma cached_None: "cached s blk = None \<longleftrightarrow>
    (\<forall>i < NBUF. is_valid (bcache s i) \<longrightarrow> b_blockno (bcache s i) \<noteq> blk)"
  by (auto simp: cached_def find_None_iff)

lemma cached_Some:
  assumes "cache_ok s"
  shows "cached s blk = Some i \<longleftrightarrow>
    i < NBUF \<and> is_valid (bcache s i) \<and> b_blockno (bcache s i) = blk"
proof
  assume "cached s blk = Some i"
  then show "i < NBUF \<and> is_valid (bcache s i) \<and> b_blockno (bcache s i) = blk"
    by (auto simp: cached_def find_Some_iff)
next
  assume i: "i < NBUF \<and> is_valid (bcache s i) \<and> b_blockno (bcache s i) = blk"
  then obtain j where j: "cached s blk = Some j" by (cases "cached s blk") (auto simp: cached_None)
  then have "j < NBUF \<and> is_valid (bcache s j) \<and> b_blockno (bcache s j) = blk"
    by (auto simp: cached_def find_Some_iff)
  with i assms have "i = j" by (auto simp: cache_ok_def buf_ok_def)
  with j show "cached s blk = Some i" by simp
qed

lemma bview_cached:
  "cache_ok s \<Longrightarrow> i < NBUF \<Longrightarrow> is_valid (bcache s i) \<Longrightarrow> bview s (b_blockno (bcache s i)) = bdata s i"
  using cached_Some [of s "b_blockno (bcache s i)" i] by (simp add: bview_def)

lemma bview_uncached:
  "(\<And>i. i < NBUF \<Longrightarrow> is_valid (bcache s i) \<Longrightarrow> b_blockno (bcache s i) \<noteq> blk) \<Longrightarrow>
   bview s blk = memdisk s blk"
  using cached_None [of s blk] by (auto simp: bview_def)

lemma held_None: "held s blk = None \<longleftrightarrow>
    (\<forall>i < NBUF. is_locked (bcache s i) \<longrightarrow> b_blockno (bcache s i) \<noteq> blk)"
  by (auto simp: held_def find_None_iff)

lemma held_Some:
  assumes "cache_ok s"
  shows "held s blk = Some i \<longleftrightarrow>
    i < NBUF \<and> is_locked (bcache s i) \<and> b_blockno (bcache s i) = blk"
proof
  assume "held s blk = Some i"
  then show "i < NBUF \<and> is_locked (bcache s i) \<and> b_blockno (bcache s i) = blk"
    by (auto simp: held_def find_Some_iff)
next
  assume i: "i < NBUF \<and> is_locked (bcache s i) \<and> b_blockno (bcache s i) = blk"
  then obtain j where j: "held s blk = Some j" by (cases "held s blk") (auto simp: held_None)
  then have "j < NBUF \<and> is_locked (bcache s j) \<and> b_blockno (bcache s j) = blk"
    by (auto simp: held_def find_Some_iff)
  with i assms have "i = j" by (auto simp: cache_ok_def buf_ok_def)
  with j show "held s blk = Some i" by simp
qed

lemma held_data: "cache_ok s \<Longrightarrow> held s blk = Some b \<Longrightarrow> bdata s b = bview s blk"
  using bview_cached [of s b] by (auto simp: held_Some cache_ok_def buf_ok_def)

text \<open>
  The state after a buffer was replaced in place: what has to be checked to keep the
  invariant, and what the state then shows.
\<close>

lemma lru_list_same_links:
  assumes "lru_list c xs" and "\<And>i. b_next (c' i) = b_next (c i)" and "\<And>i. b_prev (c' i) = b_prev (c i)"
  shows "lru_list c' xs"
  using assms by (simp add: lru_list_def)

lemma cache_ok_replace:
  assumes ok: "cache_ok s" and b: "b < NBUF"
    and links: "b_next bf = b_next (bcache s b)" "b_prev bf = b_prev (bcache s b)"
    and key: "\<And>i. b_dev bf \<noteq> 0 \<Longrightarrow> i < NBUF \<Longrightarrow> i \<noteq> b \<Longrightarrow> b_dev (bcache s i) = b_dev bf \<Longrightarrow>
      b_blockno (bcache s i) \<noteq> b_blockno bf"
    and bf: "buf_ok s' bf"
    and s': "bcache s' = (bcache s)(b := bf)" "disksize s' = disksize s"
    and d: "\<And>blk. length (memdisk s' blk) = BSIZE"
    and others: "\<And>i. i < NBUF \<Longrightarrow> i \<noteq> b \<Longrightarrow> is_valid (bcache s i) \<Longrightarrow>
      memdisk s' (b_blockno (bcache s i)) = memdisk s (b_blockno (bcache s i))"
  shows "cache_ok s'"
proof -
  obtain xs where xs: "lru_list (bcache s) xs" "set xs = {..<NBUF}"
    using ok by (auto simp: cache_ok_def)
  have "lru_list (bcache s') xs"
    using links by (intro lru_list_same_links [OF xs(1)]) (auto simp: s')
  moreover have "buf_ok s' (bcache s' i)" if "i < NBUF" for i
  proof (cases "i = b")
    case True
    then show ?thesis using bf by (simp add: s')
  next
    case False
    then have "buf_ok s (bcache s i)" using ok that by (auto simp: cache_ok_def)
    then show ?thesis using False others [OF that False] s'(2) by (auto simp: s'(1) buf_ok_def)
  qed
  moreover have "i = j" if "i < NBUF" "j < NBUF" "b_dev (bcache s' i) = b_dev (bcache s' j)"
     "b_blockno (bcache s' i) = b_blockno (bcache s' j)" "b_dev (bcache s' i) \<noteq> 0" for i j
  proof -
    have e: "bcache s' b = bf" "\<And>k. k \<noteq> b \<Longrightarrow> bcache s' k = bcache s k" by (simp_all add: s')
    consider "i = b" "j = b" | "i = b" "j \<noteq> b" | "i \<noteq> b" "j = b" | "i \<noteq> b" "j \<noteq> b" by blast
    then show ?thesis
    proof cases
      case 2
      with that key [of j] e show ?thesis by metis
    next
      case 3
      with that key [of i] e show ?thesis by metis
    next
      case 4
      with that ok e show ?thesis unfolding cache_ok_def by metis
    qed simp
  qed
  ultimately show ?thesis
    using xs(2) d by (auto simp: cache_ok_def)
qed

lemma bget_searches:
  assumes "cache_ok s"
  obtains xs where "set xs = {..<NBUF}"
    and "bscan P b_next (bcache s) (b_next (bcache s HEAD)) = Some (find (\<lambda>b. P (bcache s b)) xs)"
    and "bscan Q b_prev (bcache s) (b_prev (bcache s HEAD)) = Some (find (\<lambda>b. Q (bcache s b)) (rev xs))"
proof -
  obtain xs where xs: "lru_list (bcache s) xs" "set xs = {..<NBUF}"
    using assms by (auto simp: cache_ok_def)
  then have l: "linked (\<lambda>b. b_next (bcache s b)) (HEAD # xs @ [HEAD])"
      "linked (\<lambda>b. b_prev (bcache s b)) (HEAD # rev xs @ [HEAD])" "HEAD \<notin> set xs"
    by (auto simp: lru_list_def)
  have "b_next (bcache s HEAD) = hd (xs @ [HEAD])" "linked (\<lambda>b. b_next (bcache s b)) (xs @ [HEAD])"
    using l(1) by (cases xs; simp)+
  moreover have "b_prev (bcache s HEAD) = hd (rev xs @ [HEAD])" "linked (\<lambda>b. b_prev (bcache s b)) (rev xs @ [HEAD])"
    using l(2) by (cases "rev xs"; simp)+
  ultimately show ?thesis
    using that [OF xs(2)] bscan_linked [of b_next "bcache s" xs P] bscan_linked [of b_prev "bcache s" "rev xs" Q] l(3)
    by simp
qed

definition bread_result :: "'z bio_scheme \<Rightarrow> u32 \<Rightarrow> nat \<Rightarrow> buf \<Rightarrow> bool" where
  "bread_result s blk b bf \<longleftrightarrow>
     b < NBUF \<and> \<not> is_locked (bcache s b) \<and>
     b_next bf = b_next (bcache s b) \<and> b_prev bf = b_prev (bcache s b) \<and>
     is_locked bf \<and> b_refcnt bf = 1 \<and> b_dev bf = 1 \<and> b_blockno bf = blk \<and> is_valid bf \<and>
     b_data bf = bview s blk \<and> is_dirty bf = is_dirty (bcache s b) \<and>
     (is_dirty (bcache s b) \<longrightarrow> b_blockno (bcache s b) = blk) \<and>
     (\<forall>i < NBUF. i \<noteq> b \<longrightarrow> b_dev (bcache s i) = 1 \<longrightarrow> b_blockno (bcache s i) \<noteq> blk)"

lemma flag_consts [simp]: "B_VALID \<noteq> 0" "B_DIRTY \<noteq> 0" "0 \<noteq> B_VALID" "0 \<noteq> B_DIRTY" "B_VALID AND B_DIRTY = 0"
  by (simp_all add: B_VALID_def B_DIRTY_def)

lemmas flag_simps = is_valid_def is_dirty_def and_B_VALID and_B_DIRTY and_flags bit_simps bit_flag_consts

lemma bread_spec:
  assumes ok: "cache_ok s" and blk: "blk < disksize s" "held s blk = None"
    and room: "(\<exists>i < NBUF. \<not> is_locked (bcache s i) \<and> \<not> is_dirty (bcache s i)) \<or>
      (\<exists>i < NBUF. is_valid (bcache s i) \<and> b_blockno (bcache s i) = blk)"
  shows "\<exists>b bf. bread 1 blk s = Inr (b, s\<lparr>bcache := (bcache s)(b := bf)\<rparr>) \<and> bread_result s blk b bf"
proof -
  have bufs: "\<And>i. i < NBUF \<Longrightarrow> buf_ok s (bcache s i)" using ok by (simp add: cache_ok_def)
  obtain xs where xs: "set xs = {..<NBUF}"
    and s1: "bscan (\<lambda>bf. b_dev bf = 1 \<and> b_blockno bf = blk) b_next (bcache s) (b_next (bcache s HEAD)) =
        Some (find (\<lambda>b. b_dev (bcache s b) = 1 \<and> b_blockno (bcache s b) = blk) xs)"
    and s2: "bscan (\<lambda>bf. b_refcnt bf = 0 \<and> b_flags bf AND B_DIRTY = 0) b_prev (bcache s)
        (b_prev (bcache s HEAD)) =
        Some (find (\<lambda>b. b_refcnt (bcache s b) = 0 \<and> b_flags (bcache s b) AND B_DIRTY = 0) (rev xs))"
    by (rule bget_searches [OF ok])
  show ?thesis
  proof (cases "find (\<lambda>b. b_dev (bcache s b) = 1 \<and> b_blockno (bcache s b) = blk) xs")
    case (Some b)
    then have b: "b < NBUF" "b_dev (bcache s b) = 1" "b_blockno (bcache s b) = blk"
      using xs by (auto dest!: find_SomeD)
    then have nl: "\<not> is_locked (bcache s b)" using blk(2) by (auto simp: held_None)
    have uniq: "\<forall>i < NBUF. i \<noteq> b \<longrightarrow> b_dev (bcache s i) = 1 \<longrightarrow> b_blockno (bcache s i) \<noteq> blk"
      using ok b by (auto simp: cache_ok_def)
    have rc: "b_refcnt (bcache s b) = 0" using bufs [OF b(1)] nl by (simp add: buf_ok_def)
    show ?thesis
    proof (cases "is_valid (bcache s b)")
      case True
      have v: "bview s blk = bdata s b" using bview_cached [OF ok b(1) True] b by simp
      let ?bf = "(bcache s b)\<lparr>b_refcnt := 1,
        b_lock := (b_lock (bcache s b))\<lparr>sl_locked := True, sl_pid := cur_pid s\<rparr>\<rparr>"
      have "bread 1 blk s = Inr (b, s\<lparr>bcache := (bcache s)(b := ?bf)\<rparr>)"
        using nl True rc by (simp add: bread_def bget_def s1 Some acquire_buf_def upd_buf_def
            sleeplock_defs is_valid_def)
      moreover have "bread_result s blk b ?bf"
        using b nl True v uniq by (simp add: bread_result_def is_valid_def is_dirty_def)
      ultimately show ?thesis by blast
    next
      case False
      then have v: "bview s blk = memdisk s blk"
        using b uniq bufs by (intro bview_uncached) (auto simp: buf_ok_def)
      have nd: "\<not> is_dirty (bcache s b)" using bufs [OF b(1)] False by (auto simp: buf_ok_def)
      let ?bf = "(bcache s b)\<lparr>b_refcnt := 1,
        b_lock := (b_lock (bcache s b))\<lparr>sl_locked := True, sl_pid := cur_pid s\<rparr>,
        b_data := memdisk s blk, b_flags := b_flags (bcache s b) OR B_VALID\<rparr>"
      have "bread 1 blk s = Inr (b, s\<lparr>bcache := (bcache s)(b := ?bf)\<rparr>)"
        using nl False nd rc b blk by (simp add: bread_def bget_def s1 Some acquire_buf_def upd_buf_def
            sleeplock_defs iderw_def Let_def not_le flag_simps)
      moreover have "bread_result s blk b ?bf"
        using b nl False nd v uniq by (simp add: bread_result_def flag_simps)
      ultimately show ?thesis by blast
    qed
  next
    case None
    then have none: "\<forall>i < NBUF. b_dev (bcache s i) = 1 \<longrightarrow> b_blockno (bcache s i) \<noteq> blk"
      using xs by (auto simp: find_None_iff)
    then have v: "bview s blk = memdisk s blk"
      using bufs by (intro bview_uncached) (auto simp: buf_ok_def)
    have "\<not> (\<exists>i < NBUF. is_valid (bcache s i) \<and> b_blockno (bcache s i) = blk)"
      using none bufs by (auto simp: buf_ok_def)
    with room obtain i where i: "i < NBUF" "\<not> is_locked (bcache s i)" "\<not> is_dirty (bcache s i)" by blast
    then have "b_refcnt (bcache s i) = 0" using bufs by (auto simp: buf_ok_def)
    then have "\<exists>b. find (\<lambda>b. b_refcnt (bcache s b) = 0 \<and> b_flags (bcache s b) AND B_DIRTY = 0)
        (rev xs) = Some b"
      using i xs by (intro find_exists [of i]) (simp_all add: is_dirty_def)
    then obtain b where fb:
        "find (\<lambda>b. b_refcnt (bcache s b) = 0 \<and> b_flags (bcache s b) AND B_DIRTY = 0) (rev xs) = Some b" ..
    from find_SomeD [OF fb] have b: "b < NBUF" "b_refcnt (bcache s b) = 0" "\<not> is_dirty (bcache s b)"
      by (simp_all add: is_dirty_def xs)
    then have nl: "\<not> is_locked (bcache s b)" using bufs [OF b(1)] by (auto simp: buf_ok_def)
    let ?bf = "(bcache s b)\<lparr>b_dev := 1, b_blockno := blk, b_refcnt := 1,
        b_lock := (b_lock (bcache s b))\<lparr>sl_locked := True, sl_pid := cur_pid s\<rparr>,
        b_data := memdisk s blk, b_flags := B_VALID\<rparr>"
    have "bread 1 blk s = Inr (b, s\<lparr>bcache := (bcache s)(b := ?bf)\<rparr>)"
      using nl b blk by (simp add: bread_def bget_def s1 s2 None fb acquire_buf_def upd_buf_def
          sleeplock_defs iderw_def Let_def not_le)
    moreover have "bread_result s blk b ?bf"
      using b nl v none by (simp add: bread_result_def is_valid_def is_dirty_def)
    ultimately show ?thesis by blast
  qed
qed


section \<open>The cache as a block store\<close>

definition babs :: "'z bio_scheme \<Rightarrow> bstore" where
  "babs s = \<lparr>st_view = bview s, st_disk = memdisk s, st_size = disksize s, st_dirty = dirty s,
     st_held = held s, st_writes = bio_writes s\<rparr>"

definition brest :: "'z bio_scheme \<Rightarrow> int \<times> 'z" where
  "brest s = (cur_pid s, bio.more s)"

lemma cache_room:
  assumes ok: "cache_ok s" and c: "card (dom (held s) \<union> dirty s) < NBUF"
  shows "\<exists>i < NBUF. \<not> is_locked (bcache s i) \<and> \<not> is_dirty (bcache s i)"
proof (rule ccontr)
  assume "\<not> ?thesis"
  then have all: "\<And>i. i < NBUF \<Longrightarrow> is_locked (bcache s i) \<or> is_dirty (bcache s i)" by blast
  let ?f = "\<lambda>i. b_blockno (bcache s i)"
  have v: "b_dev (bcache s i) = 1" if "i < NBUF" for i
    using all [OF that] ok that by (auto simp: cache_ok_def buf_ok_def)
  have "inj_on ?f {..<NBUF}"
    using ok v by (auto simp: inj_on_def cache_ok_def)
  then have "card (?f ` {..<NBUF}) = NBUF" by (simp add: card_image)
  moreover have "?f ` {..<NBUF} \<subseteq> dom (held s) \<union> dirty s"
    using all held_Some [OF ok] by (fastforce simp: dirty_def dom_def)
  ultimately show False
    using c card_mono [of "dom (held s) \<union> dirty s" "?f ` {..<NBUF}"] by simp
qed

lemma valid_unique:
  assumes "cache_ok s" "i < NBUF" "j < NBUF" "is_valid (bcache s i)" "is_valid (bcache s j)"
    "b_blockno (bcache s i) = b_blockno (bcache s j)"
  shows "i = j"
proof -
  have "b_dev (bcache s i) = 1" "b_dev (bcache s j) = 1"
    using assms by (simp_all add: cache_ok_def buf_ok_def)
  then show ?thesis using assms by (simp add: cache_ok_def)
qed

lemma bview_replace:
  assumes ok: "cache_ok s" "cache_ok s'" and b: "b < NBUF" and s': "bcache s' = (bcache s)(b := bf)"
    and v: "is_valid bf"
    and old: "is_valid (bcache s b) \<Longrightarrow> b_blockno (bcache s b) \<noteq> b_blockno bf \<Longrightarrow>
       memdisk s' (b_blockno (bcache s b)) = bdata s b"
    and d: "\<And>blk. (\<forall>i < NBUF. is_valid (bcache s i) \<longrightarrow> b_blockno (bcache s i) \<noteq> blk) \<Longrightarrow>
       blk \<noteq> b_blockno bf \<Longrightarrow> memdisk s' blk = memdisk s blk"
  shows "bview s' = (bview s)(b_blockno bf := b_data bf)"
proof
  fix blk
  show "bview s' blk = ((bview s)(b_blockno bf := b_data bf)) blk"
  proof (cases "blk = b_blockno bf")
    case True
    then show ?thesis using bview_cached [OF ok(2) b] v by (simp add: s')
  next
    case neq: False
    show ?thesis
    proof (cases "cached s blk")
      case None
      then have n: "\<forall>i < NBUF. is_valid (bcache s i) \<longrightarrow> b_blockno (bcache s i) \<noteq> blk"
        by (simp add: cached_None)
      then have "bview s' blk = memdisk s' blk"
        using neq by (intro bview_uncached) (auto simp: s')
      then show ?thesis using neq d [OF n] bview_uncached [of s blk] n by simp
    next
      case (Some i)
      then have i: "i < NBUF" "is_valid (bcache s i)" "b_blockno (bcache s i) = blk"
        by (simp_all add: cached_Some [OF ok(1)])
      show ?thesis
      proof (cases "i = b")
        case True
        have "bview s' blk = memdisk s' blk"
          using neq i True valid_unique [OF ok(1)]
          by (intro bview_uncached) (auto simp: s' split: if_splits)
        then show ?thesis using old True i neq bview_cached [OF ok(1) i(1,2)] by simp
      next
        case False
        then show ?thesis
          using bview_cached [OF ok(2) i(1)] bview_cached [OF ok(1) i(1,2)] i neq by (simp add: s')
      qed
    qed
  qed
qed


lemma held_eqI:
  assumes "cache_ok s"
    and "\<And>blk i. m blk = Some i \<longleftrightarrow> i < NBUF \<and> is_locked (bcache s i) \<and> b_blockno (bcache s i) = blk"
  shows "held s = m"
proof
  fix blk
  show "held s blk = m blk"
    using held_Some [OF assms(1), of blk] assms(2) [of blk] by (cases "held s blk"; cases "m blk") auto
qed

lemma held_cong:
  assumes "\<And>i. i < NBUF \<Longrightarrow> is_locked (bcache s' i) = is_locked (bcache s i) \<and>
      b_blockno (bcache s' i) = b_blockno (bcache s i)"
  shows "held s' = held s"
  unfolding held_def by (intro ext find_cong) (auto simp: assms)

lemma bread_law:
  assumes ok: "cache_ok s" and r: "st_readable blk (babs s)"
  shows "\<exists>b s'. bread 1 blk s = Inr (b, s') \<and> cache_ok s' \<and> b < NBUF \<and>
    babs s' = st_take blk b (babs s) \<and> brest s' = brest s"
proof -
  have blk: "blk < disksize s" "held s blk = None"
    and rr: "blk \<in> dirty s \<or> card (dom (held s) \<union> dirty s) < NBUF"
    using r by (simp_all add: st_readable_def babs_def)
  have "(\<exists>i < NBUF. \<not> is_locked (bcache s i) \<and> \<not> is_dirty (bcache s i)) \<or>
      (\<exists>i < NBUF. is_valid (bcache s i) \<and> b_blockno (bcache s i) = blk)"
    using rr
  proof
    assume "blk \<in> dirty s"
    then show ?thesis using ok by (auto simp: dirty_def cache_ok_def buf_ok_def)
  qed (use cache_room [OF ok] in blast)
  from bread_spec [OF ok blk this] obtain b bf where
    e: "bread 1 blk s = Inr (b, s\<lparr>bcache := (bcache s)(b := bf)\<rparr>)" and bf: "bread_result s blk b bf"
    by blast
  let ?s = "s\<lparr>bcache := (bcache s)(b := bf)\<rparr>"
  have b: "b < NBUF" and nl: "\<not> is_locked (bcache s b)" and bfv: "is_valid bf" "b_blockno bf = blk"
    "b_data bf = bview s blk" "is_locked bf" "is_dirty bf = is_dirty (bcache s b)"
    and dk: "is_dirty (bcache s b) \<Longrightarrow> b_blockno (bcache s b) = blk"
    using bf by (auto simp: bread_result_def)
  have okb: "buf_ok s (bcache s b)" and len: "\<And>blk. length (memdisk s blk) = BSIZE"
    using ok b by (auto simp: cache_ok_def)
  have "length (bview s blk) = BSIZE"
  proof (cases "cached s blk")
    case None
    then show ?thesis using len by (simp add: bview_def)
  next
    case (Some i)
    then have "i < NBUF" "is_valid (bcache s i)" by (auto simp: cached_Some [OF ok])
    then have "length (bdata s i) = BSIZE" using ok by (auto simp: cache_ok_def buf_ok_def)
    then show ?thesis using Some by (simp add: bview_def)
  qed
  then have ok': "cache_ok ?s"
    using bf blk len by (intro cache_ok_replace [OF ok b, where bf = bf]) (auto simp: bread_result_def buf_ok_def)
  have "bview ?s = (bview s)(b_blockno bf := b_data bf)"
  proof (rule bview_replace [OF ok ok' b])
    assume "is_valid (bcache s b)" "b_blockno (bcache s b) \<noteq> b_blockno bf"
    then show "memdisk ?s (b_blockno (bcache s b)) = bdata s b"
      using okb nl dk bfv by (auto simp: buf_ok_def)
  qed (simp_all add: bfv)
  then have v: "bview ?s = bview s" by (simp add: bfv)
  have h: "held ?s = (held s)(blk := Some b)"
    using held_Some [OF ok] blk(2) nl bfv b
    by (intro held_eqI [OF ok']) (auto simp: held_None split: if_splits)
  have d: "dirty ?s = dirty s"
    using bfv dk b by (auto simp: dirty_def) metis+
  show ?thesis
    using e ok' v h d b by (auto simp: babs_def st_take_def brest_def)
qed


text \<open>A buffer that is held and replaced in place by one for the same block.\<close>

lemma held_replace:
  fixes s s' :: "'z bio_scheme"
  assumes ok: "cache_ok s" and h: "held s blk = Some b"
    and s': "bcache s' = (bcache s)(b := bf)" "disksize s' = disksize s"
      "memdisk s' = (memdisk s)(blk := md)"
    and same: "b_dev bf = b_dev (bcache s b)" "b_blockno bf = blk" "b_lock bf = b_lock (bcache s b)"
      "b_refcnt bf = b_refcnt (bcache s b)" "b_next bf = b_next (bcache s b)" "b_prev bf = b_prev (bcache s b)"
    and v: "is_valid bf" and len: "length (b_data bf) = BSIZE" "length md = BSIZE"
  shows "cache_ok s'" and "bview s' = (bview s)(blk := b_data bf)" and "held s' = held s"
    and "dirty s' = (if is_dirty bf then insert blk (dirty s) else dirty s - {blk})"
proof -
  have b: "b < NBUF" "is_locked (bcache s b)" "b_blockno (bcache s b) = blk"
    using h by (simp_all add: held_Some [OF ok])
  have okb: "buf_ok s (bcache s b)" and ld: "\<And>x. length (memdisk s x) = BSIZE"
    using ok b by (auto simp: cache_ok_def)
  have vb: "is_valid (bcache s b)" "b_dev (bcache s b) = 1" "blk < disksize s"
    using okb b by (auto simp: buf_ok_def)
  have uniq: "i = b" if "i < NBUF" "is_valid (bcache s i)" "b_blockno (bcache s i) = blk" for i
    using valid_unique [OF ok that(1) b(1) that(2) vb(1)] that b by simp
  show ok': "cache_ok s'"
  proof (rule cache_ok_replace [OF ok b(1), where bf = bf])
    fix i assume "b_dev bf \<noteq> 0" "i < NBUF" "i \<noteq> b" "b_dev (bcache s i) = b_dev bf"
    then show "b_blockno (bcache s i) \<noteq> b_blockno bf"
      using ok b vb same unfolding cache_ok_def by metis
  next
    show "buf_ok s' bf" using okb b same v len vb s'(2) by (simp add: buf_ok_def s'(3))
    show "length (memdisk s' x) = BSIZE" for x using ld len by (simp add: s'(3))
    show "memdisk s' (b_blockno (bcache s i)) = memdisk s (b_blockno (bcache s i))"
      if "i < NBUF" "i \<noteq> b" "is_valid (bcache s i)" for i
      using uniq [OF that(1,3)] that(2) by (auto simp: s'(3))
  qed (use same s' in simp_all)
  have "bview s' = (bview s)(b_blockno bf := b_data bf)"
    by (rule bview_replace [OF ok ok' b(1) s'(1) v]) (use same b s' in auto)
  then show "bview s' = (bview s)(blk := b_data bf)" by (simp add: same)
  show "held s' = held s" by (rule held_cong) (use s' same b in auto)
  have dv: "is_valid (bcache s i)" if "i < NBUF" "is_dirty (bcache s i)" for i
    using ok that by (auto simp: cache_ok_def buf_ok_def)
  have e: "bcache s' b = bf" "\<And>i. i \<noteq> b \<Longrightarrow> bcache s' i = bcache s i" by (simp_all add: s'(1))
  have "blk \<in> dirty s' \<longleftrightarrow> is_dirty bf"
    using b(1) same(2) e uniq dv unfolding dirty_def mem_Collect_eq by metis
  moreover have "x \<in> dirty s' \<longleftrightarrow> x \<in> dirty s" if "x \<noteq> blk" for x
    using that b(3) same(2) e unfolding dirty_def mem_Collect_eq by metis
  ultimately show "dirty s' = (if is_dirty bf then insert blk (dirty s) else dirty s - {blk})"
    by (intro set_eqI) (metis Diff_iff insert_iff empty_iff)
qed

lemma dirty_held:
  assumes ok: "cache_ok s" and h: "held s blk = Some b"
  shows "blk \<in> dirty s \<longleftrightarrow> is_dirty (bcache s b)"
proof
  assume "blk \<in> dirty s"
  then obtain i where i: "i < NBUF" "is_dirty (bcache s i)" "b_blockno (bcache s i) = blk"
    by (auto simp: dirty_def)
  have b: "b < NBUF" "is_locked (bcache s b)" "b_blockno (bcache s b) = blk"
    using h by (simp_all add: held_Some [OF ok])
  have "is_valid (bcache s i)" "is_valid (bcache s b)"
    using ok i(1,2) b(1,2) by (simp_all add: cache_ok_def buf_ok_def)
  from valid_unique [OF ok i(1) b(1) this] i b show "is_dirty (bcache s b)" by simp
next
  assume "is_dirty (bcache s b)"
  then show "blk \<in> dirty s" using h by (auto simp: dirty_def held_Some [OF ok])
qed

lemma set_data_law:
  assumes ok: "cache_ok s" and h: "held s blk = Some b" and d: "length d = BSIZE"
  shows "cache_ok (set_data b d s) \<and> babs (set_data b d s) = st_edit blk d (babs s) \<and>
    brest (set_data b d s) = brest s"
proof -
  have b: "b < NBUF" "is_locked (bcache s b)" "b_blockno (bcache s b) = blk"
    using h by (simp_all add: held_Some [OF ok])
  then have v: "is_valid (bcache s b)" "length (memdisk s blk) = BSIZE"
    using ok by (auto simp: cache_ok_def buf_ok_def)
  let ?bf = "(bcache s b)\<lparr>b_data := d\<rparr>"
  have "is_dirty ?bf = is_dirty (bcache s b)" "is_valid ?bf"
    using v by (simp_all add: is_dirty_def is_valid_def)
  note r = held_replace [OF ok h, of "set_data b d s" ?bf "memdisk s blk"]
  have "dirty s = (if is_dirty (bcache s b) then insert blk (dirty s) else dirty s - {blk})"
    using dirty_held [OF ok h] by auto
  then show ?thesis
    using r v d b \<open>is_dirty ?bf = _\<close> \<open>is_valid ?bf\<close>
    by (auto simp: set_data_def upd_buf_def babs_def st_edit_def brest_def)
qed

lemma bwrite_law:
  assumes ok: "cache_ok s" and h: "held s blk = Some b"
  shows "\<exists>s'. bwrite b s = Inr s' \<and> cache_ok s' \<and> babs s' = st_write blk (babs s) \<and> brest s' = brest s"
proof -
  have b: "b < NBUF" "is_locked (bcache s b)" "b_blockno (bcache s b) = blk"
    using h by (simp_all add: held_Some [OF ok])
  then have v: "is_valid (bcache s b)" "length (bdata s b) = BSIZE" "b_dev (bcache s b) = 1" "blk < disksize s"
    using ok by (auto simp: cache_ok_def buf_ok_def)
  let ?bf = "(bcache s b)\<lparr>b_flags := ((b_flags (bcache s b) OR B_DIRTY) AND NOT B_DIRTY) OR B_VALID\<rparr>"
  let ?s = "s\<lparr>memdisk := (memdisk s)(blk := bdata s b), bio_writes := bio_writes s @ [(blk, bdata s b)],
    bcache := (bcache s)(b := ?bf)\<rparr>"
  have f: "is_valid ?bf" "\<not> is_dirty ?bf" by (auto simp: flag_simps)
  have e: "bwrite b s = Inr ?s"
    using v b by (auto simp: bwrite_def iderw_def upd_buf_def Let_def flag_simps holdingsleep_def)
  have "cache_ok ?s" "bview ?s = (bview s)(blk := bdata s b)" "held ?s = held s" "dirty ?s = dirty s - {blk}"
    using held_replace [OF ok h, of ?s ?bf "bdata s b"] f b v by simp_all
  moreover have "bview s blk = bdata s b" by (rule held_data [OF ok h, symmetric])
  moreover from this have "(bview s)(blk := bdata s b) = bview s" by auto
  ultimately have "babs ?s = st_write blk (babs s)" by (simp add: babs_def st_write_def)
  with \<open>cache_ok ?s\<close> e show ?thesis by (simp add: brest_def)
qed

lemma key_unique:
  "cache_ok s \<Longrightarrow> i < NBUF \<Longrightarrow> j < NBUF \<Longrightarrow> b_dev (bcache s i) = b_dev (bcache s j) \<Longrightarrow>
   b_blockno (bcache s i) = b_blockno (bcache s j) \<Longrightarrow> b_dev (bcache s i) \<noteq> 0 \<Longrightarrow> i = j"
  by (simp add: cache_ok_def)

lemma cache_ok_move_to_front:
  assumes ok: "cache_ok s" and b: "b < NBUF"
  shows "cache_ok (s\<lparr>bcache := move_to_front b (bcache s)\<rparr>)"
proof -
  obtain xs where xs: "lru_list (bcache s) xs" "set xs = {..<NBUF}"
    using ok by (auto simp: cache_ok_def)
  then obtain as bs where s: "xs = as @ b # bs" using b by (metis lessThan_iff split_list)
  have "lru_list (move_to_front b (bcache s)) (b # as @ bs)"
    using xs(1) unfolding s by (rule lru_list_move_to_front)
  moreover have "set (b # as @ bs) = {..<NBUF}" using xs(2) by (simp add: s)
  moreover have "buf_ok (s\<lparr>bcache := move_to_front b (bcache s)\<rparr>) (move_to_front b (bcache s) i)" if "i < NBUF" for i
  proof -
    have "buf_ok s (bcache s i)" using ok that by (simp add: cache_ok_def)
    then show ?thesis by (simp add: buf_ok_def is_valid_def is_dirty_def)
  qed
  moreover have "length (memdisk s blk) = BSIZE" for blk using ok by (simp add: cache_ok_def)
  ultimately show ?thesis
    using key_unique [OF ok] unfolding cache_ok_def by (intro conjI exI [of _ "b # as @ bs"]) simp_all
qed

lemma brelse_law:
  assumes ok: "cache_ok s" and h: "held s blk = Some b"
    and d: "blk \<in> dirty s \<or> bview s blk = memdisk s blk"
  shows "\<exists>s'. brelse b s = Inr s' \<and> cache_ok s' \<and> babs s' = st_drop blk (babs s) \<and> brest s' = brest s"
proof -
  have b: "b < NBUF" "is_locked (bcache s b)" "b_blockno (bcache s b) = blk"
    using h by (simp_all add: held_Some [OF ok])
  have okb: "buf_ok s (bcache s b)" using ok b by (simp add: cache_ok_def)
  have v: "is_valid (bcache s b)" "b_dev (bcache s b) = 1" "b_refcnt (bcache s b) = 1"
    using okb b by (auto simp: buf_ok_def)
  let ?bf = "(bcache s b)\<lparr>b_lock := releasesleep (b_lock (bcache s b)), b_refcnt := 0\<rparr>"
  let ?c = "(bcache s)(b := ?bf)"
  let ?s1 = "s\<lparr>bcache := ?c\<rparr>"
  let ?s = "s\<lparr>bcache := move_to_front b ?c\<rparr>"
  have e: "brelse b s = Inr ?s"
    using b v by (simp add: brelse_def holdingsleep_def upd_buf_def Let_def)
  have fl: "is_valid ?bf = is_valid (bcache s b)" "is_dirty ?bf = is_dirty (bcache s b)"
    by (simp_all add: is_valid_def is_dirty_def)
  have "buf_ok s ?bf"
    using okb v fl b d dirty_held [OF ok h] held_data [OF ok h]
    by (auto simp: buf_ok_def releasesleep_def)
  have ok1: "cache_ok ?s1"
  proof (rule cache_ok_replace [OF ok b(1), where bf = ?bf])
    fix i assume "b_dev ?bf \<noteq> 0" "i < NBUF" "i \<noteq> b" "b_dev (bcache s i) = b_dev ?bf"
    then show "b_blockno (bcache s i) \<noteq> b_blockno ?bf"
      using key_unique [OF ok _ b(1), of i] v by auto
  qed (use ok okb \<open>buf_ok s ?bf\<close> in \<open>simp_all add: cache_ok_def buf_ok_def is_valid_def is_dirty_def\<close>)
  have flds: "\<And>i. is_valid (bcache ?s i) = is_valid (bcache s i)"
    "\<And>i. is_dirty (bcache ?s i) = is_dirty (bcache s i)"
    "\<And>i. bdata ?s i = bdata s i" "\<And>i. b_blockno (bcache ?s i) = b_blockno (bcache s i)"
    "\<And>i. is_locked (bcache ?s i) = (is_locked (bcache s i) \<and> i \<noteq> b)"
    by (simp_all add: is_valid_def is_dirty_def releasesleep_def)
  have ok': "cache_ok ?s" using cache_ok_move_to_front [OF ok1 b(1)] by simp
  have u: "i = b" if "i < NBUF" "is_locked (bcache s i)" "b_blockno (bcache s i) = blk" for i
    using that h held_Some [OF ok, of blk i] by simp
  have "bview ?s = bview s" unfolding bview_def cached_def flds by (simp cong: option.case_cong)
  moreover have "dirty ?s = dirty s" unfolding dirty_def flds by simp
  moreover have "held ?s = (held s)(blk := None)"
  proof (rule held_eqI [OF ok'])
    fix x i
    show "((held s)(blk := None)) x = Some i \<longleftrightarrow>
        i < NBUF \<and> is_locked (bcache ?s i) \<and> b_blockno (bcache ?s i) = x"
      unfolding flds fun_upd_apply using held_Some [OF ok, of x i] u [of i] b(3) by (cases "x = blk") auto
  qed
  ultimately show ?thesis using e ok' by (simp add: babs_def st_drop_def brest_def)
qed
lemma pin_law:
  assumes ok: "cache_ok s" and h: "held s blk = Some b"
  shows "cache_ok (upd_buf b (\<lambda>bf. bf\<lparr>b_flags := b_flags bf OR B_DIRTY\<rparr>) s) \<and>
    babs (upd_buf b (\<lambda>bf. bf\<lparr>b_flags := b_flags bf OR B_DIRTY\<rparr>) s) = st_pin blk (babs s) \<and>
    brest (upd_buf b (\<lambda>bf. bf\<lparr>b_flags := b_flags bf OR B_DIRTY\<rparr>) s) = brest s"
proof -
  have b: "b < NBUF" "is_locked (bcache s b)" "b_blockno (bcache s b) = blk"
    using h by (simp_all add: held_Some [OF ok])
  then have v: "is_valid (bcache s b)" "length (bdata s b) = BSIZE" "length (memdisk s blk) = BSIZE"
    using ok by (auto simp: cache_ok_def buf_ok_def)
  let ?bf = "(bcache s b)\<lparr>b_flags := b_flags (bcache s b) OR B_DIRTY\<rparr>"
  let ?s = "s\<lparr>bcache := (bcache s)(b := ?bf)\<rparr>"
  have f: "is_valid ?bf" "is_dirty ?bf" using v by (auto simp: flag_simps)
  have r: "cache_ok ?s" "bview ?s = (bview s)(blk := bdata s b)" "held ?s = held s" "dirty ?s = insert blk (dirty s)"
    using held_replace [OF ok h, of ?s ?bf "memdisk s blk"] f b v by simp_all
  have "(bview s)(blk := bdata s b) = bview s" using held_data [OF ok h] by auto
  with r show ?thesis by (simp add: upd_buf_def babs_def st_pin_def brest_def)
qed


lemma view_length:
  assumes ok: "cache_ok s"
  shows "length (bview s blk) = BSIZE"
proof (cases "cached s blk")
  case None
  then show ?thesis using ok by (simp add: bview_def cache_ok_def)
next
  case (Some i)
  then have "i < NBUF" "is_valid (bcache s i)" by (auto simp: cached_Some [OF ok])
  then have "length (bdata s i) = BSIZE" using ok by (auto simp: cache_ok_def buf_ok_def)
  then show ?thesis using Some by (simp add: bview_def)
qed

lemma clean_view:
  assumes ok: "cache_ok s" and h: "held s blk = None" and d: "blk \<notin> dirty s"
  shows "bview s blk = memdisk s blk"
proof (cases "cached s blk")
  case None
  then show ?thesis by (simp add: bview_def)
next
  case (Some i)
  then have i: "i < NBUF" "is_valid (bcache s i)" "b_blockno (bcache s i) = blk"
    by (auto simp: cached_Some [OF ok])
  have "\<not> is_locked (bcache s i)" "\<not> is_dirty (bcache s i)"
    using h d i by (auto simp: held_None dirty_def)
  moreover have "buf_ok s (bcache s i)" using ok i(1) by (simp add: cache_ok_def)
  ultimately have "bdata s i = memdisk s blk" using i by (simp add: buf_ok_def)
  then show ?thesis using Some by (simp add: bview_def)
qed

text \<open>\<open>b->flags |= B_DIRTY\<close>, by which \<open>log_write\<close> keeps a buffer from being recycled.\<close>

definition pin_buf :: "nat \<Rightarrow> 'z bio_scheme \<Rightarrow> 'z bio_scheme" where
  "pin_buf b s = upd_buf b (\<lambda>bf. bf\<lparr>b_flags := b_flags bf OR B_DIRTY\<rparr>) s"

interpretation bc: block_cache cache_ok babs brest "bread 1" bdata set_data pin_buf bwrite brelse
proof unfold_locales
  fix s :: "'z bio_scheme" and blk b and d :: "u8 list"
  assume ok: "cache_ok s"
  show "st_readable blk (babs s) \<Longrightarrow> \<exists>b s'. bread 1 blk s = Inr (b, s') \<and> cache_ok s' \<and>
      babs s' = st_take blk b (babs s) \<and> brest s' = brest s"
    using bread_law [OF ok] by blast
  show "st_held (babs s) blk = Some b \<Longrightarrow> bdata s b = st_view (babs s) blk"
    using held_data [OF ok] by (simp add: babs_def)
  show "length (st_view (babs s) blk) = BSIZE"
    using view_length [OF ok] by (simp add: babs_def)
  show "st_held (babs s) blk = None \<Longrightarrow> blk \<notin> st_dirty (babs s) \<Longrightarrow> st_view (babs s) blk = st_disk (babs s) blk"
    using clean_view [OF ok] by (simp add: babs_def)
  show "st_held (babs s) blk = Some b \<Longrightarrow> length d = BSIZE \<Longrightarrow> cache_ok (set_data b d s) \<and>
      babs (set_data b d s) = st_edit blk d (babs s) \<and> brest (set_data b d s) = brest s"
    using set_data_law [OF ok] by (simp add: babs_def)
  show "st_held (babs s) blk = Some b \<Longrightarrow> cache_ok (pin_buf b s) \<and>
      babs (pin_buf b s) = st_pin blk (babs s) \<and> brest (pin_buf b s) = brest s"
    using pin_law [OF ok] by (simp add: babs_def pin_buf_def)
  show "st_held (babs s) blk = Some b \<Longrightarrow>
      \<exists>s'. bwrite b s = Inr s' \<and> cache_ok s' \<and> babs s' = st_write blk (babs s) \<and> brest s' = brest s"
    using bwrite_law [OF ok] by (simp add: babs_def)
  show "st_held (babs s) blk = Some b \<Longrightarrow> blk \<in> st_dirty (babs s) \<or> st_view (babs s) blk = st_disk (babs s) blk \<Longrightarrow>
      \<exists>s'. brelse b s = Inr s' \<and> cache_ok s' \<and> babs s' = st_drop blk (babs s) \<and> brest s' = brest s"
    using brelse_law [OF ok] by (simp add: babs_def)
qed

end
