(* ===== verification/Superblock.thy ===== *)
theory Superblock
  imports Bio
begin

text \<open>
  The super block of \<open>src/xv6/fs.h\<close> and \<open>readsb\<close> of \<open>src/xv6/fs.c\<close>. The seven fields are
  32-bit little-endian numbers at the start of block 1.
\<close>

record superblock =
  sb_size :: u32
  sb_nblocks :: u32
  sb_ninodes :: u32
  sb_nlog :: u32
  sb_logstart :: u32
  sb_inodestart :: u32
  sb_bmapstart :: u32

definition decode_sb :: "u8 list \<Rightarrow> superblock" where
  "decode_sb d =
    \<lparr>sb_size = get32 d 0, sb_nblocks = get32 d 4, sb_ninodes = get32 d 8, sb_nlog = get32 d 12,
     sb_logstart = get32 d 16, sb_inodestart = get32 d 20, sb_bmapstart = get32 d 24\<rparr>"

definition readsb :: "u32 \<Rightarrow> 'z bio_scheme \<Rightarrow> (superblock \<times> 'z bio_scheme) result" where
  "readsb dev s =
    andthen (bread dev 1 s) (\<lambda>(bp, s).
      let sb = decode_sb (bdata s bp) in
      andthen (brelse bp s) (\<lambda>s. Inr (sb, s)))"

lemma readsb_spec:
  assumes "cache_ok s" "st_readable 1 (babs s)"
  shows "\<exists>s'. readsb 1 s = Inr (decode_sb (bview s 1), s') \<and> cache_ok s' \<and> babs s' = babs s \<and> brest s' = brest s"
  using bc.read_only [OF assms] by (fastforce simp: readsb_def babs_def)

end
