(* ===== verification/Log.thy ===== *)
theory Log
  imports Superblock
begin

text \<open>
  The write-ahead log of \<open>src/xv6/log.c\<close>. The state extends the buffer cache with the struct
  \<open>log\<close>; the in-memory header is \<open>lh_n\<close> and the array \<open>lh_block\<close> of \<open>LOGSIZE\<close> entries. The spin
  lock \<open>log.lock\<close> is left out, each function being one atomic section; a \<open>begin_op\<close> that has
  to wait returns \<open>Sleep\<close> and is called again by its process, so the calls of \<open>wakeup\<close> have
  no counterpart here.
\<close>

section \<open>State and operations\<close>

record log = bio +
  l_start :: u32
  l_size :: int
  l_outstanding :: int
  l_committing :: bool
  l_dev :: u32
  lh_n :: int
  lh_block :: "u32 list"

definition install_step :: "nat \<Rightarrow> 'z log_scheme \<Rightarrow> 'z log_scheme result" where
  "install_step tail s =
    (if tail \<ge> LOGSIZE then Inl (Undefined ''log.lh.block'') else
     andthen (bread (l_dev s) (l_start s + of_nat tail + 1) s) (\<lambda>(lbuf, s).
     andthen (bread (l_dev s) (lh_block s ! tail) s) (\<lambda>(dbuf, s).
     andthen (bwrite dbuf (set_data dbuf (bdata s lbuf) s)) (\<lambda>s.
     andthen (brelse lbuf s) (brelse dbuf)))))"

definition install_trans :: "'z log_scheme \<Rightarrow> 'z log_scheme result" where
  "install_trans s = each install_step [0..<nat (lh_n s)] s"

text \<open>The layout of \<open>struct logheader\<close> in a block: \<open>n\<close>, then the block numbers.\<close>

definition head_n :: "u8 list \<Rightarrow> int" where
  "head_n d = sint (get32 d 0)"

definition head_block :: "u8 list \<Rightarrow> nat \<Rightarrow> u32" where
  "head_block d i = get32 d (4 + 4 * i)"

definition read_head :: "'z log_scheme \<Rightarrow> 'z log_scheme result" where
  "read_head s =
    andthen (bread (l_dev s) (l_start s) s) (\<lambda>(buf, s).
      let lh = bdata s buf; s = s\<lparr>lh_n := head_n lh\<rparr> in
      if lh_n s > int LOGSIZE then Inl (Undefined ''log.lh.block'')
      else brelse buf (s\<lparr>lh_block :=
             fold (\<lambda>i bl. bl[i := head_block lh i]) [0..<nat (lh_n s)] (lh_block s)\<rparr>))"

definition encode_head :: "int \<Rightarrow> u32 list \<Rightarrow> u8 list \<Rightarrow> u8 list" where
  "encode_head n block d =
    fold (\<lambda>i d. put32 (4 + 4 * i) (block ! i) d) [0..<nat n] (put32 0 (word_of_int n) d)"

definition write_head :: "'z log_scheme \<Rightarrow> 'z log_scheme result" where
  "write_head s =
    andthen (bread (l_dev s) (l_start s) s) (\<lambda>(buf, s).
      if lh_n s > int LOGSIZE then Inl (Undefined ''log.lh.block'')
      else andthen (bwrite buf (set_data buf (encode_head (lh_n s) (lh_block s) (bdata s buf)) s)) (brelse buf))"

definition recover_from_log :: "'z log_scheme \<Rightarrow> 'z log_scheme result" where
  "recover_from_log s =
    andthen (read_head s) (\<lambda>s.
    andthen (install_trans s) (\<lambda>s.
    write_head (s\<lparr>lh_n := 0\<rparr>)))"

definition initlog :: "u32 \<Rightarrow> 'z log_scheme \<Rightarrow> 'z log_scheme result" where
  "initlog dev s =
    (if 4 * (LOGSIZE + 1) \<ge> BSIZE then Inl (Panic ''initlog: too big logheader'')
     else andthen (readsb dev s) (\<lambda>(sb, s).
       recover_from_log (s\<lparr>l_start := sb_logstart sb, l_size := sint (sb_nlog sb), l_dev := dev\<rparr>)))"

definition begin_op :: "'z log_scheme \<Rightarrow> 'z log_scheme result" where
  "begin_op s =
    (if l_committing s then Inl (Sleep ''log'')
     else if lh_n s + (l_outstanding s + 1) * int MAXOPBLOCKS > int LOGSIZE then Inl (Sleep ''log'')
     else Inr (s\<lparr>l_outstanding := l_outstanding s + 1\<rparr>))"

definition write_log_step :: "nat \<Rightarrow> 'z log_scheme \<Rightarrow> 'z log_scheme result" where
  "write_log_step tail s =
    (if tail \<ge> LOGSIZE then Inl (Undefined ''log.lh.block'') else
     andthen (bread (l_dev s) (l_start s + of_nat tail + 1) s) (\<lambda>(to, s).
     andthen (bread (l_dev s) (lh_block s ! tail) s) (\<lambda>(from, s).
     andthen (bwrite to (set_data to (bdata s from) s)) (\<lambda>s.
     andthen (brelse from s) (brelse to)))))"

definition write_log :: "'z log_scheme \<Rightarrow> 'z log_scheme result" where
  "write_log s = each write_log_step [0..<nat (lh_n s)] s"

definition commit :: "'z log_scheme \<Rightarrow> 'z log_scheme result" where
  "commit s =
    (if lh_n s > 0 then
       andthen (write_log s) (\<lambda>s.
       andthen (write_head s) (\<lambda>s.
       andthen (install_trans s) (\<lambda>s.
       write_head (s\<lparr>lh_n := 0\<rparr>))))
     else Inr s)"

definition end_op :: "'z log_scheme \<Rightarrow> 'z log_scheme result" where
  "end_op s =
    (let s = s\<lparr>l_outstanding := l_outstanding s - 1\<rparr> in
     if l_committing s then Inl (Panic ''log.committing'')
     else if l_outstanding s = 0 then
       andthen (commit (s\<lparr>l_committing := True\<rparr>)) (\<lambda>s. Inr (s\<lparr>l_committing := False\<rparr>))
     else Inr s)"

definition log_write :: "nat \<Rightarrow> 'z log_scheme \<Rightarrow> 'z log_scheme result" where
  "log_write b s =
    (if lh_n s \<ge> int LOGSIZE \<or> lh_n s \<ge> l_size s - 1 then Inl (Panic ''too big a transaction'')
     else if l_outstanding s < 1 then Inl (Panic ''log_write outside of trans'')
     else
       let blk = b_blockno (bcache s b);
           i = (case scan (\<lambda>x. x = blk) (take (nat (lh_n s)) (lh_block s)) of
                  Some i \<Rightarrow> i | None \<Rightarrow> nat (lh_n s));
           s = s\<lparr>lh_block := (lh_block s)[i := blk], lh_n := (if int i = lh_n s then lh_n s + 1 else lh_n s)\<rparr>
       in Inr (pin_buf b s))"

section \<open>The header block\<close>

lemma encode_blocks:
  assumes "m \<le> LOGSIZE" "length d = BSIZE"
  shows "length (fold (\<lambda>i d. put32 (4 + 4 * i) (block ! i) d) [0..<m] d) = BSIZE \<and>
    get32 (fold (\<lambda>i d. put32 (4 + 4 * i) (block ! i) d) [0..<m] d) 0 = get32 d 0 \<and>
    (\<forall>j < m. get32 (fold (\<lambda>i d. put32 (4 + 4 * i) (block ! i) d) [0..<m] d) (4 + 4 * j) = block ! j)"
  using assms(1)
proof (induction m)
  case (Suc m)
  let ?e = "fold (\<lambda>i d. put32 (4 + 4 * i) (block ! i) d) [0..<m] d"
  have e: "length ?e = BSIZE" "get32 ?e 0 = get32 d 0" "\<And>j. j < m \<Longrightarrow> get32 ?e (4 + 4 * j) = block ! j"
    using Suc by simp_all
  have m: "4 + 4 * m + 4 \<le> BSIZE" using Suc.prems by (simp add: param_defs)
  have "get32 (put32 (4 + 4 * m) (block ! m) ?e) (4 + 4 * j) = block ! j" if "j < Suc m" for j
  proof (cases "j = m")
    case True
    then show ?thesis using m e(1) by (simp add: get32_put32_same)
  next
    case False
    then show ?thesis using that m e by (simp add: get32_put32_other)
  qed
  then show ?case using e m by (simp add: get32_put32_other)
qed (use assms in simp)

lemma encode_head:
  assumes "0 \<le> n" "n \<le> int LOGSIZE" "length d = BSIZE"
  shows "length (encode_head n block d) = BSIZE" "head_n (encode_head n block d) = n"
    "\<And>j. int j < n \<Longrightarrow> head_block (encode_head n block d) j = block ! j"
proof -
  let ?d = "put32 0 (word_of_int n) d"
  have d: "length ?d = BSIZE" "get32 ?d 0 = word_of_int n"
    using assms by (simp_all add: param_defs get32_put32_same)
  have "nat n \<le> LOGSIZE" using assms by simp
  note e = encode_blocks [OF this d(1), of block, folded encode_head_def]
  show "length (encode_head n block d) = BSIZE" using e by simp
  have "n < 2 ^ 31" using assms(2) by (simp add: param_defs)
  then have "sint (word_of_int n :: u32) = n"
    using assms(1) by (simp add: signed_of_int signed_take_bit_int_eq_self)
  then show "head_n (encode_head n block d) = n" using e d by (simp add: head_n_def)
  show "head_block (encode_head n block d) j = block ! j" if "int j < n" for j
    using that e by (simp add: head_block_def)
qed

section \<open>Frame\<close>

lemma upd_buf_rest [simp]: "brest (upd_buf b f s) = brest s"
  by (simp add: brest_def upd_buf_def)

lemma bget_rest: "bget dev blk s = Inr (b, s') \<Longrightarrow> brest s' = brest s"
  by (auto simp: bget_def acquire_buf_def result_simps split: option.splits)

lemma iderw_rest: "iderw b s = Inr s' \<Longrightarrow> brest s' = brest s"
  by (auto simp: iderw_def Let_def brest_def upd_buf_def split: if_splits)

lemma bread_rest: "bread dev blk s = Inr (b, s') \<Longrightarrow> brest s' = brest s"
  by (auto simp: bread_def result_simps bget_rest iderw_rest split: if_splits dest!: bget_rest iderw_rest)

lemma log_rest:
  assumes "brest s' = brest s"
  shows "l_start s' = l_start s" "l_size s' = l_size s" "l_outstanding s' = l_outstanding s"
    "l_committing s' = l_committing s" "l_dev s' = l_dev s" "lh_n s' = lh_n s" "lh_block s' = lh_block s"
  using assms by (cases s; cases s'; simp add: brest_def)+

section \<open>The log on the disk\<close>

definition log_slot :: "'z log_scheme \<Rightarrow> nat \<Rightarrow> u32" where
  "log_slot s i = l_start s + of_nat i + 1"

definition log_region :: "'z log_scheme \<Rightarrow> u32 set" where
  "log_region s = (\<lambda>i. l_start s + of_nat i) ` {..<nat (l_size s)}"

definition logged :: "'z log_scheme \<Rightarrow> u32 list" where
  "logged s = take (nat (lh_n s)) (lh_block s)"

text \<open>The log area lies on the disk; it has room for at most \<open>LOGSIZE - 1\<close> blocks after the header.\<close>

definition log_geom :: "'z log_scheme \<Rightarrow> bool" where
  "log_geom s \<longleftrightarrow> l_dev s = 1 \<and> 0 < l_size s \<and> l_size s \<le> int LOGSIZE \<and>
     unat (l_start s) + nat (l_size s) \<le> unat (disksize s) \<and> length (lh_block s) = LOGSIZE"

lemma log_offset:
  assumes "log_geom s" "i < nat (l_size s)"
  shows "unat (l_start s + of_nat i) = unat (l_start s) + i"
proof -
  have "unat (l_start s) + i < 4294967296"
    using assms unat_u32_less [of "disksize s"] by (simp add: log_geom_def)
  then show ?thesis by (simp add: unat_word_ariths unat_of_nat)
qed

lemma log_offset_inj:
  assumes "log_geom s" "i < nat (l_size s)" "j < nat (l_size s)" "l_start s + of_nat i = l_start s + of_nat j"
  shows "i = j"
  using log_offset [OF assms(1,2)] log_offset [OF assms(1,3)] unfolding assms(4) by linarith

lemma log_region_size: "log_geom s \<Longrightarrow> blk \<in> log_region s \<Longrightarrow> blk < disksize s"
  using log_offset [of s] by (fastforce simp: log_region_def log_geom_def word_less_nat_alt)

lemma start_region: "log_geom s \<Longrightarrow> l_start s \<in> log_region s"
  unfolding log_region_def by (rule image_eqI [of _ _ 0]) (simp_all add: log_geom_def)

lemma log_slot_region: "Suc i < nat (l_size s) \<Longrightarrow> log_slot s i \<in> log_region s"
  unfolding log_region_def by (rule image_eqI [of _ _ "Suc i"]) (simp_all add: log_slot_def)

lemma log_slot_start:
  assumes "log_geom s" "Suc i < nat (l_size s)"
  shows "log_slot s i \<noteq> l_start s"
  using log_offset [OF assms] by (auto simp: log_slot_def add.assoc add.commute)

lemma log_slot_inj:
  assumes "log_geom s" "Suc i < nat (l_size s)" "Suc j < nat (l_size s)" "log_slot s i = log_slot s j"
  shows "i = j"
  using log_offset_inj [OF assms(1-3)] assms(4) by (simp add: log_slot_def)

text \<open>The fields of \<open>struct log\<close> are no part of the cache.\<close>

lemma cache_cong:
  assumes "memdisk s' = memdisk s" "disksize s' = disksize s" "bcache s' = bcache s" "bio_writes s' = bio_writes s"
  shows "cache_ok s' = cache_ok s" "babs s' = babs s"
proof -
  show "cache_ok s' = cache_ok s" by (simp add: cache_ok_def buf_ok_def assms)
  have "held s' = held s" "bview s' = bview s" "dirty s' = dirty s"
    by (simp_all add: fun_eq_iff held_def bview_def cached_def dirty_def assms cong: option.case_cong)
  then show "babs s' = babs s" by (simp add: babs_def assms)
qed

lemma log_fields_cache [simp]:
  "cache_ok (lh_n_update f s) = cache_ok s" "babs (lh_n_update f s) = babs s"
  "cache_ok (lh_block_update g s) = cache_ok s" "babs (lh_block_update g s) = babs s"
  "cache_ok (l_outstanding_update f s) = cache_ok s" "babs (l_outstanding_update f s) = babs s"
  "cache_ok (l_committing_update h s) = cache_ok s" "babs (l_committing_update h s) = babs s"
  "cache_ok (l_start_update h' s) = cache_ok s" "babs (l_start_update h' s) = babs s"
  "cache_ok (l_size_update f s) = cache_ok s" "babs (l_size_update f s) = babs s"
  "cache_ok (l_dev_update h' s) = cache_ok s" "babs (l_dev_update h' s) = babs s"
  by (rule cache_cong; simp)+

lemma log_fields_views [simp]:
  "held (lh_n_update f s) = held s" "bview (lh_n_update f s) = bview s" "dirty (lh_n_update f s) = dirty s"
  "held (lh_block_update g s) = held s" "bview (lh_block_update g s) = bview s"
  "dirty (lh_block_update g s) = dirty s"
  by (simp_all add: fun_eq_iff held_def bview_def cached_def dirty_def cong: option.case_cong)

lemma log_fields_rest:
  assumes "brest s' = brest s"
  shows "brest (lh_n_update f s') = brest (lh_n_update f s)"
    "brest (lh_block_update g s') = brest (lh_block_update g s)"
  using assms by (cases s; cases s'; simp add: brest_def)+

lemma babs_fields [simp]:
  "st_view (babs s) = bview s" "st_disk (babs s) = memdisk s" "st_size (babs s) = disksize s"
  "st_dirty (babs s) = dirty s" "st_held (babs s) = held s" "st_writes (babs s) = bio_writes s"
  by (simp_all add: babs_def)

lemma babs_puts:
  assumes "babs u = st_puts ws (babs s)"
  shows "bview u = apply_writes ws (bview s)" "memdisk u = apply_writes ws (memdisk s)"
    "disksize u = disksize s" "dirty u = dirty s - fst ` set ws" "held u = held s"
    "bio_writes u = bio_writes s @ ws"
proof -
  note a = arg_cong [OF assms]
  show "bview u = apply_writes ws (bview s)" using a [of st_view] by simp
  show "memdisk u = apply_writes ws (memdisk s)" using a [of st_disk] by simp
  show "disksize u = disksize s" using a [of st_size] by simp
  show "dirty u = dirty s - fst ` set ws" using a [of st_dirty] by simp
  show "held u = held s" using a [of st_held] by simp
  show "bio_writes u = bio_writes s @ ws" using a [of st_writes] by simp
qed

definition log_ok :: "'z log_scheme \<Rightarrow> bool" where
  "log_ok s \<longleftrightarrow> cache_ok s \<and> log_geom s \<and> 0 \<le> lh_n s \<and> lh_n s < l_size s \<and>
     (\<forall>blk \<in> set (logged s). blk < disksize s \<and> blk \<notin> log_region s)"

text \<open>In a transaction the pinned blocks are exactly the blocks of the log, each listed once.\<close>

definition txn_ok :: "'z log_scheme \<Rightarrow> bool" where
  "txn_ok s \<longleftrightarrow> log_ok s \<and> distinct (logged s) \<and> dirty s = set (logged s)"

lemma logged_nth: "log_geom s \<Longrightarrow> lh_n s < l_size s \<Longrightarrow> i < nat (lh_n s) \<Longrightarrow>
    lh_block s ! i \<in> set (logged s) \<and> logged s ! i = lh_block s ! i \<and> i < length (logged s)"
  by (auto simp: logged_def log_geom_def in_set_conv_nth intro!: exI [of _ i])

lemma log_index: "log_geom s \<Longrightarrow> lh_n s < l_size s \<Longrightarrow> i < nat (lh_n s) \<Longrightarrow> i < LOGSIZE \<and> Suc i < nat (l_size s)"
  unfolding log_geom_def by linarith

lemma card_logged: "log_geom s \<Longrightarrow> lh_n s < l_size s \<Longrightarrow> card (set (logged s)) < NBUF"
  using card_length [of "logged s"] by (auto simp: logged_def log_geom_def param_defs)

definition log_writes :: "'z log_scheme \<Rightarrow> (u32 \<times> u8 list) list" where
  "log_writes s = map (\<lambda>i. (log_slot s i, bview s (lh_block s ! i))) [0..<nat (lh_n s)]"

text \<open>The loop bodies with the fields of the log read once.\<close>

lemma bread_log:
  assumes "bread dev blk s = Inr (b, v)"
  shows "l_dev v = l_dev s \<and> lh_n v = lh_n s \<and> lh_block v = lh_block s"
  using log_rest [OF bread_rest [OF assms]] by simp

lemma write_log_step_eq:
  assumes "i < LOGSIZE" "l_dev u = 1"
  shows "write_log_step i u = andthen (bread 1 (log_slot u i) u) (\<lambda>(b, v).
    andthen (bread 1 (lh_block u ! i) v) (\<lambda>(c, v).
      andthen (bwrite b (set_data b (bdata v c) v)) (\<lambda>v. andthen (brelse c v) (brelse b))))"
  unfolding write_log_step_def log_slot_def using assms
  by (simp, intro andthen_cong refl) (auto dest!: bread_log)

lemma install_step_eq:
  assumes "i < LOGSIZE" "l_dev u = 1"
  shows "install_step i u = andthen (bread 1 (log_slot u i) u) (\<lambda>(c, v).
    andthen (bread 1 (lh_block u ! i) v) (\<lambda>(b, v).
      andthen (bwrite b (set_data b (bdata v c) v)) (\<lambda>v. andthen (brelse c v) (brelse b))))"
  unfolding install_step_def log_slot_def using assms
  by (simp, intro andthen_cong refl) (auto dest!: bread_log)

lemma write_log_spec:
  assumes t: "txn_ok s" and h: "held s = Map.empty"
  shows "\<exists>s'. write_log s = Inr s' \<and> cache_ok s' \<and> babs s' = st_puts (log_writes s) (babs s) \<and> brest s' = brest s"
proof -
  have g: "log_geom s" and n: "lh_n s < l_size s" "0 \<le> lh_n s" and d: "dirty s = set (logged s)"
    and home: "\<And>blk. blk \<in> set (logged s) \<Longrightarrow> blk < disksize s \<and> blk \<notin> log_region s"
    using t by (auto simp: txn_ok_def log_ok_def)
  let ?P = "\<lambda>i u. cache_ok u \<and> babs u = st_puts (take i (log_writes s)) (babs s) \<and> brest u = brest s"
  have "\<exists>s'. each write_log_step [0..<nat (lh_n s)] s = Inr s' \<and> ?P (nat (lh_n s)) s'"
  proof (rule each_invariant)
    fix i u assume i: "i < nat (lh_n s)" and "?P i u"
    then have uo: "cache_ok u" and ua: "babs u = st_puts (take i (log_writes s)) (babs s)" and ur: "brest u = brest s"
      by simp_all
    let ?x = "log_slot s i" and ?y = "lh_block s ! i"
    have "i < LOGSIZE" "l_dev u = 1" "log_slot u i = ?x" "lh_block u = lh_block s"
      using log_index [OF g n(1) i] g by (simp_all add: log_geom_def log_slot_def log_rest [OF ur])
    note eq = write_log_step_eq [OF this(1,2), unfolded this(3,4)]
    have lg: "?y \<in> set (logged s)" using logged_nth [OF g n(1) i] by simp
    have xr: "?x \<in> log_region s" using log_index [OF g n(1) i] by (intro log_slot_region) simp
    have pre: "fst ` set (take i (log_writes s)) \<subseteq> log_region s"
      using i n by (auto simp: log_writes_def take_map intro!: log_slot_region)
    then have "?y \<notin> fst ` set (take i (log_writes s))" using home [OF lg] by blast
    then have yd: "?y \<in> dirty u" "bview u ?y = bview s ?y" "held u = Map.empty" "disksize u = disksize s"
      using lg h by (simp_all add: babs_puts [OF ua] apply_writes_notin d)
    have "card (dirty u) < NBUF"
      using card_logged [OF g n(1)] unfolding babs_puts [OF ua] d
      by (rule le_less_trans [OF card_mono, rotated -1]) auto
    then have "st_readable ?x (babs u)" using yd log_region_size [OF g xr] by (simp add: st_readable_def)
    moreover have "?x \<noteq> ?y" "?y < disksize u" using home [OF lg] xr yd by auto
    ultimately obtain u' where "write_log_step i u = Inr u'" "cache_ok u'"
        "babs u' = st_put ?x (bview s ?y) (babs u)" "brest u' = brest s"
      using bc.copy_first [OF uo, of ?x ?y] yd ur eq by auto
    moreover have "take (Suc i) (log_writes s) = take i (log_writes s) @ [(?x, bview s ?y)]"
      using i by (simp add: log_writes_def take_Suc_conv_app_nth)
    ultimately show "\<exists>s'. write_log_step i u = Inr s' \<and> ?P (Suc i) s'"
      by (simp add: st_puts_append ua)
  qed (use t in \<open>simp add: txn_ok_def log_ok_def\<close>)
  then show ?thesis by (simp add: write_log_def log_writes_def)
qed

definition install_writes :: "'z log_scheme \<Rightarrow> (u32 \<times> u8 list) list" where
  "install_writes s = map (\<lambda>i. (lh_block s ! i, bview s (log_slot s i))) [0..<nat (lh_n s)]"

lemma install_trans_spec:
  assumes lo: "log_ok s" and h: "held s = Map.empty"
    and d: "dirty s = {} \<or> distinct (logged s) \<and> dirty s = set (logged s)"
  shows "\<exists>s'. install_trans s = Inr s' \<and> cache_ok s' \<and> babs s' = st_puts (install_writes s) (babs s) \<and> brest s' = brest s"
proof -
  have g: "log_geom s" and n: "lh_n s < l_size s" "0 \<le> lh_n s"
    and home: "\<And>blk. blk \<in> set (logged s) \<Longrightarrow> blk < disksize s \<and> blk \<notin> log_region s"
    using lo by (auto simp: log_ok_def)
  let ?P = "\<lambda>i u. cache_ok u \<and> babs u = st_puts (take i (install_writes s)) (babs s) \<and> brest u = brest s"
  have "\<exists>s'. each install_step [0..<nat (lh_n s)] s = Inr s' \<and> ?P (nat (lh_n s)) s'"
  proof (rule each_invariant)
    fix i u assume i: "i < nat (lh_n s)" and "?P i u"
    then have uo: "cache_ok u" and ua: "babs u = st_puts (take i (install_writes s)) (babs s)" and ur: "brest u = brest s"
      by simp_all
    let ?y = "log_slot s i" and ?x = "lh_block s ! i"
    have "i < LOGSIZE" "l_dev u = 1" "log_slot u i = ?y" "lh_block u = lh_block s"
      using log_index [OF g n(1) i] g by (simp_all add: log_geom_def log_slot_def log_rest [OF ur])
    note eq = install_step_eq [OF this(1,2), unfolded this(3,4)]
    have lg: "?x \<in> set (logged s)" using logged_nth [OF g n(1) i] by simp
    have yr: "?y \<in> log_region s" using log_index [OF g n(1) i] by (intro log_slot_region) simp
    have pre: "fst ` set (take i (install_writes s)) = set (take i (logged s))"
    proof -
      have "map fst (take i (install_writes s)) = take i (logged s)"
        using i logged_nth [OF g n(1)] by (intro nth_equalityI) (auto simp: install_writes_def take_map)
      then show ?thesis by (metis list.set_map)
    qed
    note u = babs_puts [OF ua, unfolded pre h]
    have yd: "bview u ?y = bview s ?y"
      unfolding u using yr home pre by (intro apply_writes_notin) (auto dest: in_set_takeD)
    have "card (dirty u) < NBUF"
      using d card_logged [OF g n(1)] unfolding u
      by (elim disjE conjE) (simp_all add: param_defs le_less_trans [OF card_mono [OF _ Diff_subset]])
    then have "st_readable ?y (babs u)" using u log_region_size [OF g yr] by (simp add: st_readable_def)
    moreover have "?x \<in> dirty u \<or> card (insert ?y (dirty u)) < NBUF"
      using d
    proof
      assume dl: "distinct (logged s) \<and> dirty s = set (logged s)"
      have "take i (logged s) @ [?x] = take (Suc i) (logged s)"
        using logged_nth [OF g n(1) i] by (simp add: take_Suc_conv_app_nth)
      with dl have "?x \<notin> set (take i (logged s))"
        by (metis distinct_take not_distinct_conv_prefix)
      then show ?thesis using dl lg unfolding u by simp
    qed (simp add: u param_defs)
    moreover have "?y \<noteq> ?x" "?x < disksize u" using home [OF lg] yr u by auto
    ultimately obtain u' where "install_step i u = Inr u'" "cache_ok u'"
        "babs u' = st_put ?x (bview s ?y) (babs u)" "brest u' = brest s"
      using bc.copy_second [OF uo, of ?y ?x] yd u ur eq by auto
    moreover have "take (Suc i) (install_writes s) = take i (install_writes s) @ [(?x, bview s ?y)]"
      using i by (simp add: install_writes_def take_Suc_conv_app_nth)
    ultimately show "\<exists>s'. install_step i u = Inr s' \<and> ?P (Suc i) s'"
      by (simp add: st_puts_append ua)
  qed (use lo in \<open>simp add: log_ok_def\<close>)
  then show ?thesis by (simp add: install_trans_def install_writes_def)
qed

lemma start_readable:
  assumes "log_geom s" "held s = Map.empty" "card (dirty s) < NBUF"
  shows "st_readable (l_start s) (babs s)"
  using assms log_region_size [OF assms(1) start_region] by (simp add: st_readable_def)

definition head_write :: "'z log_scheme \<Rightarrow> u32 \<times> u8 list" where
  "head_write s = (l_start s, encode_head (lh_n s) (lh_block s) (bview s (l_start s)))"

lemma write_head_spec:
  assumes "cache_ok s" "log_geom s" "held s = Map.empty" "card (dirty s) < NBUF" "0 \<le> lh_n s" "lh_n s \<le> int LOGSIZE"
  shows "\<exists>s'. write_head s = Inr s' \<and> cache_ok s' \<and> babs s' = st_puts [head_write s] (babs s) \<and> brest s' = brest s"
proof -
  have l: "l_dev s = 1" using assms(2) by (simp add: log_geom_def)
  obtain b s1 where 1: "bread 1 (l_start s) s = Inr (b, s1)" "cache_ok s1"
      "babs s1 = st_take (l_start s) b (babs s)" "brest s1 = brest s"
    using bc.rd [OF assms(1) start_readable [OF assms(2-4)]] by blast
  have h: "st_held (babs s1) (l_start s) = Some b" unfolding 1(3) by (simp add: st_take_def)
  have d: "bdata s1 b = bview s (l_start s)" using bc.dat [OF 1(2) h] by (simp only: 1(3)) (simp add: st_take_def)
  let ?e = "encode_head (lh_n s) (lh_block s) (bdata s1 b)"
  have "length ?e = BSIZE" using assms(5,6) view_length [OF assms(1)] by (simp add: d encode_head)
  from bc.put_rel [OF 1(2) h this] obtain s2 s' where 2: "bwrite b (set_data b ?e s1) = Inr s2"
    "brelse b s2 = Inr s'" "cache_ok s'" "babs s' = st_drop (l_start s) (st_put (l_start s) ?e (babs s1))"
    "brest s' = brest s1" by blast
  have "st_drop (l_start s) (st_put (l_start s) ?e (babs s1)) = st_puts [head_write s] (babs s)"
    using assms(3) by (simp add: 1(3) d head_write_def st_defs)
  then show ?thesis
    using 1 2 l assms(6) log_rest [OF 1(4)] by (simp add: write_head_def)
qed

lemma fold_update_nth:
  "m \<le> length xs \<Longrightarrow> length (fold (\<lambda>i xs. xs[i := f i]) [0..<m] xs) = length xs \<and>
   take m (fold (\<lambda>i xs. xs[i := f i]) [0..<m] xs) = map f [0..<m]"
  by (induction m) (auto simp: take_Suc_conv_app_nth take_update_cancel)

lemma read_head_spec:
  assumes "cache_ok s" "log_geom s" "held s = Map.empty" "dirty s = {}"
    "head_n (memdisk s (l_start s)) \<le> int LOGSIZE"
  shows "\<exists>s' bl. read_head s = Inr s' \<and> cache_ok s' \<and> babs s' = babs s \<and>
    brest s' = brest (s\<lparr>lh_n := head_n (memdisk s (l_start s)), lh_block := bl\<rparr>) \<and> length bl = LOGSIZE \<and>
    take (nat (head_n (memdisk s (l_start s)))) bl = map (head_block (memdisk s (l_start s))) [0..<nat (head_n (memdisk s (l_start s)))]"
proof -
  let ?d = "memdisk s (l_start s)"
  have l: "l_dev s = 1" "length (lh_block s) = LOGSIZE" using assms(2) by (auto simp: log_geom_def)
  have v: "bview s (l_start s) = ?d" using assms(3,4) by (intro clean_view [OF assms(1)]) simp_all
  obtain b s1 where 1: "bread 1 (l_start s) s = Inr (b, s1)" "cache_ok s1"
      "babs s1 = st_take (l_start s) b (babs s)" "brest s1 = brest s"
    using bc.rd [OF assms(1) start_readable [OF assms(2,3)]] assms(4) by (auto simp: param_defs)
  have h: "st_held (babs s1) (l_start s) = Some b" unfolding 1(3) by (simp add: st_take_def)
  have d: "bdata s1 b = ?d" using bc.dat [OF 1(2) h] by (simp only: 1(3)) (simp add: st_take_def v)
  let ?bl = "fold (\<lambda>i bl. bl[i := head_block ?d i]) [0..<nat (head_n ?d)] (lh_block s)"
  let ?s1 = "s1\<lparr>lh_n := head_n ?d, lh_block := ?bl\<rparr>"
  have "st_view (babs s1) (l_start s) = st_disk (babs s1) (l_start s)" unfolding 1(3) by (simp add: st_take_def v)
  then obtain s' where 2: "brelse b ?s1 = Inr s'" "cache_ok s'" "babs s' = st_drop (l_start s) (babs s1)"
      "brest s' = brest ?s1"
    using bc.rel [of ?s1 "l_start s" b] h 1(2) by auto
  have "st_drop (l_start s) (babs s1) = babs s" using assms(3) by (simp add: 1(3) st_defs)
  moreover have "brest ?s1 = brest (s\<lparr>lh_n := head_n ?d, lh_block := ?bl\<rparr>)"
    by (intro log_fields_rest 1(4))
  moreover have "length ?bl = LOGSIZE \<and> take (nat (head_n ?d)) ?bl = map (head_block ?d) [0..<nat (head_n ?d)]"
    using fold_update_nth [of "nat (head_n ?d)" "lh_block s" "head_block ?d"] l assms(5) by simp
  ultimately show ?thesis
    using 1 2 l assms(5) log_rest [OF 1(4)] by (auto simp: read_head_def d Let_def)
qed

section \<open>Commit\<close>

lemma log_frame:
  assumes "brest s' = brest s"
  shows "log_slot s' = log_slot s" "log_region s' = log_region s" "logged s' = logged s"
    "disksize s' = disksize s \<Longrightarrow> log_geom s' = log_geom s"
  by (simp_all add: fun_eq_iff log_slot_def log_region_def logged_def log_geom_def log_rest [OF assms])

definition home_writes :: "'z log_scheme \<Rightarrow> (u32 \<times> u8 list) list" where
  "home_writes s = map (\<lambda>i. (lh_block s ! i, bview s (lh_block s ! i))) [0..<nat (lh_n s)]"

definition clear_write :: "'z log_scheme \<Rightarrow> u32 \<times> u8 list" where
  "clear_write s = (l_start s, encode_head 0 (lh_block s) (snd (head_write s)))"

definition commit_writes :: "'z log_scheme \<Rightarrow> (u32 \<times> u8 list) list" where
  "commit_writes s = (if lh_n s > 0 then log_writes s @ head_write s # home_writes s @ [clear_write s] else [])"

lemma log_writes_fst: "fst ` set (log_writes s) = log_slot s ` {..<nat (lh_n s)}"
  by (force simp: log_writes_def)

lemma log_writes_region:
  "log_geom s \<Longrightarrow> lh_n s < l_size s \<Longrightarrow> fst ` set (log_writes s) \<subseteq> log_region s - {l_start s}"
  using log_index [of s] by (auto simp: log_writes_fst log_slot_region log_slot_start)

lemma distinct_log_writes:
  "log_geom s \<Longrightarrow> lh_n s < l_size s \<Longrightarrow> distinct (map fst (log_writes s))"
  using log_index [of s] log_slot_inj [of s] by (auto simp: log_writes_def distinct_map inj_on_def o_def)

lemma home_writes_fst:
  assumes "log_geom s" "lh_n s < l_size s"
  shows "map fst (home_writes s) = logged s"
  using logged_nth [OF assms] assms by (intro nth_equalityI) (auto simp: home_writes_def logged_def log_geom_def)

lemma home_writes_set:
  "log_geom s \<Longrightarrow> lh_n s < l_size s \<Longrightarrow> fst ` set (home_writes s) = set (logged s)"
  by (metis home_writes_fst list.set_map)

lemma slot_view:
  assumes "log_geom s" "lh_n s < l_size s" "i < nat (lh_n s)"
  shows "apply_writes (log_writes s) d (log_slot s i) = bview s (lh_block s ! i)"
  using assms by (intro apply_writes_in distinct_log_writes) (auto simp: log_writes_def)

lemma commit_spec:
  assumes t: "txn_ok s" and h: "held s = Map.empty"
  shows "\<exists>s'. commit s = Inr s' \<and> cache_ok s' \<and> babs s' = st_puts (commit_writes s) (babs s) \<and>
    brest s' = brest (s\<lparr>lh_n := 0\<rparr>)"
proof (cases "lh_n s > 0")
  case False
  then have "lh_n s = 0" using t by (simp add: txn_ok_def log_ok_def)
  then have "s\<lparr>lh_n := 0\<rparr> = s" by (cases s) simp
  moreover have "cache_ok s" using t by (simp add: txn_ok_def log_ok_def)
  ultimately show ?thesis using False by (simp add: commit_def commit_writes_def)
next
  case True
  have c: "cache_ok s" and g: "log_geom s" and n: "lh_n s < l_size s" "0 \<le> lh_n s" and d: "dirty s = set (logged s)"
    and home: "\<And>blk. blk \<in> set (logged s) \<Longrightarrow> blk < disksize s \<and> blk \<notin> log_region s"
    and dist: "distinct (logged s)"
    using t by (auto simp: txn_ok_def log_ok_def)
  have nl: "lh_n s \<le> int LOGSIZE" using n g by (simp add: log_geom_def)
  note sr = start_region [OF g]
  obtain s1 where 1: "write_log s = Inr s1" "cache_ok s1" "babs s1 = st_puts (log_writes s) (babs s)" "brest s1 = brest s"
    using write_log_spec [OF t h] by blast
  note a1 = babs_puts [OF 1(3)] log_rest [OF 1(4)] log_frame [OF 1(4)]
  have d1: "dirty s1 = set (logged s)" using log_writes_region [OF g n(1)] home by (auto simp: a1 d)
  have hw: "head_write s1 = head_write s"
    using log_writes_region [OF g n(1)] by (auto simp: head_write_def a1 intro!: arg_cong [of _ _ "encode_head _ _"] apply_writes_notin)
  have "log_geom s1" using g a1 by simp
  moreover have "held s1 = Map.empty" "card (dirty s1) < NBUF" "0 \<le> lh_n s1" "lh_n s1 \<le> int LOGSIZE"
    using h card_logged [OF g n(1)] n nl by (simp_all add: d1 a1)
  ultimately obtain s2 where 2: "write_head s1 = Inr s2" "cache_ok s2" "babs s2 = st_puts [head_write s] (babs s1)" "brest s2 = brest s"
    using write_head_spec [OF 1(2)] 1(4) hw by auto
  note a2 = babs_puts [OF 2(3)] log_rest [OF 2(4)] log_frame [OF 2(4)]
  have d2: "dirty s2 = set (logged s)" using home sr by (auto simp: a2 d1 head_write_def)
  have "log_ok s2" using g n home a1 a2 2(2) by (auto simp: log_ok_def)
  from install_trans_spec [OF this] obtain s3 where 3: "install_trans s2 = Inr s3" "cache_ok s3"
      "babs s3 = st_puts (install_writes s2) (babs s2)" "brest s3 = brest s"
    using h d2 dist 2(4) by (auto simp: a1 a2)
  have iw: "install_writes s2 = home_writes s"
    using slot_view [OF g n(1)] log_index [OF g n(1)] log_slot_start [OF g]
    by (auto simp: install_writes_def home_writes_def a2 a1 head_write_def)
  note a3 = babs_puts [OF 3(3) [unfolded iw]] log_rest [OF 3(4)] log_frame [OF 3(4)]
  let ?s3 = "s3\<lparr>lh_n := 0\<rparr>"
  have fs: "fst ` set (home_writes s) = set (logged s)"
    by (rule home_writes_set [OF g n(1)])
  have "log_geom ?s3" using g a1 a2 a3 by (simp add: log_geom_def)
  moreover have "held ?s3 = Map.empty" "dirty ?s3 = {}"
    using h d2 fs by (simp_all add: a3 a2 a1)
  moreover have "head_write ?s3 = clear_write s"
  proof -
    have "l_start s \<notin> set (logged s)" using home sr by blast
    then show ?thesis by (simp add: head_write_def clear_write_def a3 a2 a1 apply_writes_notin fs)
  qed
  ultimately obtain s4 where 4: "write_head ?s3 = Inr s4" "cache_ok s4" "babs s4 = st_puts [clear_write s] (babs s3)"
      "brest s4 = brest ?s3"
    using write_head_spec [of ?s3] 3(2) by (auto simp: param_defs)
  have "babs s4 = st_puts (commit_writes s) (babs s)"
    using True by (simp add: commit_writes_def 4 3 2 1 iw st_puts_def del: apply_writes_Cons)
  moreover have "brest s4 = brest (s\<lparr>lh_n := 0\<rparr>)" using 4(4) log_fields_rest(1) [OF 3(4)] by simp
  ultimately show ?thesis using 1 2 3 4 True by (auto simp: commit_def)
qed

section \<open>Recovery\<close>

definition valid_head :: "'z log_scheme \<Rightarrow> (u32 \<Rightarrow> u8 list) \<Rightarrow> bool" where
  "valid_head s d \<longleftrightarrow> 0 \<le> head_n (d (l_start s)) \<and> head_n (d (l_start s)) < l_size s \<and>
     (\<forall>i < nat (head_n (d (l_start s))).
        head_block (d (l_start s)) i < disksize s \<and> head_block (d (l_start s)) i \<notin> log_region s)"

definition recover_writes :: "'z log_scheme \<Rightarrow> (u32 \<Rightarrow> u8 list) \<Rightarrow> (u32 \<times> u8 list) list" where
  "recover_writes s d =
     map (\<lambda>i. (head_block (d (l_start s)) i, d (log_slot s i))) [0..<nat (head_n (d (l_start s)))] @
     [(l_start s, put32 0 0 (d (l_start s)))]"

lemma encode_head_0: "encode_head 0 bl d = put32 0 0 d"
  by (simp add: encode_head_def)

lemma recover_spec:
  assumes c: "cache_ok s" and g: "log_geom s" and h: "held s = Map.empty" and d: "dirty s = {}"
    and v: "valid_head s (memdisk s)"
  shows "\<exists>s' bl. recover_from_log s = Inr s' \<and> cache_ok s' \<and> length bl = LOGSIZE \<and>
    babs s' = st_puts (recover_writes s (memdisk s)) (babs s) \<and> brest s' = brest (s\<lparr>lh_n := 0, lh_block := bl\<rparr>)"
proof -
  let ?h = "memdisk s (l_start s)"
  have n: "0 \<le> head_n ?h" "head_n ?h < l_size s" using v by (auto simp: valid_head_def)
  have nl: "head_n ?h \<le> int LOGSIZE" using n g by (simp add: log_geom_def)
  from read_head_spec [OF c g h d nl] obtain s1 bl where 1: "read_head s = Inr s1" "cache_ok s1" "babs s1 = babs s"
      "brest s1 = brest (s\<lparr>lh_n := head_n ?h, lh_block := bl\<rparr>)" "length bl = LOGSIZE"
      "take (nat (head_n ?h)) bl = map (head_block ?h) [0..<nat (head_n ?h)]" by blast
  have a1: "bview s1 = bview s" "memdisk s1 = memdisk s" "disksize s1 = disksize s" "dirty s1 = dirty s" "held s1 = held s"
    using babs_puts [of s1 "[]" s] 1(3) by simp_all
  note l1 = log_rest [OF 1(4), simplified]
  have bl: "bl ! i = head_block ?h i" if "i < nat (head_n ?h)" for i
    using that arg_cong [OF 1(6), of "\<lambda>xs. xs ! i"] 1(5) nl by simp
  have lg: "logged s1 = map (head_block ?h) [0..<nat (head_n ?h)]" by (simp add: logged_def l1 1(6))
  have "log_geom s1" "log_region s1 = log_region s" "log_slot s1 = log_slot s"
    using g 1(5) by (simp_all add: log_geom_def log_region_def log_slot_def l1 a1 fun_eq_iff)
  note f1 = this
  have "log_ok s1" using 1(2) f1 n v by (auto simp: log_ok_def lg l1 a1 valid_head_def)
  from install_trans_spec [OF this] obtain s2 where 2: "install_trans s1 = Inr s2" "cache_ok s2"
      "babs s2 = st_puts (install_writes s1) (babs s)" "brest s2 = brest s1"
    using h d 1(3) by (auto simp: a1)
  have view: "bview s blk = memdisk s blk" for blk using clean_view [OF c] h d by simp
  have iw: "install_writes s1 = map (\<lambda>i. (head_block ?h i, memdisk s (log_slot s i))) [0..<nat (head_n ?h)]"
    using bl by (simp add: install_writes_def l1 a1 f1 view)
  note a2 = babs_puts [OF 2(3)] log_rest [OF 2(4)]
  have ls: "l_start s \<notin> fst ` set (install_writes s1)"
    using v start_region [OF g] by (auto simp: iw valid_head_def)
  let ?s2 = "s2\<lparr>lh_n := 0\<rparr>"
  have "log_geom ?s2" using g 1(5) by (simp add: log_geom_def a2 l1)
  moreover have "held ?s2 = Map.empty" "dirty ?s2 = {}" using h d by (simp_all add: a2)
  ultimately obtain s3 where 3: "write_head ?s2 = Inr s3" "cache_ok s3" "babs s3 = st_puts [head_write ?s2] (babs s2)"
      "brest s3 = brest ?s2"
    using write_head_spec [of ?s2] 2(2) by (auto simp: param_defs)
  have "head_write ?s2 = (l_start s, put32 0 0 ?h)"
    using ls by (simp add: head_write_def a2 l1 encode_head_0 apply_writes_notin view)
  then have "babs s3 = st_puts (recover_writes s (memdisk s)) (babs s)"
    by (simp add: 3(3) 2(3) iw recover_writes_def st_puts_append)
  moreover have "brest s3 = brest (s\<lparr>lh_n := 0, lh_block := bl\<rparr>)"
  proof -
    have e: "s\<lparr>lh_block := bl, lh_n := 0\<rparr> = s\<lparr>lh_n := 0, lh_block := bl\<rparr>" by (cases s) simp
    show ?thesis
      unfolding e [symmetric] using 3(4) log_fields_rest(1) [OF 2(4)] log_fields_rest(1) [OF 1(4), of "\<lambda>_. 0"] by simp
  qed
  ultimately show ?thesis using 1(1,5) 2(1) 3(1,2) by (auto simp: recover_from_log_def)
qed

text \<open>The states after a crash: the disk as the writes so far have left it.\<close>

lemma valid_head_empty: "log_geom s \<Longrightarrow> head_n (d (l_start s)) = 0 \<Longrightarrow> valid_head s d"
  by (simp add: valid_head_def log_geom_def)

lemma apply_writes_map:
  assumes "\<And>i. i < n \<Longrightarrow> f i = blk \<Longrightarrow> g i = x" "\<forall>i < n. f i \<noteq> blk \<Longrightarrow> e blk = x"
  shows "apply_writes (map (\<lambda>i. (f i, g i)) [0..<n]) e blk = x"
  using assms
proof (induction n)
  case (Suc n)
  then show ?case by (cases "f n = blk") (auto simp: less_Suc_eq)
qed simp

lemma recover_disk_home:
  assumes "valid_head s d" "log_geom s" "blk \<notin> log_region s"
    "\<And>i. i < nat (head_n (d (l_start s))) \<Longrightarrow> head_block (d (l_start s)) i = blk \<Longrightarrow> d (log_slot s i) = x"
    "(\<forall>i < nat (head_n (d (l_start s))). head_block (d (l_start s)) i \<noteq> blk) \<Longrightarrow> d blk = x"
  shows "apply_writes (recover_writes s d) d blk = x"
proof -
  have "apply_writes (map (\<lambda>i. (head_block (d (l_start s)) i, d (log_slot s i))) [0..<nat (head_n (d (l_start s)))]) d blk = x"
    by (rule apply_writes_map) (use assms(4,5) in blast)+
  then show ?thesis
    using assms(3) start_region [OF assms(2)] by (auto simp: recover_writes_def)
qed

definition crash_disk :: "'z log_scheme \<Rightarrow> nat \<Rightarrow> u32 \<Rightarrow> u8 list" where
  "crash_disk s k = apply_writes (take k (commit_writes s)) (memdisk s)"

text \<open>The disk between the write of the header and the end of the commit.\<close>

definition mid_disk :: "'z log_scheme \<Rightarrow> nat \<Rightarrow> u32 \<Rightarrow> u8 list" where
  "mid_disk s j = apply_writes (take j (home_writes s)) (apply_writes (log_writes s @ [head_write s]) (memdisk s))"

lemma length_writes [simp]: "length (log_writes s) = nat (lh_n s)" "length (home_writes s) = nat (lh_n s)"
  by (simp_all add: log_writes_def home_writes_def)

lemma crash_cases:
  assumes "lh_n s > 0"
  shows "k \<le> nat (lh_n s) \<Longrightarrow> crash_disk s k = apply_writes (take k (log_writes s)) (memdisk s)"
    "nat (lh_n s) < k \<Longrightarrow> k \<le> 2 * nat (lh_n s) + 1 \<Longrightarrow> crash_disk s k = mid_disk s (k - Suc (nat (lh_n s)))"
    "2 * nat (lh_n s) + 1 < k \<Longrightarrow> crash_disk s k = apply_writes [clear_write s] (mid_disk s (nat (lh_n s)))"
  unfolding crash_disk_def mid_disk_def commit_writes_def apply_writes_def
  using assms by (simp_all add: take_Cons')

lemma mid_disk:
  assumes t: "txn_ok s"
  shows "mid_disk s j (l_start s) = snd (head_write s)"
    "\<And>i. i < nat (lh_n s) \<Longrightarrow> mid_disk s j (log_slot s i) = bview s (lh_block s ! i)"
    "\<And>blk. blk \<notin> log_region s \<Longrightarrow> blk \<notin> set (logged s) \<Longrightarrow> mid_disk s j blk = memdisk s blk"
    "\<And>blk. blk \<in> set (logged s) \<Longrightarrow> nat (lh_n s) \<le> j \<Longrightarrow> mid_disk s j blk = bview s blk"
proof -
  have g: "log_geom s" and n: "lh_n s < l_size s" and dist: "distinct (logged s)"
    and home: "\<And>blk. blk \<in> set (logged s) \<Longrightarrow> blk < disksize s \<and> blk \<notin> log_region s"
    using t by (auto simp: txn_ok_def log_ok_def)
  have f: "map fst (home_writes s) = logged s" by (rule home_writes_fst [OF g n])
  have pre: "fst ` set (take j (home_writes s)) \<subseteq> set (logged s)"
    unfolding f [symmetric] list.set_map by (rule image_mono [OF set_take_subset])
  have hs: "fst (head_write s) = l_start s" by (simp add: head_write_def)
  have notin: "mid_disk s j blk = apply_writes (log_writes s @ [head_write s]) (memdisk s) blk" if "blk \<notin> set (logged s)" for blk
    unfolding mid_disk_def using that pre by (intro apply_writes_notin) blast
  have reg: "blk \<notin> set (logged s)" if "blk \<in> log_region s" for blk using that home by blast
  show "mid_disk s j (l_start s) = snd (head_write s)"
    using notin [OF reg [OF start_region [OF g]]] by (simp add: head_write_def)
  show "mid_disk s j (log_slot s i) = bview s (lh_block s ! i)" if i: "i < nat (lh_n s)" for i
    using notin [OF reg [OF log_slot_region]] log_index [OF g n i] log_slot_start [OF g] slot_view [OF g n i]
    by (simp add: head_write_def)
  show "mid_disk s j blk = memdisk s blk" if "blk \<notin> log_region s" "blk \<notin> set (logged s)" for blk
  proof -
    have "blk \<notin> fst ` set (log_writes s)" "blk \<noteq> l_start s"
      using that(1) log_writes_region [OF g n] start_region [OF g] by auto
    then show ?thesis using notin [OF that(2)] by (simp add: head_write_def apply_writes_notin)
  qed
  show "mid_disk s j blk = bview s blk" if "blk \<in> set (logged s)" "nat (lh_n s) \<le> j" for blk
  proof -
    have "(blk, bview s blk) \<in> set (home_writes s)"
      using that(1) unfolding f [symmetric] by (auto simp: home_writes_def)
    then show ?thesis using that(2) dist f by (simp add: mid_disk_def apply_writes_in)
  qed
qed

lemma crash_recover:
  assumes t: "txn_ok s" and h: "held s = Map.empty" and z: "head_n (memdisk s (l_start s)) = 0"
  shows "valid_head s (crash_disk s k) \<and>
    (\<forall>blk. blk \<notin> log_region s \<longrightarrow> apply_writes (recover_writes s (crash_disk s k)) (crash_disk s k) blk =
      (if k \<le> nat (lh_n s) then memdisk s blk else bview s blk))"
proof -
  have c: "cache_ok s" and g: "log_geom s" and n: "0 \<le> lh_n s" "lh_n s < l_size s" "lh_n s \<le> int LOGSIZE"
    and d: "dirty s = set (logged s)"
    and home: "\<And>blk. blk \<in> set (logged s) \<Longrightarrow> blk < disksize s \<and> blk \<notin> log_region s"
    using t by (auto simp: txn_ok_def log_ok_def log_geom_def)
  have clean: "bview s blk = memdisk s blk" if "blk \<notin> set (logged s)" for blk
    using that clean_view [OF c] h d by simp
  have empty: ?thesis if "head_n (crash_disk s k (l_start s)) = 0"
    "\<And>blk. blk \<notin> log_region s \<Longrightarrow> crash_disk s k blk = (if k \<le> nat (lh_n s) then memdisk s blk else bview s blk)"
    using that valid_head_empty [of s "crash_disk s k", OF g] recover_disk_home [of s "crash_disk s k", OF _ g] by auto
  have len: "length (bview s (l_start s)) = BSIZE" by (rule view_length [OF c])
  note enc = encode_head [OF n(1,3) len, where block = "lh_block s"]
  consider "lh_n s = 0" | "lh_n s > 0" "k \<le> nat (lh_n s)" | "lh_n s > 0" "nat (lh_n s) < k" "k \<le> 2 * nat (lh_n s) + 1"
    | "lh_n s > 0" "2 * nat (lh_n s) + 1 < k" using n by linarith
  then show ?thesis
  proof cases
    case 1
    then have "crash_disk s k = memdisk s" by (simp add: crash_disk_def commit_writes_def)
    with 1 z clean show ?thesis by (intro empty) (auto simp: logged_def)
  next
    case 2
    have "fst ` set (take k (log_writes s)) \<subseteq> log_region s - {l_start s}"
      using log_writes_region [OF g n(2)] set_take_subset [of k "log_writes s"] by blast
    then have "crash_disk s k blk = memdisk s blk" if "blk \<notin> log_region s \<or> blk = l_start s" for blk
      unfolding crash_cases(1) [OF 2] using that by (intro apply_writes_notin) blast
    then show ?thesis using 2 z by (intro empty) auto
  next
    case 3
    let ?d = "mid_disk s (k - Suc (nat (lh_n s)))"
    note m = mid_disk [OF t, where j = "k - Suc (nat (lh_n s))"]
    have hd: "head_n (?d (l_start s)) = lh_n s" "\<And>i. i < nat (lh_n s) \<Longrightarrow> head_block (?d (l_start s)) i = lh_block s ! i"
      using enc by (simp_all add: m(1) head_write_def)
    have "valid_head s ?d" using hd n home logged_nth [OF g n(2)] by (auto simp: valid_head_def)
    moreover have "apply_writes (recover_writes s ?d) ?d blk = bview s blk" if "blk \<notin> log_region s" for blk
    proof (rule recover_disk_home [OF \<open>valid_head s ?d\<close> g that])
      assume no: "\<forall>i < nat (head_n (?d (l_start s))). head_block (?d (l_start s)) i \<noteq> blk"
      have "blk \<notin> set (logged s)"
      proof
        assume "blk \<in> set (logged s)"
        then obtain i where "i < nat (lh_n s)" "blk = lh_block s ! i"
          by (auto simp: logged_def in_set_conv_nth)
        with no hd show False by auto
      qed
      then show "?d blk = bview s blk" using m(3) [OF that] clean by simp
    qed (use hd m(2) in auto)
    ultimately show ?thesis using crash_cases(2) [OF 3] 3 by simp
  next
    case 4
    have cd: "crash_disk s k = (mid_disk s (nat (lh_n s)))(l_start s := encode_head 0 (lh_block s) (snd (head_write s)))"
      using crash_cases(3) [OF 4] by (simp add: clear_write_def)
    have "head_n (encode_head 0 (lh_block s) (snd (head_write s))) = 0"
      using encode_head(2) [of 0] enc(1) by (simp add: head_write_def)
    moreover have "crash_disk s k blk = bview s blk" if "blk \<notin> log_region s" for blk
      using that start_region [OF g] mid_disk(3,4) [OF t, where j = "nat (lh_n s)" and blk = blk] clean [of blk]
      by (cases "blk \<in> set (logged s)") (auto simp: cd)
    ultimately show ?thesis using 4 by (intro empty) (auto simp: cd)
  qed
qed

section \<open>Booting\<close>

lemma binit_step_fields [simp]:
  "b_flags (binit_step b c i) = b_flags (c i)" "b_dev (binit_step b c i) = b_dev (c i)"
  "b_blockno (binit_step b c i) = b_blockno (c i)" "b_refcnt (binit_step b c i) = b_refcnt (c i)"
  "b_data (binit_step b c i) = b_data (c i)"
  "b_lock (binit_step b c i) = (if i = b then initsleeplock ''buffer'' (b_lock (c b)) else b_lock (c i))"
  by (simp_all add: binit_step_def Let_def)

lemma binit_fold_fields:
  "b_flags (fold binit_step bs c i) = b_flags (c i) \<and> b_dev (fold binit_step bs c i) = b_dev (c i) \<and>
   b_blockno (fold binit_step bs c i) = b_blockno (c i) \<and> b_refcnt (fold binit_step bs c i) = b_refcnt (c i) \<and>
   b_data (fold binit_step bs c i) = b_data (c i) \<and>
   (is_locked (fold binit_step bs c i) \<longrightarrow> is_locked (c i))"
proof (induction bs arbitrary: c)
  case (Cons b bs)
  from this [of "binit_step b c"] show ?case by (auto simp: initsleeplock_def split: if_splits)
qed simp

lemma cache_ok_binit:
  assumes "\<And>i. i < NBUF \<Longrightarrow> b_flags (bcache s i) = 0 \<and> b_dev (bcache s i) = 0 \<and> b_refcnt (bcache s i) = 0 \<and>
      \<not> is_locked (bcache s i)" "\<And>blk. length (memdisk s blk) = BSIZE"
  shows "cache_ok (binit s) \<and> held (binit s) = Map.empty \<and> dirty (binit s) = {}"
proof -
  have f: "b_flags (bcache (binit s) i) = 0" "b_dev (bcache (binit s) i) = 0" "b_refcnt (bcache (binit s) i) = 0"
    "\<not> is_locked (bcache (binit s) i)" if "i < NBUF" for i
    using assms(1) [OF that] binit_fold_fields [of "[0..<NBUF]" "set_next HEAD HEAD (set_prev HEAD HEAD (bcache s))" i]
    by (auto simp: binit_def Let_def)
  have fl: "\<not> is_valid (bcache (binit s) i)" "\<not> is_dirty (bcache (binit s) i)" if "i < NBUF" for i
    using f(1) [OF that] by (simp_all add: is_valid_def is_dirty_def)
  have "length (memdisk (binit s) blk) = BSIZE" for blk using assms(2) by (simp add: binit_def Let_def)
  then have "cache_ok (binit s)"
    unfolding cache_ok_def using lru_list_binit [of s] f fl
    by (intro conjI exI [of _ "rev [0..<NBUF]"]) (auto simp: buf_ok_def)
  moreover have "held (binit s) = Map.empty" using f(4) by (auto simp: fun_eq_iff held_None)
  moreover have "dirty (binit s) = {}" using fl by (auto simp: dirty_def)
  ultimately show ?thesis by simp
qed

text \<open>
  The state in which \<open>initlog\<close> runs after power on: the static data of the kernel is zero,
  \<open>binit\<close> has linked the buffers, and the disk is as the last run has left it.
\<close>

definition zero_buf :: buf where
  "zero_buf = \<lparr>b_flags = 0, b_dev = 0, b_blockno = 0, b_lock = \<lparr>sl_locked = False, sl_name = [], sl_pid = 0\<rparr>,
     b_refcnt = 0, b_prev = 0, b_next = 0, b_data = replicate BSIZE 0\<rparr>"

definition power_on :: "(u32 \<Rightarrow> u8 list) \<Rightarrow> u32 \<Rightarrow> log" where
  "power_on disk nblk = binit
     \<lparr>memdisk = disk, disksize = nblk, bcache = (\<lambda>_. zero_buf), cur_pid = 0, bio_writes = [],
      l_start = 0, l_size = 0, l_outstanding = 0, l_committing = False, l_dev = 0, lh_n = 0,
      lh_block = replicate LOGSIZE 0\<rparr>"

lemma power_on:
  assumes "\<And>blk. length (d blk) = BSIZE"
  shows "cache_ok (power_on d n)" "held (power_on d n) = Map.empty" "dirty (power_on d n) = {}"
    "memdisk (power_on d n) = d" "disksize (power_on d n) = n" "length (lh_block (power_on d n)) = LOGSIZE"
    "bio_writes (power_on d n) = []" "l_outstanding (power_on d n) = 0" "\<not> l_committing (power_on d n)"
  using cache_ok_binit [of "\<lparr>memdisk = d, disksize = n, bcache = (\<lambda>_. zero_buf), cur_pid = 0, bio_writes = [],
      l_start = 0, l_size = 0, l_outstanding = 0, l_committing = False, l_dev = 0, lh_n = 0,
      lh_block = replicate LOGSIZE 0\<rparr>"] assms
  by (simp_all add: power_on_def zero_buf_def) (simp_all add: binit_def Let_def)

text \<open>The super block of a disk describes the log of the running system.\<close>

definition sb_describes :: "(u32 \<Rightarrow> u8 list) \<Rightarrow> 'z log_scheme \<Rightarrow> bool" where
  "sb_describes d s \<longleftrightarrow> 1 < disksize s \<and> 1 \<notin> log_region s \<and>
     sb_logstart (decode_sb (d 1)) = l_start s \<and> sint (sb_nlog (decode_sb (d 1))) = l_size s"

lemma initlog_recovers:
  assumes g: "log_geom s" and len: "\<And>blk. length (d blk) = BSIZE" and sb: "sb_describes d s" and v: "valid_head s d"
  shows "\<exists>r. initlog 1 (power_on d (disksize s)) = Inr r \<and> cache_ok r \<and>
    bio_writes r = recover_writes s d \<and> memdisk r = apply_writes (recover_writes s d) d \<and>
    lh_n r = 0 \<and> dirty r = {} \<and> held r = Map.empty \<and> log_geom r \<and> disksize r = disksize s \<and>
    l_start r = l_start s \<and> l_size r = l_size s \<and> l_outstanding r = 0 \<and> \<not> l_committing r"
proof -
  let ?p = "power_on d (disksize s)"
  note p = power_on [of d, OF len, where n = "disksize s"]
  have "st_readable 1 (babs ?p)" using p sb by (simp add: st_readable_def sb_describes_def param_defs)
  from readsb_spec [OF p(1) this] obtain q where q: "readsb 1 ?p = Inr (decode_sb (bview ?p 1), q)" "cache_ok q"
    "babs q = babs ?p" "brest q = brest ?p" by blast
  have b: "bview ?p 1 = d 1" using clean_view [OF p(1), of 1] p by simp
  have aq: "memdisk q = d" "disksize q = disksize s" "held q = Map.empty" "dirty q = {}" "bio_writes q = []"
    using babs_puts [of q "[]" ?p] q(3) p by simp_all
  let ?q = "q\<lparr>l_start := l_start s, l_size := l_size s, l_dev := 1\<rparr>"
  have aq': "held ?q = Map.empty" "dirty ?q = {}"
    using babs_puts(4,5) [of ?q "[]" q] aq by simp_all
  have gq: "log_geom ?q" using g log_rest(7) [OF q(4)] p by (simp add: log_geom_def aq)
  have fq: "log_region ?q = log_region s" "log_slot ?q = log_slot s" by (simp_all add: log_region_def log_slot_def fun_eq_iff)
  have vq: "valid_head ?q (memdisk ?q)" using v by (simp add: valid_head_def fq aq)
  have "recover_writes ?q (memdisk ?q) = recover_writes s d" by (simp add: recover_writes_def fq aq)
  with recover_spec [OF _ gq aq' vq] obtain r bl where r: "recover_from_log ?q = Inr r" "cache_ok r" "length bl = LOGSIZE"
    "babs r = st_puts (recover_writes s d) (babs ?q)" "brest r = brest (?q\<lparr>lh_n := 0, lh_block := bl\<rparr>)"
    using q(2) by auto
  have ar: "memdisk r = apply_writes (recover_writes s d) d" "bio_writes r = recover_writes s d" "dirty r = {}"
    "held r = Map.empty" "disksize r = disksize s"
    using babs_puts [OF r(4)] aq aq' by simp_all
  note lr = log_rest [OF r(5), simplified]
  have "initlog 1 ?p = Inr r"
    using q(1) r(1) sb b by (simp add: initlog_def sb_describes_def param_defs)
  then show ?thesis using r(2,3) ar g p log_rest(3,4) [OF q(4)] by (simp add: lr log_geom_def)
qed

lemma apply_writes_indep: "x \<in> fst ` set ws \<Longrightarrow> apply_writes ws d x = apply_writes ws e x"
proof (induction ws arbitrary: d e)
  case (Cons w ws)
  then show ?case
    by (cases w; cases "x \<in> fst ` set ws") (auto simp: apply_writes_notin)
qed simp

lemma apply_writes_prefix: "apply_writes ws (apply_writes (take k ws) d) = apply_writes ws d"
proof
  fix x
  show "apply_writes ws (apply_writes (take k ws) d) x = apply_writes ws d x"
  proof (cases "x \<in> fst ` set ws")
    case False
    then have "x \<notin> fst ` set (take k ws)" using set_take_subset [of k ws] by blast
    with False show ?thesis by (simp add: apply_writes_notin)
  qed (rule apply_writes_indep)
qed

lemma length_apply_writes:
  "(\<And>blk. length (d blk) = n) \<Longrightarrow> (\<And>w. w \<in> set ws \<Longrightarrow> length (snd w) = n) \<Longrightarrow> length (apply_writes ws d blk) = n"
proof (induction ws arbitrary: d)
  case (Cons w ws)
  obtain x v where w: "w = (x, v)" by (cases w)
  have "length v = n" using Cons.prems(2) [of w] by (simp add: w)
  then show ?case unfolding w apply_writes_Cons by (intro Cons.IH) (use Cons.prems in auto)
qed simp

lemma length_recover_writes:
  "(\<And>blk. length (d blk) = BSIZE) \<Longrightarrow> w \<in> set (recover_writes s d) \<Longrightarrow> length (snd w) = BSIZE"
  by (auto simp: recover_writes_def param_defs)

lemma length_commit_writes:
  assumes c: "cache_ok s" and n: "0 \<le> lh_n s" "lh_n s \<le> int LOGSIZE" and w: "w \<in> set (commit_writes s)"
  shows "length (snd w) = BSIZE"
proof -
  note v = view_length [OF c]
  have "length (snd (head_write s)) = BSIZE" using encode_head(1) [OF n v] by (simp add: head_write_def)
  then show ?thesis
    using w v encode_head(1) [of 0]
    by (auto simp: commit_writes_def log_writes_def home_writes_def clear_write_def split: if_splits)
qed

text \<open>A crash while the log is being replayed.\<close>

lemma recover_crash:
  assumes g: "log_geom s" and len: "\<And>blk. length (d blk) = BSIZE" and v: "valid_head s d"
  defines "e k \<equiv> apply_writes (take k (recover_writes s d)) d"
  shows "valid_head s (e k) \<and>
    (\<forall>blk. blk \<notin> log_region s \<longrightarrow>
      apply_writes (recover_writes s (e k)) (e k) blk = apply_writes (recover_writes s d) d blk)"
proof -
  let ?h = "d (l_start s)" and ?n = "nat (head_n (d (l_start s)))"
  let ?iw = "map (\<lambda>i. (head_block ?h i, d (log_slot s i))) [0..<?n]"
  have out: "head_block ?h i \<notin> log_region s" if "i < ?n" for i using v that by (simp add: valid_head_def)
  note sr = start_region [OF g]
  show ?thesis
  proof (cases "k \<le> ?n")
    case True
    then have ek: "e k = apply_writes (take k ?iw) d" by (simp add: e_def recover_writes_def)
    have reg: "e k blk = d blk" if "blk \<in> log_region s" for blk
      unfolding ek using out that by (intro apply_writes_notin) (auto simp: take_map dest!: in_set_takeD)
    have h: "e k (l_start s) = ?h" by (rule reg [OF sr])
    have "Suc i < nat (l_size s)" if "i < ?n" for i using that v by (simp add: valid_head_def) linarith
    then have "e k (log_slot s i) = d (log_slot s i)" if "i < ?n" for i
      using that by (intro reg log_slot_region) simp
    then have rw: "recover_writes s (e k) = recover_writes s d" by (simp add: recover_writes_def h)
    have "valid_head s (e k)" using v by (simp add: valid_head_def h)
    then show ?thesis unfolding rw unfolding e_def apply_writes_prefix by simp
  next
    case False
    then have "take k (recover_writes s d) = recover_writes s d" by (simp add: recover_writes_def)
    then have ek: "e k = apply_writes (recover_writes s d) d" by (simp add: e_def)
    then have es: "e k (l_start s) = put32 0 0 ?h" by (simp add: recover_writes_def)
    have z: "head_n (e k (l_start s)) = 0" unfolding es by (simp add: head_n_def get32_put32_same len param_defs)
    then have "valid_head s (e k)" by (intro valid_head_empty [OF g])
    moreover have "apply_writes (recover_writes s (e k)) (e k) blk = e k blk" if "blk \<notin> log_region s" for blk
      using that z sr by (auto simp: recover_writes_def)
    ultimately show ?thesis by (simp add: ek)
  qed
qed

text \<open>What the operations on blocks inside a transaction leave alone.\<close>

definition lrest :: "'z log_scheme \<Rightarrow> int \<times> u32 \<times> int \<times> int \<times> bool \<times> u32 \<times> 'z" where
  "lrest s = (cur_pid s, l_start s, l_size s, l_outstanding s, l_committing s, l_dev s, log.more s)"

lemma brest_lrest: "brest s' = brest s \<Longrightarrow> lrest s' = lrest s"
  by (cases s; cases s'; simp add: brest_def lrest_def)

lemma lrest_update [simp]: "lrest (lh_n_update f s) = lrest s" "lrest (lh_block_update g s) = lrest s"
  by (simp_all add: lrest_def)

lemma log_write_spec:
  assumes t: "txn_ok s" and h: "held s blk = Some b" and out: "blk \<notin> log_region s"
    and room: "lh_n s < l_size s - 1" and tr: "1 \<le> l_outstanding s"
  shows "\<exists>s'. log_write b s = Inr s' \<and> txn_ok s' \<and> bview s' = bview s \<and> held s' = held s \<and> memdisk s' = memdisk s \<and>
    bio_writes s' = bio_writes s \<and> disksize s' = disksize s \<and> lrest s' = lrest s \<and>
    logged s' = (if blk \<in> set (logged s) then logged s else logged s @ [blk])"
proof -
  have c: "cache_ok s" and g: "log_geom s" and n: "0 \<le> lh_n s" "lh_n s < l_size s"
    and d: "dirty s = set (logged s)" and dist: "distinct (logged s)"
    and home: "\<And>blk. blk \<in> set (logged s) \<Longrightarrow> blk < disksize s \<and> blk \<notin> log_region s"
    using t by (auto simp: txn_ok_def log_ok_def)
  have nl: "lh_n s < int LOGSIZE" and bl: "length (lh_block s) = LOGSIZE" using n g by (auto simp: log_geom_def)
  have b: "b_blockno (bcache s b) = blk" "blk < disksize s"
    using h c by (auto simp: held_Some cache_ok_def buf_ok_def)
  define i where "i = (case scan (\<lambda>x. x = blk) (logged s) of Some i \<Rightarrow> i | None \<Rightarrow> nat (lh_n s))"
  define n' where "n' = (if int i = lh_n s then lh_n s + 1 else lh_n s)"
  let ?t = "s\<lparr>lh_block := (lh_block s)[i := blk], lh_n := n'\<rparr>"
  have lw: "log_write b s = Inr (pin_buf b ?t)"
    using nl room tr b by (simp add: log_write_def Let_def i_def n'_def logged_def)
  have ll: "length (logged s) = nat (lh_n s)" using bl nl by (simp add: logged_def)
  have in_case: "i < nat (lh_n s) \<and> logged s ! i = blk" if "blk \<in> set (logged s)"
    using that ll by (auto simp: i_def scan_None scan_Some split: option.split)
  have lt: "logged ?t = (if blk \<in> set (logged s) then logged s else logged s @ [blk])"
  proof (cases "blk \<in> set (logged s)")
    case True
    then have "i < nat (lh_n s)" "n' = lh_n s" "lh_block s ! i = blk"
      using in_case by (auto simp: n'_def logged_def)
    moreover then have "(lh_block s)[i := blk] = lh_block s" by (metis list_update_id)
    ultimately show ?thesis using True by (simp add: logged_def)
  next
    case False
    then have "i = nat (lh_n s)" by (auto simp: i_def scan_Some split: option.split)
    moreover then have "n' = lh_n s + 1" using n by (simp add: n'_def)
    ultimately show ?thesis using False bl nl n
      by (simp add: logged_def nat_add_distrib take_Suc_conv_app_nth)
  qed
  have ht: "st_held (babs ?t) blk = Some b" using h by simp
  note p = bc.pin [of ?t blk b, OF _ ht]
  have pa: "cache_ok (pin_buf b ?t)" "babs (pin_buf b ?t) = st_pin blk (babs s)" "brest (pin_buf b ?t) = brest ?t"
    using p c by simp_all
  note lr = log_rest [OF pa(3), simplified]
  have a: "bview (pin_buf b ?t) = bview s" "memdisk (pin_buf b ?t) = memdisk s" "disksize (pin_buf b ?t) = disksize s"
    "held (pin_buf b ?t) = held s" "dirty (pin_buf b ?t) = insert blk (dirty s)" "bio_writes (pin_buf b ?t) = bio_writes s"
    using arg_cong [OF pa(2), of st_view] arg_cong [OF pa(2), of st_disk] arg_cong [OF pa(2), of st_size]
      arg_cong [OF pa(2), of st_held] arg_cong [OF pa(2), of st_dirty] arg_cong [OF pa(2), of st_writes]
    by (simp_all add: st_pin_def)
  have lp: "logged (pin_buf b ?t) = logged ?t" "log_region (pin_buf b ?t) = log_region s"
    by (simp_all add: logged_def log_region_def lr)
  have nb: "0 \<le> n'" "n' < l_size s" using n room by (simp_all add: n'_def)
  have "txn_ok (pin_buf b ?t)"
    unfolding txn_ok_def log_ok_def lp lt a using pa(1) g nb home out b(2) dist d
    by (auto simp: log_geom_def lr a(3))
  moreover have "lrest (pin_buf b ?t) = lrest s" using brest_lrest [OF pa(3)] by simp
  ultimately show ?thesis using lw a lp lt by auto
qed

text \<open>
  The way clients change a block in a transaction: \<open>bread\<close>, change \<open>b->data\<close>, \<open>log_write\<close>, \<open>brelse\<close>.
\<close>

lemma txn_cong:
  assumes "babs s' = babs s" "brest s' = brest s" "cache_ok s'" "txn_ok s"
  shows "txn_ok s'"
  using assms babs_puts [of s' "[]" s] log_rest [OF assms(2)] log_frame [OF assms(2)]
  by (simp add: txn_ok_def log_ok_def)

lemma log_update:
  assumes t: "txn_ok s" and r: "st_readable blk (babs s)" and out: "blk \<notin> log_region s"
    and room: "lh_n s < l_size s - 1" and tr: "1 \<le> l_outstanding s"
  shows "\<exists>b s1. bread 1 blk s = Inr (b, s1) \<and> bdata s1 b = bview s blk \<and> lrest s1 = lrest s \<and>
    (\<forall>d. length d = BSIZE \<longrightarrow> (\<exists>s2 s3. log_write b (set_data b d s1) = Inr s2 \<and> brelse b s2 = Inr s3 \<and>
      txn_ok s3 \<and> bview s3 = (bview s)(blk := d) \<and> held s3 = held s \<and> memdisk s3 = memdisk s \<and>
      bio_writes s3 = bio_writes s \<and> disksize s3 = disksize s \<and> lrest s3 = lrest s \<and>
      logged s3 = (if blk \<in> set (logged s) then logged s else logged s @ [blk])))"
proof -
  have c: "cache_ok s" using t by (simp add: txn_ok_def log_ok_def)
  from bc.rd [OF c r] obtain b s1 where 1: "bread 1 blk s = Inr (b, s1)" "cache_ok s1"
    "babs s1 = st_take blk b (babs s)" "brest s1 = brest s" by blast
  have h1: "st_held (babs s1) blk = Some b" unfolding 1(3) by (simp add: st_take_def)
  have dt: "bdata s1 b = bview s blk" using bc.dat [OF 1(2) h1] by (simp only: 1(3)) (simp add: st_take_def)
  have n: "held s blk = None" using r by (simp add: st_readable_def)
  have step: "\<exists>s2 s3. log_write b (set_data b d s1) = Inr s2 \<and> brelse b s2 = Inr s3 \<and>
      txn_ok s3 \<and> bview s3 = (bview s)(blk := d) \<and> held s3 = held s \<and> memdisk s3 = memdisk s \<and>
      bio_writes s3 = bio_writes s \<and> disksize s3 = disksize s \<and> lrest s3 = lrest s \<and>
      logged s3 = (if blk \<in> set (logged s) then logged s else logged s @ [blk])"
    if d: "length d = BSIZE" for d
  proof -
    let ?u = "set_data b d s1"
    have u: "cache_ok ?u" "babs ?u = st_edit blk d (babs s1)" "brest ?u = brest s"
      using bc.edit [OF 1(2) h1 d] 1(4) by auto
    have au: "bview ?u = (bview s)(blk := d)" "memdisk ?u = memdisk s" "disksize ?u = disksize s"
      "dirty ?u = dirty s" "held ?u = (held s)(blk := Some b)" "bio_writes ?u = bio_writes s"
      using arg_cong [OF u(2), of st_view] arg_cong [OF u(2), of st_disk] arg_cong [OF u(2), of st_size]
        arg_cong [OF u(2), of st_dirty] arg_cong [OF u(2), of st_held] arg_cong [OF u(2), of st_writes]
      unfolding 1(3) by (simp_all add: st_edit_def st_take_def)
    note lu = log_rest [OF u(3)] log_frame [OF u(3)]
    have "txn_ok ?u" using t u(1) by (simp add: txn_ok_def log_ok_def lu au)
    from log_write_spec [OF this, of blk b] obtain s2 where 2: "log_write b ?u = Inr s2" "txn_ok s2"
      "bview s2 = bview ?u" "held s2 = held ?u" "memdisk s2 = memdisk s" "bio_writes s2 = bio_writes s"
      "disksize s2 = disksize s" "lrest s2 = lrest ?u"
      "logged s2 = (if blk \<in> set (logged s) then logged s else logged s @ [blk])"
      using out room tr by (auto simp: au lu)
    have c2: "cache_ok s2" and bd: "blk \<in> dirty s2" using 2(2,9) by (auto simp: txn_ok_def log_ok_def)
    from bc.rel [OF c2, of blk b] obtain s3 where 3: "brelse b s2 = Inr s3" "cache_ok s3"
      "babs s3 = st_drop blk (babs s2)" "brest s3 = brest s2" using 2(4) au(5) bd by auto
    have a3: "bview s3 = bview s2" "memdisk s3 = memdisk s2" "disksize s3 = disksize s2"
      "dirty s3 = dirty s2" "held s3 = held s" "bio_writes s3 = bio_writes s2"
      using arg_cong [OF 3(3), of st_view] arg_cong [OF 3(3), of st_disk] arg_cong [OF 3(3), of st_size]
        arg_cong [OF 3(3), of st_dirty] arg_cong [OF 3(3), of st_held] arg_cong [OF 3(3), of st_writes] 2(4) n
      by (simp_all add: st_drop_def au(5) fun_upd_idem)
    note l3 = log_rest [OF 3(4)] log_frame [OF 3(4)]
    have "txn_ok s3" using 2(2) 3(2) by (simp add: txn_ok_def log_ok_def l3 a3)
    then show ?thesis
      using 2 3 a3 l3 brest_lrest [OF 3(4)] brest_lrest [OF u(3)] au by auto
  qed
  show ?thesis using 1(1) dt brest_lrest [OF 1(4)] step by blast
qed

section \<open>Properties\<close>

text \<open>
  A disk of 1000 blocks with the log in blocks 2 to 31, and the state of a transaction that has
  filled block 40 of it with sevens.
\<close>

definition demo_disk :: "u32 \<Rightarrow> u8 list" where
  "demo_disk = (\<lambda>_. replicate BSIZE 0)(1 := put32 16 2 (put32 12 30 (replicate BSIZE 0)))"

definition demo_txn :: "log result" where
  "demo_txn =
    andthen (initlog 1 (power_on demo_disk 1000)) (\<lambda>s.
    andthen (begin_op s) (\<lambda>s.
    andthen (bread 1 40 s) (\<lambda>(b, s).
    andthen (log_write b (set_data b (replicate BSIZE 7) s)) (brelse b))))"

lemma demo_disk:
  "length (demo_disk blk) = BSIZE" "sb_logstart (decode_sb (demo_disk 1)) = 2" "sb_nlog (decode_sb (demo_disk 1)) = 30"
  "head_n (demo_disk 2) = 0"
  by (simp_all add: demo_disk_def param_defs decode_sb_def head_n_def get32_put32_same get32_put32_other)
     (simp add: get32_def of_le32_def)

definition demo_sys :: log where
  "demo_sys = (power_on demo_disk 1000)\<lparr>l_start := 2, l_size := 30, l_dev := 1\<rparr>"

lemma demo_sys:
  "log_geom demo_sys" "l_start demo_sys = 2" "l_size demo_sys = 30" "disksize demo_sys = 1000"
  "unat blk < 2 \<or> 31 < unat blk \<Longrightarrow> blk \<notin> log_region demo_sys"
proof -
  note p = power_on [of demo_disk, OF demo_disk(1), where n = 1000]
  show g: "log_geom demo_sys" using p by (simp add: log_geom_def param_defs demo_sys_def)
  show f: "l_start demo_sys = 2" "l_size demo_sys = 30" "disksize demo_sys = 1000"
    using p by (simp_all add: demo_sys_def)
  show "blk \<notin> log_region demo_sys" if "unat blk < 2 \<or> 31 < unat blk"
    using that log_offset [OF g] f by (auto simp: log_region_def)
qed

lemma demo_txn:
  "\<exists>s. demo_txn = Inr s \<and> txn_ok s \<and> held s = Map.empty \<and> logged s = [40] \<and> l_start s = 2 \<and> l_size s = 30 \<and>
    disksize s = 1000 \<and> head_n (memdisk s 2) = 0 \<and> bview s 40 = replicate BSIZE 7 \<and>
    memdisk s 40 = replicate BSIZE 0 \<and> sb_describes (memdisk s) s \<and> l_outstanding s = 1"
proof -
  let ?g = demo_sys
  note g = demo_sys(1)
  note reg = demo_sys(5)
  have sb: "sb_describes demo_disk ?g" using reg [of 1] demo_sys demo_disk by (simp add: sb_describes_def)
  have v: "valid_head ?g demo_disk" using demo_disk(4) demo_sys(2) by (intro valid_head_empty [OF g]) simp
  from initlog_recovers [OF g demo_disk(1) sb v] obtain r where
    r: "initlog 1 (power_on demo_disk 1000) = Inr r" "cache_ok r" "memdisk r = apply_writes (recover_writes ?g demo_disk) demo_disk"
    "lh_n r = 0" "dirty r = {}" "held r = Map.empty" "log_geom r" "l_start r = 2" "l_size r = 30"
    "disksize r = 1000" "l_outstanding r = 0" "\<not> l_committing r"
    using demo_sys by auto
  have rw: "recover_writes ?g demo_disk = [(2, put32 0 0 (demo_disk 2))]"
    using demo_disk(4) demo_sys(2) by (simp add: recover_writes_def)
  have m: "memdisk r blk = (if blk = 2 then put32 0 0 (demo_disk 2) else demo_disk blk)" for blk
    by (simp add: r(3) rw)
  let ?r = "r\<lparr>l_outstanding := 1\<rparr>"
  have b: "begin_op r = Inr ?r" using r by (simp add: begin_op_def param_defs)
  have a: "babs ?r = babs r" "cache_ok ?r" using r(2) by simp_all
  have lg: "logged ?r = []" "log_region ?r = log_region ?g" using r(4,8,9) demo_sys(2,3) by (simp_all add: logged_def log_region_def)
  have ar: "held ?r = Map.empty" "dirty ?r = {}" "bview ?r = bview r" using babs_puts [of ?r "[]" r] a r by simp_all
  have t: "txn_ok ?r" using a(2) r ar by (simp add: txn_ok_def log_ok_def lg log_geom_def)
  have "st_readable 40 (babs ?r)" using ar r by (simp add: st_readable_def param_defs)
  moreover have "40 \<notin> log_region ?r" "lh_n ?r < l_size ?r - 1" "1 \<le> l_outstanding ?r"
    using r reg [of 40] lg by simp_all
  ultimately obtain bf s1 where u0: "bread 1 40 ?r = Inr (bf, s1)" and all: "\<forall>d. length d = BSIZE \<longrightarrow>
      (\<exists>s2 s3. log_write bf (set_data bf d s1) = Inr s2 \<and> brelse bf s2 = Inr s3 \<and>
      txn_ok s3 \<and> bview s3 = (bview ?r)(40 := d) \<and> held s3 = held ?r \<and> memdisk s3 = memdisk ?r \<and>
      bio_writes s3 = bio_writes ?r \<and> disksize s3 = disksize ?r \<and> lrest s3 = lrest ?r \<and>
      logged s3 = (if 40 \<in> set (logged ?r) then logged ?r else logged ?r @ [40]))"
    using log_update [OF t, of 40] by metis
  from all [rule_format, of "replicate BSIZE 7"] obtain s2 s3 where
    u: "log_write bf (set_data bf (replicate BSIZE 7) s1) = Inr s2" "brelse bf s2 = Inr s3"
    "txn_ok s3" "bview s3 = (bview ?r)(40 := replicate BSIZE 7)" "held s3 = held ?r" "memdisk s3 = memdisk r"
    "disksize s3 = 1000" "lrest s3 = lrest ?r" "logged s3 = [40]"
    using r lg by auto
  have l: "l_start s3 = 2" "l_size s3 = 30" "l_outstanding s3 = 1" using u(8) r by (simp_all add: lrest_def)
  have "log_region s3 = log_region ?g" by (simp add: log_region_def l demo_sys(2,3))
  then have "sb_describes (memdisk s3) s3"
    using reg [of 1] demo_disk(2,3) by (simp add: sb_describes_def u(6,7) m l)
  moreover have "head_n (memdisk s3 2) = 0"
    using demo_disk(1) by (simp add: u(6) m head_n_def get32_put32_same param_defs)
  moreover have "memdisk s3 40 = replicate BSIZE 0" by (simp add: u(6) m demo_disk_def)
  moreover have "demo_txn = Inr s3" using r(1) b u0 u(1,2) by (simp add: demo_txn_def)
  ultimately show ?thesis using u(3-5,7,9) l ar by auto
qed

lemma commit_crash:
  assumes t: "txn_ok s" and h: "held s = Map.empty" and z: "head_n (memdisk s (l_start s)) = 0"
    and sb: "sb_describes (memdisk s) s" and one: "1 \<notin> set (logged s)"
  shows "\<exists>r. initlog 1 (power_on (crash_disk s k) (disksize s)) = Inr r \<and>
      (\<forall>blk. blk \<notin> log_region s \<longrightarrow> memdisk r blk = (if k \<le> nat (lh_n s) then memdisk s blk else bview s blk))"
proof -
  have c: "cache_ok s" and g: "log_geom s" and n: "0 \<le> lh_n s" "lh_n s \<le> int LOGSIZE" "lh_n s < l_size s"
    using t by (auto simp: txn_ok_def log_ok_def log_geom_def)
  have len: "length (crash_disk s k blk) = BSIZE" for blk
    unfolding crash_disk_def using c length_commit_writes [OF c n(1,2)]
    by (intro length_apply_writes) (auto simp: cache_ok_def dest: in_set_takeD)
  have "fst ` set (commit_writes s) \<subseteq> log_region s \<union> set (logged s)"
  proof -
    have "fst ` set (commit_writes s) \<subseteq> fst ` set (log_writes s) \<union> {l_start s} \<union> fst ` set (home_writes s)"
      unfolding commit_writes_def head_write_def clear_write_def by (cases "lh_n s > 0") auto
    also have "\<dots> \<subseteq> log_region s \<union> set (logged s)"
      unfolding home_writes_set [OF g n(3)] using log_writes_region [OF g n(3)] start_region [OF g] by blast
    finally show ?thesis .
  qed
  then have "1 \<notin> fst ` set (take k (commit_writes s))"
    using one sb by (auto simp: sb_describes_def dest!: in_set_takeD)
  then have "crash_disk s k 1 = memdisk s 1" unfolding crash_disk_def by (rule apply_writes_notin)
  then have "sb_describes (crash_disk s k) s" using sb by (simp add: sb_describes_def)
  from initlog_recovers [OF g len this] crash_recover [OF t h z, of k] show ?thesis by auto
qed

text \<open>
  C1. A commit is atomic with respect to crashes. Whatever blocks a transaction has logged, \<open>commit\<close>
  succeeds, and if the machine stops after any number \<open>k\<close> of its disk writes, then booting from
  that disk (\<open>binit\<close>, then \<open>initlog\<close>, which reads the super block and replays the log) succeeds and
  leaves every block outside the log area either as it was before the transaction or as the
  transaction made it; the switch from one to the other is the write of the header block,
  the write number \<open>n\<close> (counting from 0) of a transaction of \<open>n\<close> blocks, and no other.
\<close>

theorem commit_crash_atomic:
  assumes "txn_ok s" and "held s = Map.empty" and "head_n (memdisk s (l_start s)) = 0"
    and "sb_describes (memdisk s) s" and "1 \<notin> set (logged s)"
  shows "\<exists>s' ws. commit s = Inr s' \<and> bio_writes s' = bio_writes s @ ws \<and>
    (\<forall>k. \<exists>r. initlog 1 (power_on (apply_writes (take k ws) (memdisk s)) (disksize s)) = Inr r \<and>
      (\<forall>blk. blk \<notin> log_region s \<longrightarrow> memdisk r blk = (if k \<le> nat (lh_n s) then memdisk s blk else bview s blk)))"
proof -
  obtain s' where s': "commit s = Inr s'" "babs s' = st_puts (commit_writes s) (babs s)"
    using commit_spec [OF assms(1,2)] by blast
  moreover have "bio_writes s' = bio_writes s @ commit_writes s" by (rule babs_puts [OF s'(2)])
  ultimately show ?thesis using commit_crash [OF assms, unfolded crash_disk_def] by blast
qed

theorem commit_crash_atomic_witness:
  "\<exists>s s' ws r. demo_txn = Inr s \<and> commit s = Inr s' \<and> bio_writes s' = bio_writes s @ ws \<and>
    initlog 1 (power_on (apply_writes (take 2 ws) (memdisk s)) 1000) = Inr r \<and>
    memdisk s 40 = replicate BSIZE 0 \<and> memdisk r 40 = replicate BSIZE 7"
proof -
  obtain s where s: "demo_txn = Inr s" "txn_ok s" "held s = Map.empty" "logged s = [40]" "l_start s = 2" "disksize s = 1000"
    "head_n (memdisk s 2) = 0" "bview s 40 = replicate BSIZE 7" "memdisk s 40 = replicate BSIZE 0" "sb_describes (memdisk s) s"
    using demo_txn by blast
  have "length (logged s) = nat (lh_n s)"
    using s(2) by (auto simp: logged_def txn_ok_def log_ok_def log_geom_def)
  then have n: "nat (lh_n s) = 1" using s(4) by simp
  have o: "40 \<notin> log_region s" using s(2,4) by (simp add: txn_ok_def log_ok_def)
  have "head_n (memdisk s (l_start s)) = 0" "1 \<notin> set (logged s)" using s(4,5,7) by simp_all
  from commit_crash_atomic [OF s(2,3) this(1) s(10) this(2)] obtain s' ws r where
    "commit s = Inr s'" "bio_writes s' = bio_writes s @ ws"
    "initlog 1 (power_on (apply_writes (take 2 ws) (memdisk s)) (disksize s)) = Inr r"
    "\<forall>blk. blk \<notin> log_region s \<longrightarrow> memdisk r blk = (if 2 \<le> nat (lh_n s) then memdisk s blk else bview s blk)"
    by blast
  then show ?thesis using s(1,6,8,9) o n
    by (intro exI conjI [of "demo_txn = Inr s"]) auto
qed

text \<open>
  C2. Recovery survives crashes of its own. From any disk whose log header is well formed and does
  not list the super block, \<open>initlog\<close> succeeds; if the machine stops after any number of the disk writes of that recovery, booting
  again succeeds and ends with the same contents of every block outside the log area.
\<close>

theorem recovery_crash_idempotent:
  assumes "log_geom s" and "\<And>blk. length (d blk) = BSIZE" and "sb_describes d s" and "valid_head s d"
    and "1 \<notin> fst ` set (recover_writes s d)"
  shows "\<exists>r. initlog 1 (power_on d (disksize s)) = Inr r \<and>
    (\<forall>k. \<exists>r'. initlog 1 (power_on (apply_writes (take k (bio_writes r)) d) (disksize s)) = Inr r' \<and>
      (\<forall>blk. blk \<notin> log_region s \<longrightarrow> memdisk r' blk = memdisk r blk))"
proof -
  obtain r where r: "initlog 1 (power_on d (disksize s)) = Inr r" "bio_writes r = recover_writes s d"
    "memdisk r = apply_writes (recover_writes s d) d"
    using initlog_recovers [OF assms(1-4)] by blast
  have "\<exists>r'. initlog 1 (power_on (apply_writes (take k (recover_writes s d)) d) (disksize s)) = Inr r' \<and>
      (\<forall>blk. blk \<notin> log_region s \<longrightarrow> memdisk r' blk = memdisk r blk)" for k
  proof -
    let ?e = "apply_writes (take k (recover_writes s d)) d"
    have len: "length (?e blk) = BSIZE" for blk
      using assms(2) length_recover_writes [of d, OF assms(2)]
      by (intro length_apply_writes) (auto dest!: in_set_takeD)
    note c = recover_crash [OF assms(1,2,4), of k]
    have "?e 1 = d 1" using assms(5) by (intro apply_writes_notin) (auto dest: in_set_takeD)
    then have "sb_describes ?e s" using assms(3) by (simp add: sb_describes_def)
    from initlog_recovers [OF assms(1) len this] c r(3) show ?thesis by auto
  qed
  then show ?thesis using r by auto
qed

definition demo_logged :: "u32 \<Rightarrow> u8 list" where
  "demo_logged = demo_disk(2 := put32 4 40 (put32 0 1 (replicate BSIZE 0)), 3 := replicate BSIZE 9)"

theorem recovery_crash_idempotent_witness:
  "\<exists>r r'. valid_head demo_sys demo_logged \<and> head_n (demo_logged 2) = 1 \<and>
    initlog 1 (power_on demo_logged 1000) = Inr r \<and>
    initlog 1 (power_on (apply_writes (take 1 (bio_writes r)) demo_logged) 1000) = Inr r' \<and>
    memdisk r' 40 = memdisk r 40"
proof -
  have h: "head_n (demo_logged 2) = 1" "head_block (demo_logged 2) 0 = 40"
    by (simp_all add: demo_logged_def head_n_def head_block_def get32_put32_same get32_put32_other param_defs)
  have v: "valid_head demo_sys demo_logged" using h demo_sys(5) [of 40] by (simp add: valid_head_def demo_sys)
  have len: "length (demo_logged blk) = BSIZE" for blk
    using demo_disk(1) by (simp add: demo_logged_def param_defs)
  have sb: "sb_describes demo_logged demo_sys"
    using demo_sys(5) [of 1] demo_disk by (simp add: sb_describes_def demo_sys demo_logged_def)
  have "1 \<notin> fst ` set (recover_writes demo_sys demo_logged)"
    using h by (simp add: recover_writes_def demo_sys)
  from recovery_crash_idempotent [OF demo_sys(1) len sb v this] obtain r where
    r: "initlog 1 (power_on demo_logged 1000) = Inr r" and
    all: "\<forall>k. \<exists>r'. initlog 1 (power_on (apply_writes (take k (bio_writes r)) demo_logged) 1000) = Inr r' \<and>
      (\<forall>blk. blk \<notin> log_region demo_sys \<longrightarrow> memdisk r' blk = memdisk r blk)"
    by (auto simp: demo_sys)
  from spec [OF all, of 1] r h v demo_sys(5) [of 40] show ?thesis by auto
qed

end
