(* ===== verification/Balloc.thy ===== *)
theory Balloc
  imports Log
begin

text \<open>
  The state of the file system of \<open>src/xv6/fs.c\<close> and its block allocator (\<open>bzero\<close>, \<open>balloc\<close>, \<open>bfree\<close>).

  The state extends the log with the super block in memory, the inode cache \<open>icache.inode\<close> and the table
  \<open>devsw\<close> of device functions with the state \<open>'d\<close> of the devices they work on. The spin lock \<open>icache.lock\<close>
  brackets accesses to the reference counts and is left out, as in the other components.
\<close>

section \<open>State\<close>

definition NDIRECT :: nat where "NDIRECT = 12"

definition NINDIRECT :: nat where "NINDIRECT = BSIZE div 4"

definition MAXFILE :: nat where "MAXFILE = NDIRECT + NINDIRECT"

definition IPB :: nat where "IPB = BSIZE div 64"

definition BPB :: nat where "BPB = BSIZE * 8"

definition ROOTINO :: u32 where "ROOTINO = 1"

definition T_DIR :: u16 where "T_DIR = 1"

definition T_FILE :: u16 where "T_FILE = 2"

definition T_DEV :: u16 where "T_DEV = 3"

lemmas fs_defs = NDIRECT_def NINDIRECT_def MAXFILE_def IPB_def BPB_def ROOTINO_def T_DIR_def T_FILE_def T_DEV_def param_defs

declare fs_defs [kernel_defs]

record inode =
  i_dev :: u32
  i_inum :: u32
  i_ref :: int
  i_lock :: sleeplock
  i_valid :: bool
  i_type :: u16
  i_major :: u16
  i_minor :: u16
  i_nlink :: u16
  i_size :: u32
  i_addrs :: "u32 list"

text \<open>
  The functions of one entry of \<open>devsw\<close>: a read of \<open>n\<close> bytes returns a count and the bytes, a write takes
  the bytes. A null pointer is \<open>None\<close>.
\<close>

record 'd devsw =
  dev_read :: "(u32 \<Rightarrow> 'd \<Rightarrow> (int \<times> u8 list \<times> 'd) result) option"
  dev_write :: "(u8 list \<Rightarrow> 'd \<Rightarrow> (int \<times> 'd) result) option"

record 'd fs = log +
  fs_sb :: superblock
  icache :: "inode list"
  fs_devsw :: "nat \<Rightarrow> 'd devsw"
  fs_dev :: 'd

definition IBLOCK :: "u32 \<Rightarrow> superblock \<Rightarrow> u32" where
  "IBLOCK i sb = i div of_nat IPB + sb_inodestart sb"

definition BBLOCK :: "u32 \<Rightarrow> superblock \<Rightarrow> u32" where
  "BBLOCK b sb = b div of_nat BPB + sb_bmapstart sb"

section \<open>Blocks\<close>

definition bzero :: "u32 \<Rightarrow> u32 \<Rightarrow> 'z log_scheme \<Rightarrow> 'z log_scheme result" where
  "bzero dev bno s =
    andthen (bread dev bno s) (\<lambda>(bp, s).
    andthen (log_write bp (set_data bp (replicate BSIZE 0) s)) (brelse bp))"

text \<open>The bit of a bitmap block, its test and its assignments.\<close>

definition bm_mask :: "nat \<Rightarrow> u8" where
  "bm_mask bi = push_bit (bi mod 8) 1"

definition bm_clear :: "u8 list \<Rightarrow> nat \<Rightarrow> bool" where
  "bm_clear d bi \<longleftrightarrow> d ! (bi div 8) AND bm_mask bi = 0"

definition bm_set :: "nat \<Rightarrow> u8 list \<Rightarrow> u8 list" where
  "bm_set bi d = d[bi div 8 := d ! (bi div 8) OR bm_mask bi]"

definition bm_reset :: "nat \<Rightarrow> u8 list \<Rightarrow> u8 list" where
  "bm_reset bi d = d[bi div 8 := d ! (bi div 8) AND NOT (bm_mask bi)]"

text \<open>The outer loop of \<open>balloc\<close> over the bitmap blocks; \<open>b\<close> is \<open>k * BPB\<close>.\<close>

fun balloc_loop :: "u32 \<Rightarrow> nat list \<Rightarrow> ('d, 'z) fs_scheme \<Rightarrow> (u32 \<times> ('d, 'z) fs_scheme) result" where
  "balloc_loop dev [] s = Inl (Panic ''balloc: out of blocks'')"
| "balloc_loop dev (k # ks) s =
    andthen (bread dev (BBLOCK (of_nat (k * BPB)) (fs_sb s)) s) (\<lambda>(bp, s).
      case find (bm_clear (bdata s bp)) [0..<min BPB (unat (sb_size (fs_sb s)) - k * BPB)] of
        Some bi \<Rightarrow>
          andthen (log_write bp (set_data bp (bm_set bi (bdata s bp)) s)) (\<lambda>s.
          andthen (brelse bp s) (\<lambda>s.
          andthen (bzero dev (of_nat (k * BPB + bi)) s) (\<lambda>s.
          Inr (of_nat (k * BPB + bi), s))))
      | None \<Rightarrow> andthen (brelse bp s) (balloc_loop dev ks))"

definition balloc :: "u32 \<Rightarrow> ('d, 'z) fs_scheme \<Rightarrow> (u32 \<times> ('d, 'z) fs_scheme) result" where
  "balloc dev s = balloc_loop dev [0..<(unat (sb_size (fs_sb s)) + BPB - 1) div BPB] s"

definition bfree :: "u32 \<Rightarrow> u32 \<Rightarrow> ('d, 'z) fs_scheme \<Rightarrow> ('d, 'z) fs_scheme result" where
  "bfree dev b s =
    andthen (readsb dev s) (\<lambda>(sb, s).
      let s = s\<lparr>fs_sb := sb\<rparr> in
      andthen (bread dev (BBLOCK b sb) s) (\<lambda>(bp, s).
        let bi = unat b mod BPB in
        if bm_clear (bdata s bp) bi then Inl (Panic ''freeing free block'')
        else andthen (log_write bp (set_data bp (bm_reset bi (bdata s bp)) s)) (brelse bp)))"

end
