(* ===== verification/Inode.thy ===== *)
theory Inode
  imports Balloc
begin

text \<open>
  The inode layer of \<open>src/xv6/fs.c\<close>: the inode cache with its reference counts and sleep locks, the block map,
  truncation, reading and writing. A pointer to an entry of the inode cache is its index.
\<close>

section \<open>The inode cache\<close>

definition upd_inode :: "nat \<Rightarrow> (inode \<Rightarrow> inode) \<Rightarrow> ('d, 'z) fs_scheme \<Rightarrow> ('d, 'z) fs_scheme" where
  "upd_inode ip f s = s\<lparr>icache := upd_nth ip f (icache s)\<rparr>"

definition iinit :: "u32 \<Rightarrow> ('d, 'z) fs_scheme \<Rightarrow> ('d, 'z) fs_scheme result" where
  "iinit dev s =
    (let s = s\<lparr>icache := map (i_lock_update (initsleeplock ''inode'')) (icache s)\<rparr>
     in andthen (readsb dev s) (\<lambda>(sb, s). Inr (s\<lparr>fs_sb := sb\<rparr>)))"

text \<open>\<open>struct dinode\<close>: 64 bytes, at \<open>off\<close> in a block of the inode area.\<close>

definition dinode_off :: "u32 \<Rightarrow> nat" where
  "dinode_off inum = 64 * (unat inum mod IPB)"

definition put_addrs :: "nat \<Rightarrow> u32 list \<Rightarrow> u8 list \<Rightarrow> u8 list" where
  "put_addrs off addrs d = fold (\<lambda>i. put32 (off + 4 * i) (addrs ! i)) [0..<NDIRECT + 1] d"

definition put_dinode :: "nat \<Rightarrow> inode \<Rightarrow> u8 list \<Rightarrow> u8 list" where
  "put_dinode off ip d =
    (let d = put16 off (i_type ip) d;
         d = put16 (off + 2) (i_major ip) d;
         d = put16 (off + 4) (i_minor ip) d;
         d = put16 (off + 6) (i_nlink ip) d;
         d = put32 (off + 8) (i_size ip) d
     in put_addrs (off + 12) (i_addrs ip) d)"

definition get_dinode :: "u8 list \<Rightarrow> nat \<Rightarrow> inode \<Rightarrow> inode" where
  "get_dinode d off ip = ip\<lparr>i_type := get16 d off, i_major := get16 d (off + 2), i_minor := get16 d (off + 4),
     i_nlink := get16 d (off + 6), i_size := get32 d (off + 8),
     i_addrs := map (\<lambda>i. get32 d (off + 12 + 4 * i)) [0..<NDIRECT + 1]\<rparr>"

definition iget :: "u32 \<Rightarrow> u32 \<Rightarrow> ('d, 'z) fs_scheme \<Rightarrow> (nat \<times> ('d, 'z) fs_scheme) result" where
  "iget dev inum s =
    (case scan (\<lambda>ip. i_ref ip > 0 \<and> i_dev ip = dev \<and> i_inum ip = inum) (icache s) of
       Some ip \<Rightarrow> Inr (ip, upd_inode ip (i_ref_update (\<lambda>r. r + 1)) s)
     | None \<Rightarrow>
         (case scan (\<lambda>ip. i_ref ip = 0) (icache s) of
            None \<Rightarrow> Inl (Panic ''iget: no inodes'')
          | Some ip \<Rightarrow>
              Inr (ip, upd_inode ip (\<lambda>i. i\<lparr>i_dev := dev, i_inum := inum, i_ref := 1, i_valid := False\<rparr>) s)))"

definition idup :: "nat \<Rightarrow> ('d, 'z) fs_scheme \<Rightarrow> nat \<times> ('d, 'z) fs_scheme" where
  "idup ip s = (ip, upd_inode ip (i_ref_update (\<lambda>r. r + 1)) s)"

fun ialloc_loop :: "u32 \<Rightarrow> u16 \<Rightarrow> nat list \<Rightarrow> ('d, 'z) fs_scheme \<Rightarrow> (nat \<times> ('d, 'z) fs_scheme) result" where
  "ialloc_loop dev type [] s = Inl (Panic ''ialloc: no inodes'')"
| "ialloc_loop dev type (inum # inums) s =
    andthen (bread dev (IBLOCK (of_nat inum) (fs_sb s)) s) (\<lambda>(bp, s).
      let off = dinode_off (of_nat inum); d = bdata s bp in
      if get16 d off = 0 then
        let d = put16 off type (put_bytes off (replicate 64 0) d) in
        andthen (log_write bp (set_data bp d s)) (\<lambda>s.
        andthen (brelse bp s) (iget dev (of_nat inum)))
      else andthen (brelse bp s) (ialloc_loop dev type inums))"

definition ialloc :: "u32 \<Rightarrow> u16 \<Rightarrow> ('d, 'z) fs_scheme \<Rightarrow> (nat \<times> ('d, 'z) fs_scheme) result" where
  "ialloc dev type s = ialloc_loop dev type [1..<unat (sb_ninodes (fs_sb s))] s"

definition iupdate :: "nat \<Rightarrow> ('d, 'z) fs_scheme \<Rightarrow> ('d, 'z) fs_scheme result" where
  "iupdate ip s =
    andthen (bread (i_dev (icache s ! ip)) (IBLOCK (i_inum (icache s ! ip)) (fs_sb s)) s) (\<lambda>(bp, s).
      let i = icache s ! ip; d = put_dinode (dinode_off (i_inum i)) i (bdata s bp) in
      andthen (log_write bp (set_data bp d s)) (brelse bp))"

definition ilock :: "nat \<Rightarrow> ('d, 'z) fs_scheme \<Rightarrow> ('d, 'z) fs_scheme result" where
  "ilock ip s =
    (if i_ref (icache s ! ip) < 1 then Inl (Panic ''ilock'')
     else andthen (acquiresleep (cur_pid s) (i_lock (icache s ! ip))) (\<lambda>lk.
       let s = upd_inode ip (i_lock_update (\<lambda>_. lk)) s in
       if i_valid (icache s ! ip) then Inr s
       else andthen (bread (i_dev (icache s ! ip)) (IBLOCK (i_inum (icache s ! ip)) (fs_sb s)) s) (\<lambda>(bp, s).
         let s = upd_inode ip (get_dinode (bdata s bp) (dinode_off (i_inum (icache s ! ip)))) s in
         andthen (brelse bp s) (\<lambda>s.
         let s = upd_inode ip (i_valid_update (\<lambda>_. True)) s in
         if i_type (icache s ! ip) = 0 then Inl (Panic ''ilock: no type'') else Inr s))))"

definition iunlock :: "nat \<Rightarrow> ('d, 'z) fs_scheme \<Rightarrow> ('d, 'z) fs_scheme result" where
  "iunlock ip s =
    (if \<not> holdingsleep (i_lock (icache s ! ip)) \<or> i_ref (icache s ! ip) < 1 then Inl (Panic ''iunlock'')
     else Inr (upd_inode ip (i_lock_update releasesleep) s))"

section \<open>The block map\<close>

text \<open>The assignment \<open>ip->addrs[i] = addr\<close>.\<close>

definition set_addr :: "nat \<Rightarrow> nat \<Rightarrow> u32 \<Rightarrow> ('d, 'z) fs_scheme \<Rightarrow> ('d, 'z) fs_scheme" where
  "set_addr ip i addr s = upd_inode ip (i_addrs_update (\<lambda>as. as[i := addr])) s"

text \<open>\<open>if((addr = ip->addrs[i]) == 0) ip->addrs[i] = addr = balloc(ip->dev)\<close>, which \<open>bmap\<close> has twice.\<close>

definition addr_alloc :: "nat \<Rightarrow> nat \<Rightarrow> ('d, 'z) fs_scheme \<Rightarrow> (u32 \<times> ('d, 'z) fs_scheme) result" where
  "addr_alloc ip i s =
    (let addr = i_addrs (icache s ! ip) ! i in
     if addr = 0 then
       andthen (balloc (i_dev (icache s ! ip)) s) (\<lambda>(addr, s). Inr (addr, set_addr ip i addr s))
     else Inr (addr, s))"

definition bmap :: "nat \<Rightarrow> u32 \<Rightarrow> ('d, 'z) fs_scheme \<Rightarrow> (u32 \<times> ('d, 'z) fs_scheme) result" where
  "bmap ip bn s =
    (if unat bn < NDIRECT then addr_alloc ip (unat bn) s
     else
       let bn = unat bn - NDIRECT in
       if bn < NINDIRECT then
         andthen (addr_alloc ip NDIRECT s) (\<lambda>(addr, s).
         andthen (bread (i_dev (icache s ! ip)) addr s) (\<lambda>(bp, s).
           let addr = get32 (bdata s bp) (4 * bn) in
           if addr = 0 then
             andthen (balloc (i_dev (icache s ! ip)) s) (\<lambda>(addr, s).
             andthen (log_write bp (set_data bp (put32 (4 * bn) addr (bdata s bp)) s)) (\<lambda>s.
             andthen (brelse bp s) (\<lambda>s. Inr (addr, s))))
           else andthen (brelse bp s) (\<lambda>s. Inr (addr, s))))
       else Inl (Panic ''bmap: out of range''))"

definition itrunc_direct :: "nat \<Rightarrow> nat \<Rightarrow> ('d, 'z) fs_scheme \<Rightarrow> ('d, 'z) fs_scheme result" where
  "itrunc_direct ip i s =
    (let a = i_addrs (icache s ! ip) ! i in
     if a \<noteq> 0 then andthen (bfree (i_dev (icache s ! ip)) a s) (\<lambda>s. Inr (set_addr ip i 0 s)) else Inr s)"

definition itrunc_indirect :: "nat \<Rightarrow> nat \<Rightarrow> nat \<Rightarrow> ('d, 'z) fs_scheme \<Rightarrow> ('d, 'z) fs_scheme result" where
  "itrunc_indirect ip bp j s =
    (let a = get32 (bdata s bp) (4 * j) in if a \<noteq> 0 then bfree (i_dev (icache s ! ip)) a s else Inr s)"

definition itrunc :: "nat \<Rightarrow> ('d, 'z) fs_scheme \<Rightarrow> ('d, 'z) fs_scheme result" where
  "itrunc ip s =
    andthen (each (itrunc_direct ip) [0..<NDIRECT] s) (\<lambda>s.
      let ind = i_addrs (icache s ! ip) ! NDIRECT in
      andthen
        (if ind \<noteq> 0 then
           andthen (bread (i_dev (icache s ! ip)) ind s) (\<lambda>(bp, s).
           andthen (each (itrunc_indirect ip bp) [0..<NINDIRECT] s) (\<lambda>s.
           andthen (brelse bp s) (\<lambda>s.
           andthen (bfree (i_dev (icache s ! ip)) ind s) (\<lambda>s. Inr (set_addr ip NDIRECT 0 s)))))
         else Inr s)
        (\<lambda>s. iupdate ip (upd_inode ip (i_size_update (\<lambda>_. 0)) s)))"

definition iput :: "nat \<Rightarrow> ('d, 'z) fs_scheme \<Rightarrow> ('d, 'z) fs_scheme result" where
  "iput ip s =
    andthen (acquiresleep (cur_pid s) (i_lock (icache s ! ip))) (\<lambda>lk.
      let s = upd_inode ip (i_lock_update (\<lambda>_. lk)) s; i = icache s ! ip in
      andthen
        (if i_valid i \<and> i_nlink i = 0 \<and> i_ref i = 1 then
           andthen (itrunc ip s) (\<lambda>s.
           andthen (iupdate ip (upd_inode ip (i_type_update (\<lambda>_. 0)) s)) (\<lambda>s.
           Inr (upd_inode ip (i_valid_update (\<lambda>_. False)) s)))
         else Inr s)
        (\<lambda>s. Inr (upd_inode ip (\<lambda>i. i\<lparr>i_lock := releasesleep (i_lock i), i_ref := i_ref i - 1\<rparr>) s)))"

definition iunlockput :: "nat \<Rightarrow> ('d, 'z) fs_scheme \<Rightarrow> ('d, 'z) fs_scheme result" where
  "iunlockput ip s = andthen (iunlock ip s) (iput ip)"

section \<open>Contents\<close>

record stat =
  st_type :: u16
  st_dev :: u32
  st_ino :: u32
  st_nlink :: u16
  stat_size :: u32

definition stati :: "inode \<Rightarrow> stat" where
  "stati ip = \<lparr>st_type = i_type ip, st_dev = i_dev ip, st_ino = i_inum ip, st_nlink = i_nlink ip, stat_size = i_size ip\<rparr>"

text \<open>The device number as an index of \<open>devsw\<close>, when it is in range.\<close>

definition major_index :: "inode \<Rightarrow> nat option" where
  "major_index ip = (if sint (i_major ip) < 0 \<or> sint (i_major ip) \<ge> int NDEV then None else Some (unat (i_major ip)))"

text \<open>The bytes moved in one turn of the loops of \<open>readi\<close> and \<open>writei\<close>.\<close>

definition chunk :: "u32 \<Rightarrow> nat \<Rightarrow> nat" where
  "chunk off left = min left (BSIZE - unat off mod BSIZE)"

lemma chunk_pos: "0 < left \<Longrightarrow> 0 < chunk off left"
  by (simp add: chunk_def BSIZE_def)

text \<open>\<open>left\<close> is \<open>n - tot\<close>.\<close>

function readi_loop :: "nat \<Rightarrow> u32 \<Rightarrow> nat \<Rightarrow> ('d, 'z) fs_scheme \<Rightarrow> (u8 list \<times> ('d, 'z) fs_scheme) result" where
  "readi_loop ip off left s =
    (if left = 0 then Inr ([], s)
     else
       andthen (bmap ip (off div of_nat BSIZE) s) (\<lambda>(addr, s).
       andthen (bread (i_dev (icache s ! ip)) addr s) (\<lambda>(bp, s).
         let m = chunk off left; bs = get_bytes (unat off mod BSIZE) m (bdata s bp) in
         andthen (brelse bp s) (\<lambda>s.
         andthen (readi_loop ip (off + of_nat m) (left - m) s) (\<lambda>(cs, s). Inr (bs @ cs, s))))))"
  by pat_completeness auto
termination
  by (relation "measure (\<lambda>(ip, off, left, s). left)") (simp_all add: chunk_pos)

declare readi_loop.simps [simp del]

definition readi :: "nat \<Rightarrow> u32 \<Rightarrow> u32 \<Rightarrow> ('d, 'z) fs_scheme \<Rightarrow> (int \<times> u8 list \<times> ('d, 'z) fs_scheme) result" where
  "readi ip off n s =
    (let i = icache s ! ip in
     if i_type i = T_DEV then
       (case Option.bind (major_index i) (\<lambda>m. dev_read (fs_devsw s m)) of
          None \<Rightarrow> Inr (- 1, [], s)
        | Some f \<Rightarrow> andthen (f n (fs_dev s)) (\<lambda>(r, bs, d). Inr (r, bs, s\<lparr>fs_dev := d\<rparr>)))
     else if off > i_size i \<or> off + n < off then Inr (- 1, [], s)
     else
       let n = (if off + n > i_size i then i_size i - off else n) in
       andthen (readi_loop ip off (unat n) s) (\<lambda>(bs, s). Inr (sint n, bs, s)))"

text \<open>The loop of \<open>writei\<close> on the bytes still to write; it returns the final offset.\<close>

function writei_loop :: "nat \<Rightarrow> u32 \<Rightarrow> u8 list \<Rightarrow> ('d, 'z) fs_scheme \<Rightarrow> (u32 \<times> ('d, 'z) fs_scheme) result" where
  "writei_loop ip off src s =
    (if src = [] then Inr (off, s)
     else
       andthen (bmap ip (off div of_nat BSIZE) s) (\<lambda>(addr, s).
       andthen (bread (i_dev (icache s ! ip)) addr s) (\<lambda>(bp, s).
         let m = chunk off (length src); d = put_bytes (unat off mod BSIZE) (take m src) (bdata s bp) in
         andthen (log_write bp (set_data bp d s)) (\<lambda>s.
         andthen (brelse bp s) (\<lambda>s.
         writei_loop ip (off + of_nat m) (drop m src) s)))))"
  by pat_completeness auto
termination
  by (relation "measure (\<lambda>(ip, off, src, s). length src)") (simp_all add: chunk_pos)

declare writei_loop.simps [simp del]

definition writei :: "nat \<Rightarrow> u8 list \<Rightarrow> u32 \<Rightarrow> ('d, 'z) fs_scheme \<Rightarrow> (int \<times> ('d, 'z) fs_scheme) result" where
  "writei ip src off s =
    (let i = icache s ! ip; n = of_nat (length src) in
     if i_type i = T_DEV then
       (case Option.bind (major_index i) (\<lambda>m. dev_write (fs_devsw s m)) of
          None \<Rightarrow> Inr (- 1, s)
        | Some f \<Rightarrow> andthen (f src (fs_dev s)) (\<lambda>(r, d). Inr (r, s\<lparr>fs_dev := d\<rparr>)))
     else if off > i_size i \<or> off + n < off then Inr (- 1, s)
     else if off + n > of_nat (MAXFILE * BSIZE) then Inr (- 1, s)
     else
       andthen (writei_loop ip off src s) (\<lambda>(off, s).
         if n > 0 \<and> off > i_size (icache s ! ip) then
           andthen (iupdate ip (upd_inode ip (i_size_update (\<lambda>_. off)) s)) (\<lambda>s. Inr (sint n, s))
         else Inr (sint n, s)))"

end
