(* ===== verification/Kbd.thy ===== *)
theory Kbd
  imports Prelude
begin

text \<open>
  The keyboard driver, \<open>src/xv6/kbd.c\<close> and the tables of \<open>src/xv6/kbd.h\<close>. A table is the list of its first entries and
  the entries given by designators; all others are 0. The port reads \<open>inb(KBSTATP)\<close> and \<open>inb(KBDATAP)\<close> are
  the arguments \<open>st\<close> and \<open>data\<close>, the static variable \<open>shift\<close> is passed along.
\<close>

definition SHIFT :: u32 where "SHIFT = 1"

definition CTL :: u32 where "CTL = 2"

definition ALT :: u32 where "ALT = 4"

definition CAPSLOCK :: u32 where "CAPSLOCK = 8"

definition NUMLOCK :: u32 where "NUMLOCK = 16"

definition SCROLLLOCK :: u32 where "SCROLLLOCK = 32"

definition E0ESC :: u32 where "E0ESC = 64"

lemmas kbd_defs = SHIFT_def CTL_def ALT_def CAPSLOCK_def NUMLOCK_def SCROLLLOCK_def E0ESC_def

definition table_at :: "u32 list \<Rightarrow> (nat \<times> u32) list \<Rightarrow> nat \<Rightarrow> u32" where
  "table_at base special d =
    (case map_of special d of Some v \<Rightarrow> v | None \<Rightarrow> if d < length base then base ! d else 0)"

definition shiftcode :: "nat \<Rightarrow> u32" where
  "shiftcode d = table_at [] [(0x1D, CTL), (0x2A, SHIFT), (0x36, SHIFT), (0x38, ALT), (0x9D, CTL), (0xB8, ALT)] d"

definition togglecode :: "nat \<Rightarrow> u32" where
  "togglecode d = table_at [] [(0x3A, CAPSLOCK), (0x45, NUMLOCK), (0x46, SCROLLLOCK)] d"

text \<open>The cursor and editing keys, the same in the three character maps.\<close>

definition key_codes :: "(nat \<times> u32) list" where
  "key_codes =
    [(0x97, 0xE0), (0xC8, 0xE2), (0xC9, 0xE6), (0xCB, 0xE4), (0xCD, 0xE5), (0xCF, 0xE1), (0xD0, 0xE3),
     (0xD1, 0xE7), (0xD2, 0xE8), (0xD3, 0xE9)]"

definition normalmap :: "nat \<Rightarrow> u32" where
  "normalmap d = table_at
    [0, 27, 49, 50, 51, 52, 53, 54, 55, 56, 57, 48, 45, 61, 8, 9,
     113, 119, 101, 114, 116, 121, 117, 105, 111, 112, 91, 93, 10, 0, 97, 115,
     100, 102, 103, 104, 106, 107, 108, 59, 39, 96, 0, 92, 122, 120, 99, 118,
     98, 110, 109, 44, 46, 47, 0, 42, 0, 32, 0, 0, 0, 0, 0, 0,
     0, 0, 0, 0, 0, 0, 0, 55, 56, 57, 45, 52, 53, 54, 43, 49,
     50, 51, 48, 46, 0, 0, 0, 0]
    ((0x9C, 10) # (0xB5, 47) # key_codes) d"

definition shiftmap :: "nat \<Rightarrow> u32" where
  "shiftmap d = table_at
    [0, 27, 33, 64, 35, 36, 37, 94, 38, 42, 40, 41, 95, 43, 8, 9,
     81, 87, 69, 82, 84, 89, 85, 73, 79, 80, 123, 125, 10, 0, 65, 83,
     68, 70, 71, 72, 74, 75, 76, 58, 34, 126, 0, 124, 90, 88, 67, 86,
     66, 78, 77, 60, 62, 63, 0, 42, 0, 32, 0, 0, 0, 0, 0, 0,
     0, 0, 0, 0, 0, 0, 0, 55, 56, 57, 45, 52, 53, 54, 43, 49,
     50, 51, 48, 46, 0, 0, 0, 0]
    ((0x9C, 10) # (0xB5, 47) # key_codes) d"

definition ctlmap :: "nat \<Rightarrow> u32" where
  "ctlmap d = table_at
    [0, 0, 0, 0, 0, 0, 0, 0, 0, 0, 0, 0, 0, 0, 0, 0,
     17, 23, 5, 18, 20, 25, 21, 9, 15, 16, 0, 0, 13, 0, 1, 19,
     4, 6, 7, 8, 10, 11, 12, 0, 0, 0, 0, 28, 26, 24, 3, 22,
     2, 14, 13, 0, 0, 239, 0, 0]
    ((0x9C, 13) # (0xB5, 0xEF) # key_codes) d"

definition charcode :: "u32 \<Rightarrow> nat \<Rightarrow> u32" where
  "charcode k = (if k = 0 then normalmap else if k = 1 then shiftmap else ctlmap)"

definition kbdgetc :: "u8 \<Rightarrow> u8 \<Rightarrow> u32 \<Rightarrow> int \<times> u32" where
  "kbdgetc st data shift =
    (if st AND 1 = 0 then (- 1, shift)
     else
       let d = unat data in
       if d = 0xE0 then (0, shift OR E0ESC)
       else if d \<ge> 0x80 then
         let d = (if shift AND E0ESC \<noteq> 0 then d else d - 0x80)
         in (0, shift AND NOT (shiftcode d OR E0ESC))
       else
         let (d, shift) = (if shift AND E0ESC \<noteq> 0 then (d + 0x80, shift AND NOT E0ESC) else (d, shift));
             shift = shift OR shiftcode d;
             shift = shift XOR togglecode d;
             c = charcode (shift AND (CTL OR SHIFT)) d;
             c = (if shift AND CAPSLOCK \<noteq> 0 then
                    if 97 \<le> c \<and> c \<le> 122 then c - 32 else if 65 \<le> c \<and> c \<le> 90 then c + 32 else c
                  else c)
         in (uint c, shift))"

end
