(* ===== verification/Console.thy ===== *)
theory Console
  imports Graphic Printf Ring Inode Kbd
begin

text \<open>
  The console of \<open>src/xv6/console.c\<close>: output to the screen and the serial port, the input buffer with its line editing,
  and the device functions. The state extends the screen with the flag \<open>panicked\<close>, the struct \<open>input\<close> and the
  serial port (whether it is present, and the bytes sent so far). The lock \<open>cons.lock\<close> brackets each operation and is
  left out. \<open>uartputc\<close> waits for the transmitter a bounded time and sends; only the sending is modelled.
\<close>

section \<open>Output\<close>

definition INPUT_BUF :: nat where "INPUT_BUF = 128"

record cons = screen +
  panicked :: bool
  in_buf :: "u8 list"
  in_r :: u32
  in_w :: u32
  in_e :: u32
  uart :: bool
  uart_out :: "u8 list"

definition uartputc :: "int \<Rightarrow> 'z cons_scheme \<Rightarrow> 'z cons_scheme" where
  "uartputc c s = (if uart s then s\<lparr>uart_out := uart_out s @ [of_int c]\<rparr> else s)"

definition consputc :: "int \<Rightarrow> 'z cons_scheme \<Rightarrow> 'z cons_scheme result" where
  "consputc c s =
    (if panicked s then Inl Diverge
     else
       graphic_putc c
         (if c = BACKSPACE then uartputc 8 (uartputc 32 (uartputc 8 s)) else uartputc c s))"

definition cons_bytes :: "u8 list \<Rightarrow> 'z cons_scheme \<Rightarrow> 'z cons_scheme result" where
  "cons_bytes bs s = each (\<lambda>b. consputc (uint b)) bs s"

text \<open>\<open>panic\<close>: \<open>apicid\<close> is \<open>lapicid()\<close>, \<open>pcs\<close> the result of \<open>getcallerpcs\<close>; it never returns.\<close>

definition panic_bytes :: "u32 \<Rightarrow> u8 list \<Rightarrow> u32 list \<Rightarrow> u8 list" where
  "panic_bytes apicid msg pcs =
    [108, 97, 112, 105, 99, 105, 100, 32] @ cons_printint apicid 10 True @ [58, 32, 112, 97, 110, 105, 99, 58, 32] @
    msg @ [10] @ concat (map (\<lambda>pc. 32 # cons_printint pc 16 False) pcs)"

definition panic_cons :: "u32 \<Rightarrow> u8 list \<Rightarrow> u32 list \<Rightarrow> 'z cons_scheme \<Rightarrow> 'z cons_scheme result" where
  "panic_cons apicid msg pcs s = andthen (cons_bytes (panic_bytes apicid msg pcs) s) (\<lambda>s. Inr (s\<lparr>panicked := True\<rparr>))"

section \<open>Input\<close>

definition ctrl :: "u8 \<Rightarrow> int" where
  "ctrl x = uint x - 64"

text \<open>The loop of \<open>^U\<close>: back over the line being edited.\<close>

function kill_line :: "'z cons_scheme \<Rightarrow> 'z cons_scheme result" where
  "kill_line s =
    (if in_e s \<noteq> in_w s \<and> in_buf s ! (unat (in_e s - 1) mod INPUT_BUF) \<noteq> 10
     then andthen (consputc BACKSPACE (s\<lparr>in_e := in_e s - 1\<rparr>)) kill_line
     else Inr s)"
  by pat_completeness auto
termination
proof (relation "measure (\<lambda>s. unat (in_e s - in_w s))")
  fix s s' :: "'z cons_scheme"
  assume "in_e s \<noteq> in_w s \<and> in_buf s ! (unat (in_e s - 1) mod INPUT_BUF) \<noteq> 10"
    and "consputc BACKSPACE (s\<lparr>in_e := in_e s - 1\<rparr>) = Inr s'"
  then have ne: "in_e s - in_w s \<noteq> 0" and "in_e s' = in_e s - 1" "in_w s' = in_w s"
    by (auto simp: consputc_def graphic_putc_def uartputc_def screen_defs split: if_splits)
  then have "in_e s' - in_w s' = in_e s - in_w s - 1" by simp
  moreover have "0 < unat (in_e s - in_w s)" using ne by (intro gr0I notI) (simp only: unat_eq_zero)
  ultimately show "(s', s) \<in> measure (\<lambda>s. unat (in_e s - in_w s))" using ne by (simp add: unat_minus_one)
qed simp

declare kill_line.simps [simp del]

text \<open>The effect of \<open>wakeup(&input.r)\<close> and \<open>doprocdump = 1\<close> is reported in two flags.\<close>

record cevents =
  ev_procdump :: bool
  ev_wakeup :: bool

definition cons_put :: "u8 \<Rightarrow> 'z cons_scheme \<Rightarrow> 'z cons_scheme" where
  "cons_put c s = s\<lparr>in_buf := (in_buf s)[unat (in_e s) mod INPUT_BUF := c], in_e := in_e s + 1\<rparr>"

definition console_char :: "int \<Rightarrow> cevents \<times> 'z cons_scheme \<Rightarrow> (cevents \<times> 'z cons_scheme) result" where
  "console_char c = (\<lambda>(ev, s).
    if c = ctrl 80 then Inr (ev\<lparr>ev_procdump := True\<rparr>, s)
    else if c = ctrl 85 then andthen (kill_line s) (\<lambda>s. Inr (ev, s))
    else if c = ctrl 72 \<or> c = 0x7F then
      if in_e s \<noteq> in_w s then andthen (consputc BACKSPACE (s\<lparr>in_e := in_e s - 1\<rparr>)) (\<lambda>s. Inr (ev, s)) else Inr (ev, s)
    else if c \<noteq> 0 \<and> in_e s - in_r s < of_nat INPUT_BUF then
      let c = (if c = 13 then 10 else c); s = cons_put (of_int c) s in
      andthen (consputc c s) (\<lambda>s.
        if c = 10 \<or> c = ctrl 68 \<or> in_e s = in_r s + of_nat INPUT_BUF
        then Inr (ev\<lparr>ev_wakeup := True\<rparr>, s\<lparr>in_w := in_e s\<rparr>) else Inr (ev, s))
    else Inr (ev, s))"

text \<open>The characters \<open>getc\<close> delivers before it returns a negative number.\<close>

definition consoleintr :: "int list \<Rightarrow> 'z cons_scheme \<Rightarrow> (cevents \<times> 'z cons_scheme) result" where
  "consoleintr cs s = each console_char cs (\<lparr>ev_procdump = False, ev_wakeup = False\<rparr>, s)"

definition cons_get :: "'z cons_scheme \<Rightarrow> u8 \<times> 'z cons_scheme" where
  "cons_get s = (in_buf s ! (unat (in_r s) mod INPUT_BUF), s\<lparr>in_r := in_r s + 1\<rparr>)"

text \<open>\<open>consoleread\<close> up to the point where it returns or sleeps; \<open>got\<close> says whether a byte has been delivered.\<close>

datatype cstatus = CRet int | CWait nat

fun consoleread_loop :: "bool \<Rightarrow> nat \<Rightarrow> u8 list \<Rightarrow> 'z cons_scheme \<Rightarrow> cstatus \<times> u8 list \<times> 'z cons_scheme" where
  "consoleread_loop killed 0 acc s = (CRet (int (length acc)), rev acc, s)"
| "consoleread_loop killed (Suc n) acc s =
    (if in_r s = in_w s then (if killed then CRet (- 1) else CWait (Suc n), rev acc, s)
     else case cons_get s of (c, s') \<Rightarrow>
       if c = 4 then (CRet (int (length acc)), rev acc, if acc \<noteq> [] then s'\<lparr>in_r := in_r s' - 1\<rparr> else s')
       else if c = 10 then (CRet (int (length acc) + 1), rev (c # acc), s')
       else consoleread_loop killed n (c # acc) s')"

definition consoleread :: "bool \<Rightarrow> int \<Rightarrow> 'z cons_scheme \<Rightarrow> cstatus \<times> u8 list \<times> 'z cons_scheme" where
  "consoleread killed n s = consoleread_loop killed (nat n) [] s"

definition consolewrite :: "u8 list \<Rightarrow> 'z cons_scheme \<Rightarrow> (int \<times> 'z cons_scheme) result" where
  "consolewrite buf s = andthen (cons_bytes buf s) (\<lambda>s. Inr (int (length buf), s))"

text \<open>
  The entry \<open>devsw[CONSOLE]\<close>. The device functions unlock the inode while they work and lock it again, which in
  a run of one process restores the lock.
\<close>

definition console_dev :: "bool \<Rightarrow> cons devsw" where
  "console_dev killed =
    \<lparr>dev_read = Some (\<lambda>n s. case consoleread killed (sint n) s of
       (CRet r, bs, s) \<Rightarrow> Inr (r, bs, s) | (CWait _, _, _) \<Rightarrow> Inl (Sleep ''consoleread'')),
     dev_write = Some consolewrite\<rparr>"

text \<open>\<open>Starting XV6_UEFI...\<close>\<close>

definition banner :: "u8 list" where
  "banner = [83, 116, 97, 114, 116, 105, 110, 103, 32, 88, 86, 54, 95, 85, 69, 70, 73, 46, 46, 46, 10]"

definition consoleinit :: "'z cons_scheme \<Rightarrow> 'z cons_scheme result" where
  "consoleinit s = each (\<lambda>b. graphic_putc (uint b)) banner (s\<lparr>panicked := False\<rparr>)"

end
