(* ===== verification/Page_Alloc.thy ===== *)
theory Page_Alloc
  imports Mmu
begin

text \<open>
  What an allocator of 4096-byte pages promises its clients: the set of free pages, handed out one
  at a time and never twice without a release in between, and the rest of the memory untouched.
  \<open>Kalloc\<close> shows that the free list of \<open>src/xv6/kalloc.c\<close> keeps these promises.
\<close>

abbreviation in_page :: "u32 \<Rightarrow> u32 \<Rightarrow> bool" where
  "in_page v x \<equiv> in_range v 4096 x"

locale page_alloc =
  fixes ok :: "'s \<Rightarrow> bool" and pages :: "'s \<Rightarrow> u32 set" and free :: "'s \<Rightarrow> u32 set" and mem :: "'s \<Rightarrow> mem"
    and alloc :: "'s \<Rightarrow> u32 \<times> 's" and release :: "u32 \<Rightarrow> 's \<Rightarrow> 's result" and poke :: "mem \<Rightarrow> 's \<Rightarrow> 's"
  assumes null: "0 \<notin> pages s"
    and aligned: "p \<in> pages s \<Longrightarrow> unat p mod 4096 = 0"
    and free_pages: "ok s \<Longrightarrow> free s \<subseteq> pages s"
    and finite_free: "ok s \<Longrightarrow> finite (free s)"
    and alloc_some: "ok s \<Longrightarrow> free s \<noteq> {} \<Longrightarrow>
      \<exists>p s'. alloc s = (p, s') \<and> p \<in> free s \<and> free s' = free s - {p} \<and> ok s' \<and> mem s' = mem s \<and> pages s' = pages s"
    and alloc_none: "ok s \<Longrightarrow> free s = {} \<Longrightarrow> alloc s = (0, s)"
    and release: "ok s \<Longrightarrow> p \<in> pages s \<Longrightarrow> p \<notin> free s \<Longrightarrow>
      \<exists>s'. release p s = Inr s' \<and> free s' = insert p (free s) \<and> ok s' \<and> pages s' = pages s \<and>
        (\<forall>x. \<not> in_page p x \<longrightarrow> mem s' x = mem s x)"
    and poke: "ok s \<Longrightarrow> (\<And>p x. p \<in> free s \<Longrightarrow> in_page p x \<Longrightarrow> m x = mem s x) \<Longrightarrow>
      ok (poke m s) \<and> free (poke m s) = free s \<and> mem (poke m s) = m \<and> pages (poke m s) = pages s"
begin

text \<open>Two allocations in a row return different pages, whatever the caller writes into the first.\<close>

lemma alloc_twice:
  assumes "ok s" "2 \<le> card (free s)"
  shows "\<exists>p q s1 s2. alloc s = (p, s1) \<and> alloc s1 = (q, s2) \<and> p \<noteq> q \<and> p \<in> free s \<and> q \<in> free s \<and>
    free s2 = free s - {p, q} \<and> ok s2"
proof -
  have "free s \<noteq> {}" using assms(2) by auto
  from alloc_some [OF assms(1) this] obtain p s1 where 1: "alloc s = (p, s1)" "p \<in> free s" "free s1 = free s - {p}" "ok s1"
    by blast
  have "card (free s1) = card (free s) - 1" using 1 finite_free [OF assms(1)] by simp
  then have "free s1 \<noteq> {}" using assms(2) by auto
  from alloc_some [OF 1(4) this] 1 show ?thesis by fastforce
qed

text \<open>A page that is released is the page set before its allocation again.\<close>

lemma alloc_release:
  assumes "ok s" "alloc s = (p, s1)" "p \<noteq> 0"
  shows "\<exists>s2. release p s1 = Inr s2 \<and> free s2 = free s \<and> ok s2 \<and> (\<forall>x. \<not> in_page p x \<longrightarrow> mem s2 x = mem s x)"
proof -
  have "free s \<noteq> {}" using alloc_none [OF assms(1)] assms(2,3) by auto
  from alloc_some [OF assms(1) this] assms(2)
  have 1: "p \<in> free s" "free s1 = free s - {p}" "ok s1" "mem s1 = mem s" "pages s1 = pages s" by auto
  moreover have "p \<in> pages s" using 1(1) free_pages [OF assms(1)] by blast
  ultimately show ?thesis using release [of s1 p] by auto
qed

end

end
