(* ===== verification/Kalloc.thy ===== *)
theory Kalloc
  imports Page_Alloc
begin

text \<open>
  The physical page allocator of \<open>src/xv6/kalloc.c\<close>. The free list is threaded through the free pages
  themselves: the first word of a free page is the address of the next one. \<open>k_end\<close> is the address
  \<open>end\<close> that the linker script defines. The spin lock \<open>kmem.lock\<close> is left out; \<open>use_lock\<close> is kept.
\<close>

section \<open>State and operations\<close>

record kmem =
  k_mem :: mem
  freelist :: u32
  use_lock :: bool
  k_end :: u32

definition kfree :: "u32 \<Rightarrow> 'z kmem_scheme \<Rightarrow> 'z kmem_scheme result" where
  "kfree v s =
    (if v mod PGSIZE \<noteq> 0 \<or> v < k_end s \<or> V2P v \<ge> PHYSTOP then Inl (Panic ''kfree'')
     else Inr (s\<lparr>k_mem := store32 v (freelist s) (memset v 1 PGSIZE (k_mem s)), freelist := v\<rparr>))"

definition kalloc :: "'z kmem_scheme \<Rightarrow> u32 \<times> 'z kmem_scheme" where
  "kalloc s =
    (let r = freelist s
     in if r \<noteq> 0 then (r, s\<lparr>freelist := load32 (k_mem s) r\<rparr>) else (r, s))"

definition page_ok :: "'z kmem_scheme \<Rightarrow> u32 \<Rightarrow> bool" where
  "page_ok s v \<longleftrightarrow> v mod PGSIZE = 0 \<and> k_end s \<le> v \<and> V2P v < PHYSTOP"

lemma kfree_Inr: "kfree v s = Inr s' \<Longrightarrow> page_ok s v"
  by (auto simp: kfree_def page_ok_def not_less not_le split: if_splits)

lemma page_ok_below: "page_ok s v \<Longrightarrow> KERNBASE \<le> v \<and> v < KERNBASE + PHYSTOP"
proof -
  assume "page_ok s v"
  then have "v - 0x80000000 < 0x20000000" by (simp add: page_ok_def mmu_defs)
  then show ?thesis unfolding mmu_defs by (unat_arith, simp)
qed

text \<open>
  The loop of \<open>freerange\<close>. It ends because \<open>kfree\<close> refuses a page beyond \<open>PHYSTOP\<close>, long before
  the address wraps around.
\<close>

function freerange_loop :: "u32 \<Rightarrow> u32 \<Rightarrow> 'z kmem_scheme \<Rightarrow> 'z kmem_scheme result" where
  "freerange_loop p vend s =
    (if p + PGSIZE \<le> vend then andthen (kfree p s) (freerange_loop (p + PGSIZE) vend) else Inr s)"
  by pat_completeness auto
termination
proof (relation "measure (\<lambda>(p, vend, s). 2 ^ 32 - unat p)")
  fix p vend and s s' :: "'z kmem_scheme"
  assume "kfree p s = Inr s'"
  then have "p < KERNBASE + PHYSTOP" using kfree_Inr page_ok_below by blast
  then have "unat (p + PGSIZE) = unat p + 4096" unfolding mmu_defs by (unat_arith, simp)
  then show "((p + PGSIZE, vend, s'), (p, vend, s)) \<in> measure (\<lambda>(p, vend, s). 2 ^ 32 - unat p)"
    using unat_u32_less [of p] by simp
qed simp

declare freerange_loop.simps [simp del]

definition freerange :: "u32 \<Rightarrow> u32 \<Rightarrow> 'z kmem_scheme \<Rightarrow> 'z kmem_scheme result" where
  "freerange vstart vend s = freerange_loop (PGROUNDUP vstart) vend s"

definition kinit1 :: "u32 \<Rightarrow> u32 \<Rightarrow> 'z kmem_scheme \<Rightarrow> 'z kmem_scheme result" where
  "kinit1 vstart vend s = freerange vstart vend (s\<lparr>use_lock := False\<rparr>)"

definition kinit2 :: "u32 \<Rightarrow> u32 \<Rightarrow> 'z kmem_scheme \<Rightarrow> 'z kmem_scheme result" where
  "kinit2 vstart vend s = andthen (freerange vstart vend s) (\<lambda>s. Inr (s\<lparr>use_lock := True\<rparr>))"

section \<open>The free list\<close>

lemma in_page_aligned:
  assumes "unat v mod 4096 = 0"
  shows "in_page v x \<longleftrightarrow> PGROUNDDOWN x = v"
proof
  assume i: "in_page v x"
  have "unat v \<le> 2 ^ 32 - 4096"
  proof -
    obtain k where k: "unat v = 4096 * k" using assms by (auto elim!: dvdE)
    then have "k + 1 \<le> 1048576" using unat_u32_less [of v] by simp
    with k show ?thesis by simp
  qed
  then have "unat (v + (x - v)) = unat v + unat (x - v)"
    using i by (intro unat_add_u32) (simp add: in_range_def)
  then have x: "unat x = unat v + unat (x - v)" by simp
  have "unat (x - v) < 4096" using i by (simp add: in_range_def)
  then have "unat x mod 4096 = unat (x - v)" using assms x by (simp add: mod_add_left_eq [symmetric])
  then have "unat (PGROUNDDOWN x) = unat v" using x by (simp add: unat_PGROUNDDOWN)
  then show "PGROUNDDOWN x = v" by (simp add: word_unat_eq_iff)
next
  assume "PGROUNDDOWN x = v"
  then have "x - v = x mod 4096" by (auto simp: PGROUNDDOWN_eq)
  then show "in_page v x" by (simp add: in_range_def unat_mod_u32)
qed

lemma pages_disjoint:
  "unat v mod 4096 = 0 \<Longrightarrow> unat w mod 4096 = 0 \<Longrightarrow> v \<noteq> w \<Longrightarrow> in_page v x \<Longrightarrow> \<not> in_page w x"
  by (simp add: in_page_aligned)

lemma load32_frame: "(\<And>x. in_range a 4 x \<Longrightarrow> m' x = m x) \<Longrightarrow> load32 m' a = load32 m a"
  by (simp add: load32_def in_range_4)

fun chain :: "mem \<Rightarrow> u32 \<Rightarrow> u32 list \<Rightarrow> bool" where
  "chain m p [] \<longleftrightarrow> p = 0"
| "chain m p (q # qs) \<longleftrightarrow> p = q \<and> q \<noteq> 0 \<and> chain m (load32 m q) qs"

lemma chain_unique: "chain m p ps \<Longrightarrow> chain m p qs \<Longrightarrow> ps = qs"
proof (induction ps arbitrary: p qs)
  case (Cons q ps)
  then show ?case by (cases qs) auto
qed (auto elim: chain.elims)

lemma chain_frame: "chain m p ps \<Longrightarrow> (\<And>q. q \<in> set ps \<Longrightarrow> load32 m' q = load32 m q) \<Longrightarrow> chain m' p ps"
  by (induction ps arbitrary: p) auto

definition free_list :: "'z kmem_scheme \<Rightarrow> u32 list \<Rightarrow> bool" where
  "free_list s ps \<longleftrightarrow> chain (k_mem s) (freelist s) ps \<and> distinct ps \<and> (\<forall>p \<in> set ps. page_ok s p)"

definition kmem_ok :: "'z kmem_scheme \<Rightarrow> bool" where
  "kmem_ok s \<longleftrightarrow> (\<exists>ps. free_list s ps)"

definition free_pages :: "'z kmem_scheme \<Rightarrow> u32 set" where
  "free_pages s = {p. \<exists>ps. free_list s ps \<and> p \<in> set ps}"

definition all_pages :: "'z kmem_scheme \<Rightarrow> u32 set" where
  "all_pages s = {p. page_ok s p}"

lemma free_list_unique: "free_list s ps \<Longrightarrow> free_list s qs \<Longrightarrow> ps = qs"
  using chain_unique by (auto simp: free_list_def)

lemma free_pages_eq: "free_list s ps \<Longrightarrow> free_pages s = set ps"
  using free_list_unique by (auto simp: free_pages_def)

lemma page_ok_aligned: "page_ok s p \<Longrightarrow> unat p mod 4096 = 0"
  using unat_mod_u32 [of p 4096] by (simp add: page_ok_def PGSIZE_def)

lemma page_ok_null: "\<not> page_ok s 0"
  by (simp add: page_ok_def mmu_defs)

lemma kalloc_list:
  "free_list s [] \<Longrightarrow> kalloc s = (0, s)"
  "free_list s (p # ps) \<Longrightarrow> \<exists>s'. kalloc s = (p, s') \<and> free_list s' ps \<and> k_mem s' = k_mem s \<and> k_end s' = k_end s"
  by (simp_all add: free_list_def kalloc_def page_ok_def)

lemma kfree_list:
  assumes "free_list s ps" "page_ok s p" "p \<notin> set ps"
  shows "\<exists>s'. kfree p s = Inr s' \<and> free_list s' (p # ps) \<and> k_end s' = k_end s \<and>
    (\<forall>x. \<not> in_page p x \<longrightarrow> k_mem s' x = k_mem s x)"
proof -
  let ?m = "store32 p (freelist s) (memset p 1 PGSIZE (k_mem s))"
  let ?s = "s\<lparr>k_mem := ?m, freelist := p\<rparr>"
  have k: "kfree p s = Inr ?s" using assms(2) by (simp add: kfree_def page_ok_def not_less not_le)
  have out: "?m x = k_mem s x" if "\<not> in_page p x" for x
    using that in_range_mono [of p 4 x 4096] by (cases "in_range p 4 x") (auto simp: store32_other memset_spec PGSIZE_def)
  have "load32 ?m q = load32 (k_mem s) q" if "q \<in> set ps" for q
  proof (rule load32_frame)
    fix x assume "in_range q 4 x"
    then have "in_page q x" by (rule in_range_mono) simp
    moreover have q: "page_ok s q" "q \<noteq> p" using assms(1,3) that by (auto simp: free_list_def)
    ultimately have "\<not> in_page p x"
      using pages_disjoint [OF page_ok_aligned [OF q(1)] page_ok_aligned [OF assms(2)] q(2)] by simp
    then show "?m x = k_mem s x" by (rule out)
  qed
  then have "chain ?m (freelist s) ps"
    using assms(1) chain_frame [of "k_mem s" "freelist s" ps ?m] by (simp add: free_list_def)
  then have "free_list ?s (p # ps)"
    using assms page_ok_null [of s] by (auto simp: free_list_def load32_store32_same page_ok_def)
  then show ?thesis using k out by (intro exI [of _ ?s]) auto
qed

interpretation pa: page_alloc kmem_ok all_pages free_pages k_mem kalloc kfree "\<lambda>m s. s\<lparr>k_mem := m\<rparr>"
proof
  fix s :: "'z kmem_scheme" and p and m
  show "0 \<notin> all_pages s" by (simp add: all_pages_def page_ok_null)
  show "p \<in> all_pages s \<Longrightarrow> unat p mod 4096 = 0" by (simp add: all_pages_def page_ok_aligned)
  assume "kmem_ok s"
  then obtain ps where ps: "free_list s ps" by (auto simp: kmem_ok_def)
  note f = free_pages_eq [OF ps]
  show "free_pages s \<subseteq> all_pages s" using ps by (auto simp: f all_pages_def free_list_def)
  show "finite (free_pages s)" by (simp add: f)
  show "free_pages s = {} \<Longrightarrow> kalloc s = (0, s)" using kalloc_list(1) ps by (simp add: f)
  show "\<exists>p s'. kalloc s = (p, s') \<and> p \<in> free_pages s \<and> free_pages s' = free_pages s - {p} \<and> kmem_ok s' \<and>
      k_mem s' = k_mem s \<and> all_pages s' = all_pages s" if ne: "free_pages s \<noteq> {}"
  proof -
    obtain q qs where q: "ps = q # qs" using ne f by (cases ps) auto
    from kalloc_list(2) [OF ps [unfolded q]] obtain s' where s': "kalloc s = (q, s')" "free_list s' qs"
      "k_mem s' = k_mem s" "k_end s' = k_end s" by blast
    have "set qs = set ps - {q}" using ps by (auto simp: q free_list_def)
    with s' show ?thesis
      by (auto simp: f q free_pages_eq [OF s'(2)] kmem_ok_def all_pages_def page_ok_def)
  qed
  show "\<exists>s'. kfree p s = Inr s' \<and> free_pages s' = insert p (free_pages s) \<and> kmem_ok s' \<and> all_pages s' = all_pages s \<and>
      (\<forall>x. \<not> in_page p x \<longrightarrow> k_mem s' x = k_mem s x)" if "p \<in> all_pages s" "p \<notin> free_pages s"
  proof -
    from kfree_list [OF ps, of p] that obtain s' where s': "kfree p s = Inr s'" "free_list s' (p # ps)"
      "k_end s' = k_end s" "\<forall>x. \<not> in_page p x \<longrightarrow> k_mem s' x = k_mem s x" by (auto simp: all_pages_def f)
    then show ?thesis
      by (auto simp: f free_pages_eq [OF s'(2)] kmem_ok_def all_pages_def page_ok_def)
  qed
  assume m: "\<And>p x. p \<in> free_pages s \<Longrightarrow> in_page p x \<Longrightarrow> m x = k_mem s x"
  let ?s = "s\<lparr>k_mem := m\<rparr>"
  have "load32 m q = load32 (k_mem s) q" if "q \<in> set ps" for q
    using m [of q] that f in_range_mono [of q 4 _ 4096] by (intro load32_frame) simp
  then have "free_list ?s ps"
    using ps chain_frame [of "k_mem s" "freelist s" ps m] by (simp add: free_list_def page_ok_def)
  then show "kmem_ok ?s \<and> free_pages ?s = free_pages s \<and> k_mem ?s = m \<and> all_pages ?s = all_pages s"
    using f free_pages_eq [of ?s ps] by (auto simp: kmem_ok_def all_pages_def page_ok_def)
qed

section \<open>Initialisation\<close>

definition whole_pages :: "u32 \<Rightarrow> u32 \<Rightarrow> u32 set" where
  "whole_pages p vend = {q. unat q mod 4096 = 0 \<and> p \<le> q \<and> unat q + 4096 \<le> unat vend}"

lemma aligned_mod: "unat p mod 4096 = 0 \<Longrightarrow> p mod PGSIZE = 0"
  by (simp add: word_unat_eq_iff unat_mod_u32 PGSIZE_def)

lemma whole_pages_step:
  assumes "unat p mod 4096 = 0" "unat p + 4096 \<le> unat vend" "unat (p + PGSIZE) = unat p + 4096"
  shows "whole_pages p vend = insert p (whole_pages (p + PGSIZE) vend)"
proof -
  have "p \<le> q \<longleftrightarrow> q = p \<or> p + PGSIZE \<le> q" if q: "unat q mod 4096 = 0" for q
  proof -
    have "unat p \<le> unat q \<longleftrightarrow> unat q = unat p \<or> unat p + 4096 \<le> unat q"
    proof -
      obtain a b where "unat p = 4096 * a" "unat q = 4096 * b" using assms(1) q by (auto elim!: dvdE)
      then show ?thesis by auto
    qed
    then show ?thesis by (simp add: word_le_nat_alt word_unat_eq_iff assms(3))
  qed
  then show ?thesis using assms(1,2) by (auto simp: whole_pages_def)
qed

lemma freerange_loop_spec:
  assumes "kmem_ok s" "free_pages s \<inter> whole_pages p vend = {}" "unat p mod 4096 = 0" "k_end s \<le> p" "KERNBASE \<le> p"
    "unat vend \<le> 0xA0000000" "unat p \<le> 0xA0001000"
  shows "\<exists>s'. freerange_loop p vend s = Inr s' \<and> kmem_ok s' \<and> free_pages s' = free_pages s \<union> whole_pages p vend \<and>
    k_end s' = k_end s \<and> use_lock s' = use_lock s"
  using assms
proof (induction p vend s rule: freerange_loop.induct)
  case (1 p vend s)
  have np: "unat (p + PGSIZE) = unat p + 4096"
    using "1.prems"(7) by (subst unat_add_u32) (simp_all add: PGSIZE_def)
  then have g: "p + PGSIZE \<le> vend \<longleftrightarrow> unat p + 4096 \<le> unat vend" by (simp add: word_le_nat_alt)
  show ?case
  proof (cases "p + PGSIZE \<le> vend")
    case False
    then have "whole_pages p vend = {}" using g by (auto simp: whole_pages_def word_le_nat_alt)
    then show ?thesis using False "1.prems"(1) by (simp add: freerange_loop.simps)
  next
    case True
    have le: "unat p + 4096 \<le> unat vend" using True g by simp
    note wp = whole_pages_step [OF "1.prems"(3) le np]
    have "p < KERNBASE + PHYSTOP" using le "1.prems"(6) by (simp add: mmu_defs word_less_nat_alt)
    then have "V2P p < PHYSTOP" using "1.prems"(5) unfolding mmu_defs by unat_arith
    then have "page_ok s p" using "1.prems"(3,4) by (simp add: page_ok_def aligned_mod)
    moreover have "p \<notin> free_pages s" using "1.prems"(2) by (auto simp: wp)
    ultimately obtain s1 where s1: "kfree p s = Inr s1" "free_pages s1 = insert p (free_pages s)" "kmem_ok s1"
        "k_end s1 = k_end s" "use_lock s1 = use_lock s"
      using pa.release [OF "1.prems"(1), of p] by (auto simp: all_pages_def kfree_def split: if_splits)
    have "\<exists>s'. freerange_loop (p + PGSIZE) vend s1 = Inr s' \<and> kmem_ok s' \<and>
        free_pages s' = free_pages s1 \<union> whole_pages (p + PGSIZE) vend \<and> k_end s' = k_end s1 \<and> use_lock s' = use_lock s1"
    proof (rule "1.IH" [OF True])
      show "free_pages s1 \<inter> whole_pages (p + PGSIZE) vend = {}"
        using "1.prems"(2) np by (auto simp: s1 wp whole_pages_def word_le_nat_alt)
      show "k_end s1 \<le> p + PGSIZE" "KERNBASE \<le> p + PGSIZE"
        using "1.prems"(4,5) np by (simp_all add: s1 word_le_nat_alt)
    qed (use "1.prems" s1 np le in simp_all)
    then show ?thesis using True s1 by (auto simp: wp freerange_loop.simps [of p])
  qed
qed

lemma round_up_le:
  assumes "q mod 4096 = (0 :: nat)"
  shows "a + 4095 - (a + 4095) mod 4096 \<le> q \<longleftrightarrow> a \<le> q"
proof -
  obtain k where k: "q = 4096 * k" using assms by (auto simp: mod_eq_0_iff_dvd)
  define d where "d = (a + 4095) div 4096"
  have e: "a + 4095 - (a + 4095) mod 4096 = 4096 * d" by (simp add: minus_mod_eq_mult_div d_def)
  have "4096 * d \<le> a + 4095" "a + 4095 < 4096 * d + 4096" unfolding d_def by linarith+
  then show ?thesis unfolding k e by auto
qed

lemma kinit1_spec:
  assumes "freelist s = 0" "k_end s \<le> vstart" "KERNBASE \<le> vstart" "vstart \<le> vend" "vend \<le> P2V PHYSTOP"
  shows "\<exists>s'. kinit1 vstart vend s = Inr s' \<and> kmem_ok s' \<and> free_pages s' = whole_pages vstart vend \<and> \<not> use_lock s'"
proof -
  let ?s = "s\<lparr>use_lock := False\<rparr>" and ?p = "PGROUNDUP vstart"
  have b: "unat vend \<le> 0xA0000000" "unat vstart \<le> 0xA0000000"
    using assms(4,5) by (simp_all add: word_le_nat_alt mmu_defs)
  then have p: "unat ?p = (unat vstart + 4095) - (unat vstart + 4095) mod 4096" by (intro unat_PGROUNDUP) simp
  have al: "unat ?p mod 4096 = 0" unfolding p by (simp add: minus_mod_eq_mult_div)
  have pv: "vstart \<le> ?p" "unat ?p \<le> 0xA0001000" using b by (simp_all add: word_le_nat_alt p)
  have l: "free_list ?s []" using assms(1) by (simp add: free_list_def)
  have f: "free_pages ?s = {}" using free_pages_eq [OF l] by simp
  have w: "whole_pages ?p vend = whole_pages vstart vend"
  proof -
    have "vstart \<le> q \<longleftrightarrow> ?p \<le> q" if "unat q mod 4096 = 0" for q
      using that round_up_le [of "unat q" "unat vstart"] by (simp add: word_le_nat_alt p)
    then show ?thesis by (auto simp: whole_pages_def)
  qed
  have "k_end ?s \<le> ?p" "KERNBASE \<le> ?p" using assms(2,3) pv(1) by (simp_all add: word_le_nat_alt)
  moreover have "kmem_ok ?s" using l by (auto simp: kmem_ok_def)
  ultimately show ?thesis
    using freerange_loop_spec [of ?s ?p vend] al b(1) pv(2) f w by (auto simp: kinit1_def freerange_def)
qed

section \<open>Properties\<close>

text \<open>
  C7. After \<open>kinit1\<close> the free list holds exactly the pages that lie completely between \<open>vstart\<close> and \<open>vend\<close>,
  each once: no page is lost at the ends, none is counted twice, and the loop ends.
\<close>

theorem kinit_frees_range:
  assumes "freelist s = 0" and "k_end s \<le> vstart" and "KERNBASE \<le> vstart" and "vstart \<le> vend" and "vend \<le> P2V PHYSTOP"
  shows "\<exists>s' ps. kinit1 vstart vend s = Inr s' \<and> free_list s' ps \<and> distinct ps \<and>
    set ps = {q. unat q mod 4096 = 0 \<and> vstart \<le> q \<and> unat q + 4096 \<le> unat vend}"
proof -
  obtain s' where s': "kinit1 vstart vend s = Inr s'" "kmem_ok s'" "free_pages s' = whole_pages vstart vend"
    using kinit1_spec [OF assms] by blast
  obtain ps where ps: "free_list s' ps" using s'(2) by (auto simp: kmem_ok_def)
  then show ?thesis using s' free_pages_eq [OF ps] by (auto simp: whole_pages_def free_list_def)
qed

theorem kinit_frees_range_witness:
  "\<exists>s' ps. kinit1 0x80101001 0x80104000 \<lparr>k_mem = (\<lambda>_. 0), freelist = 0, use_lock = True, k_end = 0x80100000\<rparr> = Inr s' \<and>
    free_list s' ps \<and> distinct ps \<and>
    set ps = {q. unat q mod 4096 = 0 \<and> 0x80101001 \<le> q \<and> unat q + 4096 \<le> unat (0x80104000 :: u32)}"
  using kinit_frees_range [of "\<lparr>k_mem = (\<lambda>_. 0), freelist = 0, use_lock = True, k_end = 0x80100000\<rparr>" "0x80101001" "0x80104000"]
  by (simp add: mmu_defs)



end
