(* ===== verification/Net.thy ===== *)
theory Net
  imports Kalloc
begin

text \<open>
  The network stack: \<open>src/xv6/eth.c\<close>, \<open>arp.c\<close>, \<open>ipv4.c\<close>, \<open>icmp.c\<close>, \<open>tcp.c\<close>, \<open>http.c\<close> and the transmit side of the
  e1000 driver \<open>i8254.c\<close>. A packet buffer is the memory from its address on (\<open>pbuf\<close>); a packet that is sent is
  built in a page from the page allocator, so bytes the code does not write are those of the page. The structures
  of \<open>pkts_hdr.h\<close> are packed, so a field is its offset. The state holds the global variables of these files, the page
  allocator, the registers \<open>TDH\<close> and \<open>TDT\<close> of the transmit ring and the packets put into the ring so far.
  Printing is left out.
\<close>

section \<open>Packets\<close>

type_synonym pbuf = "nat \<Rightarrow> u8"

definition put_buf :: "nat \<Rightarrow> u8 list \<Rightarrow> pbuf \<Rightarrow> pbuf" where
  "put_buf off bs b = (\<lambda>i. if off \<le> i \<and> i < off + length bs then bs ! (i - off) else b i)"

definition get_buf :: "pbuf \<Rightarrow> nat \<Rightarrow> nat \<Rightarrow> u8 list" where
  "get_buf b off n = map (\<lambda>i. b (off + i)) [0..<n]"

text \<open>A 16-bit and a 32-bit field as the processor stores it.\<close>

definition put_u16 :: "nat \<Rightarrow> u16 \<Rightarrow> pbuf \<Rightarrow> pbuf" where
  "put_u16 off w b = put_buf off (le16 w) b"

definition put_u32 :: "nat \<Rightarrow> u32 \<Rightarrow> pbuf \<Rightarrow> pbuf" where
  "put_u32 off w b = put_buf off (le32 w) b"

definition get_u16 :: "pbuf \<Rightarrow> nat \<Rightarrow> u16" where
  "get_u16 b off = of_le16 (b off) (b (off + 1))"

definition get_u32 :: "pbuf \<Rightarrow> nat \<Rightarrow> u32" where
  "get_u32 b off = of_le32 (b off) (b (off + 1)) (b (off + 2)) (b (off + 3))"

definition N2H_ushort :: "u16 \<Rightarrow> u16" where
  "N2H_ushort v = push_bit 8 (v AND 0xFF) + drop_bit 8 v"

definition H2N_ushort :: "u16 \<Rightarrow> u16" where
  "H2N_ushort v = push_bit 8 (v AND 0xFF) + drop_bit 8 v"

definition H2N_uint :: "u32 \<Rightarrow> u32" where
  "H2N_uint v =
    push_bit 24 (v AND 0xF) + push_bit 8 (v AND 0xF0) + drop_bit 8 (v AND 0xF00) + drop_bit 24 (v AND 0xF000)"


section \<open>State\<close>

definition ARP_TABLE_MAX :: nat where "ARP_TABLE_MAX = 64"

record arp_entry =
  ae_ip :: "u8 list"
  ae_mac :: "u8 list"
  ae_use :: bool

record net =
  mac_addr :: "u8 list"
  my_ip :: "u8 list"
  arp_tbl :: "arp_entry list"
  ip_id :: int
  send_id :: u16
  seq_num :: u32
  fin_flag :: bool
  n_pg :: kmem
  tdh :: u32
  tdt :: u32
  n_sent :: "(u32 \<times> u8 list) list"

section \<open>The transmit ring\<close>

definition I8254_SEND_DESC_NUM :: u32 where "I8254_SEND_DESC_NUM = 256"

definition tx_available :: "net \<Rightarrow> int" where
  "tx_available s = sint (I8254_SEND_DESC_NUM - (I8254_SEND_DESC_NUM - tdh s + tdt s) mod I8254_SEND_DESC_NUM)"

text \<open>\<open>n_sent\<close> records the descriptor that is filled and the bytes copied to its buffer.\<close>

definition i8254_send :: "pbuf \<Rightarrow> u32 \<Rightarrow> net \<Rightarrow> int \<times> net" where
  "i8254_send pkt len s =
    (if tx_available s > 0 then
       (sint len, s\<lparr>n_sent := n_sent s @ [(tdt s mod I8254_SEND_DESC_NUM, get_buf pkt 0 (unat len))],
          tdt := (tdt s + 1) mod I8254_SEND_DESC_NUM\<rparr>)
     else (- 1, s))"

text \<open>
  \<open>send = kalloc(); ...; i8254_send(send, size); kfree(send)\<close>: the packet is built in the page by \<open>f\<close>. The result of
  \<open>kalloc\<close> is not tested; for a null pointer the stores are undefined.
\<close>

definition page_buf :: "kmem \<Rightarrow> u32 \<Rightarrow> pbuf" where
  "page_buf k a = (\<lambda>i. k_mem k (a + of_nat i))"

definition send_page :: "(pbuf \<Rightarrow> net \<Rightarrow> net) \<Rightarrow> net \<Rightarrow> net result" where
  "send_page f s =
    (case kalloc (n_pg s) of (a, k) \<Rightarrow>
       if a = 0 then Inl (Undefined ''kalloc'')
       else
         let s = f (page_buf k a) (s\<lparr>n_pg := k\<rparr>)
         in andthen (kfree a (n_pg s)) (\<lambda>k. Inr (s\<lparr>n_pg := k\<rparr>)))"

section \<open>ARP\<close>

definition ARP_HARDWARE_TYPE :: u16 where "ARP_HARDWARE_TYPE = 0x0100"

definition ARP_PROTOCOL_TYPE :: u16 where "ARP_PROTOCOL_TYPE = 0x0008"

definition ARP_OPS_REQUEST :: u16 where "ARP_OPS_REQUEST = 0x0100"

definition ARP_OPS_REPLY :: u16 where "ARP_OPS_REPLY = 0x0200"

lemmas arp_defs = ARP_HARDWARE_TYPE_def ARP_PROTOCOL_TYPE_def ARP_OPS_REQUEST_def ARP_OPS_REPLY_def ARP_TABLE_MAX_def

text \<open>
  \<open>struct arp_pkt\<close>: hardware type at 0, protocol type at 2, lengths at 4 and 5, operation at 6, sender MAC at 8, sender IP
  at 14, target MAC at 18, target IP at 24; its size is 30 because \<open>dst_ip\<close> is declared with 6 bytes.
\<close>

definition arp_size :: nat where "arp_size = 30"

definition eth_size :: nat where "eth_size = 14"

definition put_eth :: "u8 list \<Rightarrow> u8 list \<Rightarrow> u8 \<Rightarrow> pbuf \<Rightarrow> pbuf" where
  "put_eth dst src ty b = put_buf 6 src (put_buf 0 dst (put_buf 12 [0x08, ty] b))"

definition put_arp :: "u16 \<Rightarrow> u8 list \<Rightarrow> u8 list \<Rightarrow> u8 list \<Rightarrow> u8 list \<Rightarrow> pbuf \<Rightarrow> pbuf" where
  "put_arp arp_op dmac dip smac sip b =
    (let b = put_u16 eth_size ARP_HARDWARE_TYPE b;
         b = put_u16 (eth_size + 2) ARP_PROTOCOL_TYPE b;
         b = put_buf (eth_size + 4) [6, 4] b;
         b = put_u16 (eth_size + 6) arp_op b;
         b = put_buf (eth_size + 18) dmac b;
         b = put_buf (eth_size + 24) dip b;
         b = put_buf (eth_size + 8) smac b
     in put_buf (eth_size + 14) sip b)"

definition arp_reply_pkt_create :: "pbuf \<Rightarrow> net \<Rightarrow> pbuf \<Rightarrow> pbuf \<times> u32" where
  "arp_reply_pkt_create arp s b =
    (put_arp ARP_OPS_REPLY (get_buf arp 8 6) (get_buf arp 14 4) (mac_addr s) (my_ip s)
       (put_eth (get_buf arp 8 6) (mac_addr s) 0x06 b),
     of_nat (eth_size + arp_size))"

definition arp_broadcast :: "u8 \<Rightarrow> net \<Rightarrow> pbuf \<Rightarrow> pbuf \<times> u32" where
  "arp_broadcast ip s b =
    (put_arp ARP_OPS_REQUEST (replicate 6 0) [10, 0, 1, ip] (mac_addr s) (my_ip s)
       (put_eth (replicate 6 0xFF) (mac_addr s) 0x06 b),
     of_nat (eth_size + arp_size))"

text \<open>The loop of \<open>arp_table_search\<close>, with the local variable \<open>empty\<close>.\<close>

fun arp_search_loop :: "u8 list \<Rightarrow> int \<Rightarrow> int \<Rightarrow> arp_entry list \<Rightarrow> int" where
  "arp_search_loop ip i emp [] = emp - 1"
| "arp_search_loop ip i emp (e # es) =
    (if ae_ip e = ip then i
     else arp_search_loop ip (i + 1) (if \<not> ae_use e \<and> emp = 1 then - i else emp) es)"

definition arp_table_search :: "u8 list \<Rightarrow> arp_entry list \<Rightarrow> int" where
  "arp_table_search ip t = arp_search_loop ip 0 1 t"

definition arp_table_update :: "u8 list \<Rightarrow> u8 list \<Rightarrow> arp_entry list \<Rightarrow> arp_entry list" where
  "arp_table_update ip mac t =
    (let index = arp_table_search ip t in
     if index > - 1 then upd_nth (nat index) (ae_mac_update (\<lambda>_. mac)) t
     else
       let index = - (index + 1)
       in upd_nth (nat index) (\<lambda>e. e\<lparr>ae_mac := mac, ae_ip := ip, ae_use := True\<rparr>) t)"

definition arp_proc :: "pbuf \<Rightarrow> net \<Rightarrow> (int \<times> net) result" where
  "arp_proc arp s =
    (if get_u16 arp 0 \<noteq> ARP_HARDWARE_TYPE \<or> get_u16 arp 2 \<noteq> ARP_PROTOCOL_TYPE \<or> arp 4 \<noteq> 6 \<or> arp 5 \<noteq> 4 then Inr (- 1, s)
     else if my_ip s \<noteq> get_buf arp 24 4 \<and> my_ip s \<noteq> get_buf arp 14 4 then Inr (- 1, s)
     else if get_u16 arp 6 = ARP_OPS_REQUEST \<and> my_ip s = get_buf arp 24 4 then
       andthen (send_page (\<lambda>b s. case arp_reply_pkt_create arp s b of (b, n) \<Rightarrow> snd (i8254_send b n s)) s) (\<lambda>s. Inr (2, s))
     else if get_u16 arp 6 = ARP_OPS_REPLY \<and> my_ip s = get_buf arp 24 4 then
       Inr (1, s\<lparr>arp_tbl := arp_table_update (get_buf arp 14 4) (get_buf arp 8 6) (arp_tbl s)\<rparr>)
     else Inr (- 1, s))"

text \<open>\<open>arp_scan\<close>: the loop that repeats a refused transmission ends at once when the first attempt is accepted.\<close>

definition arp_scan_step :: "nat \<Rightarrow> net \<Rightarrow> net result" where
  "arp_scan_step i s =
    (if tx_available s > 0
     then send_page (\<lambda>b s. case arp_broadcast (of_nat i) s b of (b, n) \<Rightarrow> snd (i8254_send b n s)) s
     else Inl Diverge)"

definition arp_scan :: "net \<Rightarrow> net result" where
  "arp_scan s = each arp_scan_step [0..<256] s"

section \<open>Checksums\<close>

definition word_at :: "pbuf \<Rightarrow> nat \<Rightarrow> u32" where
  "word_at b i = push_bit 8 (ucast (b (2 * i))) + ucast (b (2 * i + 1))"

definition add_carry :: "u32 \<Rightarrow> u32 \<Rightarrow> u32" where
  "add_carry w chk = (let chk = chk + w in if chk > 0xFFFF then (chk AND 0xFFFF) + 1 else chk)"

definition sum_words :: "pbuf \<Rightarrow> nat \<Rightarrow> u32" where
  "sum_words b n = fold (\<lambda>i. add_carry (word_at b i)) [0..<n] 0"

definition ipv4_chksum :: "pbuf \<Rightarrow> u16" where
  "ipv4_chksum b = ucast (NOT (sum_words b (unat (b 0 AND 0xF) * 2)))"

definition icmp_chksum :: "pbuf \<Rightarrow> u16" where
  "icmp_chksum b = ucast (NOT (sum_words b 32))"

definition buf_from :: "nat \<Rightarrow> pbuf \<Rightarrow> pbuf" where
  "buf_from off b = (\<lambda>i. b (off + i))"

text \<open>The pseudo header \<open>struct tcp_dummy\<close>, whose destination is the source address of the packet.\<close>

definition tcp_dummy :: "net \<Rightarrow> pbuf \<Rightarrow> pbuf" where
  "tcp_dummy s ip =
    put_u16 10 (H2N_ushort (N2H_ushort (get_u16 ip 2) - 20))
      (put_buf 8 [0, 6] (put_buf 4 (get_buf ip 12 4) (put_buf 0 (my_ip s) (\<lambda>_. 0))))"

definition tcp_chksum :: "net \<Rightarrow> pbuf \<Rightarrow> u16" where
  "tcp_chksum s ip =
    (let d = tcp_dummy s ip;
         n = unat (N2H_ushort (get_u16 d 10)) div 2;
         chk = sum_list (map (word_at d) [0..<6]) + sum_list (map (word_at (buf_from 20 ip)) [0..<n]);
         chk = chk + drop_bit 16 chk
     in ucast (NOT chk))"

section \<open>IPv4, ICMP and TCP\<close>

text \<open>\<open>struct ipv4_pkt\<close>, at offset 14 of the frame; \<open>ip_hdr\<close> fills it with the checksum.\<close>

definition ip_hdr_len :: "pbuf \<Rightarrow> nat" where
  "ip_hdr_len recv = unat (recv 14 AND 0xF) * 4"

definition put_ipv4 :: "nat \<Rightarrow> u16 \<Rightarrow> u8 \<Rightarrow> pbuf \<Rightarrow> net \<Rightarrow> pbuf \<Rightarrow> pbuf" where
  "put_ipv4 len frag proto recv s b =
    (let b = put_buf 14 [0x45, 0] b;
         b = put_u16 16 (H2N_ushort (of_nat len)) b;
         b = put_u16 18 (send_id s) b;
         b = put_u16 20 (H2N_ushort frag) b;
         b = put_buf 22 [255, proto] b;
         b = put_buf 26 (my_ip s) b;
         b = put_buf 30 (get_buf recv 26 4) b;
         b = put_u16 24 0 b
     in put_u16 24 (H2N_ushort (ipv4_chksum (buf_from 14 b))) b)"

definition icmp_reply_pkt_create :: "pbuf \<Rightarrow> net \<Rightarrow> pbuf \<Rightarrow> pbuf \<times> u32 \<times> net" where
  "icmp_reply_pkt_create recv s b =
    (let icmp = buf_from (14 + ip_hdr_len recv) recv;
         b = put_eth (get_buf recv 6 6) (mac_addr s) 0x00 b;
         b = put_ipv4 84 0x4000 0x1 recv s b;
         b = put_buf 34 [0, 0] b;
         b = put_u16 38 (get_u16 icmp 4) b;
         b = put_u16 40 (get_u16 icmp 6) b;
         b = put_buf 42 (get_buf icmp 8 8) b;
         b = put_buf 50 (get_buf icmp 16 48) b;
         b = put_u16 36 0 b;
         b = put_u16 36 (H2N_ushort (icmp_chksum (buf_from 34 b))) b
     in (b, 98, s\<lparr>send_id := send_id s + 1\<rparr>))"

definition icmp_proc :: "pbuf \<Rightarrow> net \<Rightarrow> net result" where
  "icmp_proc recv s =
    (let icmp = buf_from (14 + ip_hdr_len recv) recv in
     if icmp 1 = 0 \<and> icmp 0 = 8
     then send_page (\<lambda>b s. case icmp_reply_pkt_create recv s b of (b, n, s) \<Rightarrow> snd (i8254_send b n s)) s
     else Inr s)"

definition tcp_pkt_create :: "pbuf \<Rightarrow> u8 \<Rightarrow> nat \<Rightarrow> net \<Rightarrow> pbuf \<Rightarrow> pbuf \<times> u32 \<times> net" where
  "tcp_pkt_create recv ty len s b =
    (let tcp = buf_from (14 + ip_hdr_len recv) recv;
         b = put_eth (get_buf recv 6 6) (mac_addr s) 0x00 b;
         b = put_ipv4 (40 + len) 0 6 recv s b;
         b = put_u16 34 (get_u16 tcp 2) b;
         b = put_u16 36 (get_u16 tcp 0) b;
         b = put_u32 38 (H2N_uint (seq_num s)) b;
         b = put_u32 42 (get_u32 tcp 4 + push_bit 24 1) b;
         b = put_buf 46 [0x50, ty] b;
         b = put_u16 48 (H2N_ushort 14480) b;
         b = put_u16 52 0 b;
         b = put_u16 50 0 b;
         b = put_u16 50 (H2N_ushort (tcp_chksum s (buf_from 14 b) + 8)) b
     in (b, of_nat (54 + len), s\<lparr>send_id := send_id s + 1\<rparr>))"

section \<open>HTTP\<close>

definition http_header :: "u8 list" where
  "http_header = [72, 84, 84, 80, 47, 49, 46, 48, 32, 50, 48, 48, 32, 79, 75, 32, 13, 10]"

definition http_type :: "u8 list" where
  "http_type = [67, 111, 110, 116, 101, 110, 116, 45, 84, 121, 112, 101, 58, 32, 116, 101, 120, 116, 47, 104, 116, 109, 108, 32, 13, 10]"

definition http_body :: "u8 list" where
  "http_body = [13, 10, 72, 101, 108, 108, 111, 32, 87, 111, 114, 108, 100, 33, 13, 10]"

definition http_strcpy :: "nat \<Rightarrow> u8 list \<Rightarrow> pbuf \<Rightarrow> nat \<times> pbuf" where
  "http_strcpy start src b = (length src, put_buf start src b)"

text \<open>The payload is at offset 54 of the frame.\<close>

definition http_proc :: "net \<Rightarrow> pbuf \<Rightarrow> nat \<times> pbuf \<times> net" where
  "http_proc s b =
    (let (len, b) = http_strcpy 54 http_header b;
         (n, b) = http_strcpy (54 + len) http_type b;
         len = len + n;
         (n, b) = http_strcpy (54 + len) http_body b;
         len = len + n;
         b = (if len mod 2 \<noteq> 0 then b(54 + len := 0) else b)
     in (len, b, s\<lparr>fin_flag := True\<rparr>))"

definition tcp_syn_step :: "pbuf \<Rightarrow> pbuf \<Rightarrow> net \<Rightarrow> net" where
  "tcp_syn_step recv b s =
    (case tcp_pkt_create recv 0x12 0 s b of (b, n, s) \<Rightarrow>
       (snd (i8254_send b n s))\<lparr>seq_num := seq_num s + 1\<rparr>)"

definition tcp_push_step :: "pbuf \<Rightarrow> pbuf \<Rightarrow> net \<Rightarrow> net" where
  "tcp_push_step recv b s =
    (case tcp_pkt_create recv 0x10 0 s b of (b, n, s) \<Rightarrow>
       let s = snd (i8254_send b n s) in
       case http_proc s b of (len, b, s) \<Rightarrow>
         (case tcp_pkt_create recv 0x18 len s b of (b, n, s) \<Rightarrow>
            (snd (i8254_send b n s))\<lparr>seq_num := seq_num s + 1\<rparr>))"

definition tcp_ack_step :: "pbuf \<Rightarrow> pbuf \<Rightarrow> net \<Rightarrow> net" where
  "tcp_ack_step recv b s =
    (if fin_flag s then
       case tcp_pkt_create recv 0x01 0 s b of (b, n, s) \<Rightarrow> (snd (i8254_send b n s))\<lparr>fin_flag := False\<rparr>
     else s)"

text \<open>The two arms of the test for \<open>GET\<close> do the same (one also prints).\<close>

definition tcp_proc :: "pbuf \<Rightarrow> net \<Rightarrow> net result" where
  "tcp_proc recv s =
    (let bits = recv (14 + ip_hdr_len recv + 13) in
     send_page (\<lambda>b s.
       if bits AND 0x02 \<noteq> 0 then tcp_syn_step recv b s
       else if bits = 0x18 then tcp_push_step recv b s
       else if bits = 0x10 then tcp_ack_step recv b s
       else s) s)"

definition ipv4_proc :: "pbuf \<Rightarrow> net \<Rightarrow> net result" where
  "ipv4_proc recv s =
    (if ip_id s \<noteq> uint (get_u16 recv 18) \<and> my_ip s \<noteq> get_buf recv 26 4 then
       let s = s\<lparr>ip_id := uint (get_u16 recv 18)\<rparr> in
       if recv 23 = 0x1 then icmp_proc recv s else if recv 23 = 0x6 then tcp_proc recv s else Inr s
     else Inr s)"

definition eth_proc :: "pbuf \<Rightarrow> net \<Rightarrow> net result" where
  "eth_proc recv s =
    (if recv 12 = 0x08 \<and> recv 13 = 0x06 then andthen (arp_proc (buf_from 14 recv) s) (\<lambda>(_, s). Inr s)
     else if recv 12 = 0x08 \<and> recv 13 = 0x00 then ipv4_proc recv s
     else Inr s)"

section \<open>Byte order\<close>





section \<open>Checksums\<close>







lemma put_buf_other [simp]: "i < off \<or> off + length bs \<le> i \<Longrightarrow> put_buf off bs b i = b i"
  by (auto simp: put_buf_def)












text \<open>The test for a free descriptor always succeeds: the number of used ones is taken modulo the size of the ring.\<close>

lemma tx_available_pos: "0 < tx_available s"
proof -
  let ?x = "(256 - tdh s + tdt s) mod 256 :: u32"
  have x: "unat ?x < 256" by (simp add: unat_mod)
  then have "?x \<le> 256" by (simp add: word_le_nat_alt)
  then have "unat (256 - ?x) = 256 - unat ?x" by (subst unat_sub) auto
  then have u: "0 < unat (256 - ?x)" "unat (256 - ?x) \<le> 256" using x by auto
  then have "sint (256 - ?x) = int (unat (256 - ?x))"
    by (intro sint_small) simp
  with u(1) show ?thesis unfolding tx_available_def I8254_SEND_DESC_NUM_def by (simp only: of_nat_0_less_iff)
qed

lemma i8254_send_eq:
  "i8254_send p n s = (sint n, s\<lparr>n_sent := n_sent s @ [(tdt s mod 256, get_buf p 0 (unat n))], tdt := (tdt s + 1) mod 256\<rparr>)"
  using tx_available_pos [of s] by (simp add: i8254_send_def I8254_SEND_DESC_NUM_def)





lemma length_get_buf [simp]: "length (get_buf b off n) = n"
  by (simp add: get_buf_def)










section \<open>The ARP table\<close>











lemma bit_u32_out: "32 \<le> n \<Longrightarrow> \<not> bit (v :: u32) n"
  using bit_imp_le_length [of v n] by auto



lemma le32_cases: "\<exists>a b c d. v = of_le32 a b c d"
  using of_le32_parts [of v] by metis



text \<open>
  C26. \<open>i8254_send\<close> never reports a full ring: whatever the registers hold it takes the packet, overwriting the descriptor at
  the tail. When the card has not taken a packet from a ring of 256, the 257th packet lands in the descriptor of the first.
\<close>

theorem i8254_send_never_full:
  "i8254_send p n s = (sint n, s\<lparr>n_sent := n_sent s @ [(tdt s mod 256, get_buf p 0 (unat n))], tdt := (tdt s + 1) mod 256\<rparr>) \<and>
    map fst (n_sent (((\<lambda>s. snd (i8254_send p n s)) ^^ 257) s)) ! (length (n_sent s) + 256) = tdt s mod 256"
proof
  show "i8254_send p n s = (sint n, s\<lparr>n_sent := n_sent s @ [(tdt s mod 256, get_buf p 0 (unat n))], tdt := (tdt s + 1) mod 256\<rparr>)"
    by (rule i8254_send_eq)
  let ?f = "\<lambda>s. snd (i8254_send p n s)"
  have m: "(x mod 256 + 1) mod 256 = (x + 1) mod 256" for x :: u32
    by (simp add: word_unat_eq_iff unat_mod unat_word_ariths mod_simps mod_mod_cancel)
  have mm: "x mod 256 mod 256 = x mod 256" for x :: u32
    by (simp add: word_unat_eq_iff unat_mod)
  have inv: "tdt ((?f ^^ k) s) mod 256 = (tdt s + of_nat k) mod 256 \<and>
    map fst (n_sent ((?f ^^ k) s)) = map fst (n_sent s) @ map (\<lambda>j. (tdt s + of_nat j) mod 256) [0..<k]" for k
  proof (induction k)
    case (Suc k)
    have "(tdt ((?f ^^ k) s) + 1) mod 256 = (tdt s + of_nat k + 1) mod 256"
      using Suc m [of "tdt ((?f ^^ k) s)"] m [of "tdt s + of_nat k"] by simp
    with Suc show ?case by (simp add: i8254_send_eq mm add.commute add.left_commute)
  qed simp
  have z: "(tdt s + 256) mod 256 = tdt s mod 256"
    by (simp add: word_unat_eq_iff unat_mod unat_word_ariths mod_simps mod_mod_cancel)
  have "map fst (n_sent ((?f ^^ 257) s)) ! (length (n_sent s) + 256) = (tdt s + of_nat 256) mod 256"
    using inv [of 257] by (simp only: nth_append length_map) simp
  with z show "map fst (n_sent ((?f ^^ 257) s)) ! (length (n_sent s) + 256) = tdt s mod 256" by simp
qed

end
