(* ===== verification/Dir.thy ===== *)
theory Dir
  imports Inode
begin

text \<open>
  Directories and path names of \<open>src/xv6/fs.c\<close>. A C string is the list of its bytes before the NUL, so the
  byte after the end of the list reads as 0; the buffer \<open>char name[DIRSIZ]\<close> holds a name without a NUL when the name
  has \<open>DIRSIZ\<close> bytes or more.
\<close>

definition DIRSIZ :: nat where "DIRSIZ = 14"

section \<open>Directory entries\<close>

definition first_byte :: "u8 list \<Rightarrow> u8" where
  "first_byte xs = (case xs of [] \<Rightarrow> 0 | x # _ \<Rightarrow> x)"

text \<open>\<open>strncmp(s, t, n)\<close> on strings.\<close>

fun str_cmp :: "u8 list \<Rightarrow> u8 list \<Rightarrow> nat \<Rightarrow> int" where
  "str_cmp s t 0 = 0"
| "str_cmp s t (Suc n) =
    (let p = first_byte s; q = first_byte t in
     if p \<noteq> 0 \<and> p = q then str_cmp (tl s) (tl t) n else uint p - uint q)"

definition namecmp :: "u8 list \<Rightarrow> u8 list \<Rightarrow> int" where
  "namecmp s t = str_cmp s t DIRSIZ"

text \<open>\<open>struct dirent\<close>: the inode number and the name, 16 bytes; \<open>strncpy\<close> pads the name with zeros.\<close>

definition de_inum :: "u8 list \<Rightarrow> u16" where
  "de_inum de = get16 de 0"

definition de_name :: "u8 list \<Rightarrow> u8 list" where
  "de_name de = drop 2 de"

definition mk_dirent :: "u32 \<Rightarrow> u8 list \<Rightarrow> u8 list" where
  "mk_dirent inum name = le16 (ucast inum) @ take DIRSIZ (name @ replicate DIRSIZ 0)"

text \<open>The offsets of the loops \<open>for(off = 0; off < dp->size; off += sizeof(de))\<close>.\<close>

definition dirent_offs :: "u32 \<Rightarrow> u32 list" where
  "dirent_offs sz = map (\<lambda>i. of_nat (16 * i)) [0..<(unat sz + 15) div 16]"

section \<open>Directories\<close>

fun dirlookup_loop ::
  "nat \<Rightarrow> u8 list \<Rightarrow> u32 list \<Rightarrow> ('d, 'z) fs_scheme \<Rightarrow> ((nat \<times> u32) option \<times> ('d, 'z) fs_scheme) result" where
  "dirlookup_loop dp name [] s = Inr (None, s)"
| "dirlookup_loop dp name (off # offs) s =
    andthen (readi dp off 16 s) (\<lambda>(r, de, s).
      if r \<noteq> 16 then Inl (Panic ''dirlookup read'')
      else if de_inum de = 0 then dirlookup_loop dp name offs s
      else if namecmp name (de_name de) = 0 then
        andthen (iget (i_dev (icache s ! dp)) (ucast (de_inum de)) s) (\<lambda>(ip, s). Inr (Some (ip, off), s))
      else dirlookup_loop dp name offs s)"

text \<open>The result is the inode and the offset stored through \<open>poff\<close>.\<close>

definition dirlookup :: "nat \<Rightarrow> u8 list \<Rightarrow> ('d, 'z) fs_scheme \<Rightarrow> ((nat \<times> u32) option \<times> ('d, 'z) fs_scheme) result" where
  "dirlookup dp name s =
    (if i_type (icache s ! dp) \<noteq> T_DIR then Inl (Panic ''dirlookup not DIR'')
     else dirlookup_loop dp name (dirent_offs (i_size (icache s ! dp))) s)"

text \<open>The search for an empty entry; the offset past the last entry when there is none.\<close>

fun dirlink_loop :: "nat \<Rightarrow> u32 \<Rightarrow> u32 list \<Rightarrow> ('d, 'z) fs_scheme \<Rightarrow> (u32 \<times> ('d, 'z) fs_scheme) result" where
  "dirlink_loop dp end_off [] s = Inr (end_off, s)"
| "dirlink_loop dp end_off (off # offs) s =
    andthen (readi dp off 16 s) (\<lambda>(r, de, s).
      if r \<noteq> 16 then Inl (Panic ''dirlink read'')
      else if de_inum de = 0 then Inr (off, s)
      else dirlink_loop dp end_off offs s)"

definition dirlink :: "nat \<Rightarrow> u8 list \<Rightarrow> u32 \<Rightarrow> ('d, 'z) fs_scheme \<Rightarrow> (int \<times> ('d, 'z) fs_scheme) result" where
  "dirlink dp name inum s =
    andthen (dirlookup dp name s) (\<lambda>(found, s).
      case found of
        Some (ip, _) \<Rightarrow> andthen (iput ip s) (\<lambda>s. Inr (- 1, s))
      | None \<Rightarrow>
          let sz = i_size (icache s ! dp) in
          andthen (dirlink_loop dp (of_nat (16 * ((unat sz + 15) div 16))) (dirent_offs sz) s) (\<lambda>(off, s).
          andthen (writei dp (mk_dirent inum name) off s) (\<lambda>(r, s).
            if r \<noteq> 16 then Inl (Panic ''dirlink'') else Inr (0, s))))"

section \<open>Paths\<close>

abbreviation slash :: u8 where "slash \<equiv> 47"

definition skipelem :: "u8 list \<Rightarrow> (u8 list \<times> u8 list) option" where
  "skipelem path =
    (let path = dropWhile (\<lambda>c. c = slash) path in
     if path = [] then None
     else
       let s = takeWhile (\<lambda>c. c \<noteq> slash) path;
           path = dropWhile (\<lambda>c. c \<noteq> slash) path
       in Some (take DIRSIZ s, dropWhile (\<lambda>c. c = slash) path))"

lemma length_dropWhile_lt: "xs \<noteq> [] \<Longrightarrow> P (hd xs) \<Longrightarrow> length (dropWhile P xs) < length xs"
  by (cases xs) (auto intro: le_imp_less_Suc length_dropWhile_le)

lemma hd_not_slash: "dropWhile (\<lambda>c. c = slash) p \<noteq> [] \<Longrightarrow> hd (dropWhile (\<lambda>c. c = slash) p) \<noteq> slash"
  by (erule hd_dropWhile)

lemma skipelem_shorter: "skipelem path = Some (name, path') \<Longrightarrow> length path' < length path"
proof -
  assume a: "skipelem path = Some (name, path')"
  define p where "p = dropWhile (\<lambda>c. c = slash) path"
  have p: "p \<noteq> []" "path' = dropWhile (\<lambda>c. c = slash) (dropWhile (\<lambda>c. c \<noteq> slash) p)"
    using a by (auto simp: skipelem_def p_def Let_def split: if_splits)
  have "length path' \<le> length (dropWhile (\<lambda>c. c \<noteq> slash) p)" by (simp add: p(2) length_dropWhile_le)
  also have "\<dots> < length p" using p(1) hd_not_slash [of path] by (intro length_dropWhile_lt) (auto simp: p_def)
  also have "\<dots> \<le> length path" by (simp add: p_def length_dropWhile_le)
  finally show ?thesis .
qed

text \<open>The loop of \<open>namex\<close>; a null pointer is \<open>None\<close>.\<close>

function namex_loop ::
  "nat \<Rightarrow> u8 list \<Rightarrow> bool \<Rightarrow> u8 list \<Rightarrow> ('d, 'z) fs_scheme \<Rightarrow> ((nat \<times> u8 list) option \<times> ('d, 'z) fs_scheme) result" where
  "namex_loop ip path parent name s =
    (case skipelem path of
       None \<Rightarrow>
         if parent then andthen (iput ip s) (\<lambda>s. Inr (None, s)) else Inr (Some (ip, name), s)
     | Some (name, path) \<Rightarrow>
         andthen (ilock ip s) (\<lambda>s.
           if i_type (icache s ! ip) \<noteq> T_DIR then andthen (iunlockput ip s) (\<lambda>s. Inr (None, s))
           else if parent \<and> path = [] then andthen (iunlock ip s) (\<lambda>s. Inr (Some (ip, name), s))
           else
             andthen (dirlookup ip name s) (\<lambda>(found, s).
               case found of
                 None \<Rightarrow> andthen (iunlockput ip s) (\<lambda>s. Inr (None, s))
               | Some (nxt, _) \<Rightarrow> andthen (iunlockput ip s) (\<lambda>s. namex_loop nxt path parent name s))))"
  by pat_completeness auto
termination
  by (relation "measure (\<lambda>(ip, path, parent, name, s). length path)") (auto dest: skipelem_shorter)

declare namex_loop.simps [simp del]

text \<open>\<open>cwd\<close> is \<open>myproc()->cwd\<close>.\<close>

definition namex ::
  "nat \<Rightarrow> u8 list \<Rightarrow> bool \<Rightarrow> ('d, 'z) fs_scheme \<Rightarrow> ((nat \<times> u8 list) option \<times> ('d, 'z) fs_scheme) result" where
  "namex cwd path parent s =
    andthen (if first_byte path = slash then iget ROOTDEV ROOTINO s else Inr (idup cwd s))
      (\<lambda>(ip, s). namex_loop ip path parent [] s)"

definition namei :: "nat \<Rightarrow> u8 list \<Rightarrow> ('d, 'z) fs_scheme \<Rightarrow> (nat option \<times> ('d, 'z) fs_scheme) result" where
  "namei cwd path s = andthen (namex cwd path False s) (\<lambda>(r, s). Inr (map_option fst r, s))"

definition nameiparent ::
  "nat \<Rightarrow> u8 list \<Rightarrow> ('d, 'z) fs_scheme \<Rightarrow> ((nat \<times> u8 list) option \<times> ('d, 'z) fs_scheme) result" where
  "nameiparent cwd path s = namex cwd path True s"

end
