(* ===== verification/Pipe.thy ===== *)
theory Pipe
  imports Ring
begin

text \<open>
  Pipes, \<open>src/xv6/pipe.c\<close>. One call of \<open>pipewrite\<close> or \<open>piperead\<close> is followed up to the point where it
  returns or goes to sleep: \<open>Wait\<close> carries the bytes that are still to be written, with which the
  process goes on when it is woken. \<open>killed\<close> is \<open>myproc()->killed\<close>. The step relation \<open>pipe_step\<close>
  interleaves any number of such calls.
\<close>

section \<open>State and operations\<close>

definition PIPESIZE :: nat where "PIPESIZE = 512"

record pipe =
  p_data :: "u8 list"
  p_nread :: u32
  p_nwrite :: u32
  p_readopen :: bool
  p_writeopen :: bool

datatype pstatus = Ret int | Wait "u8 list"

text \<open>The initialisation of \<open>pipealloc\<close>; the page it comes from holds arbitrary bytes.\<close>

definition pipe_init :: "u8 list \<Rightarrow> pipe" where
  "pipe_init junk = \<lparr>p_data = junk, p_nread = 0, p_nwrite = 0, p_readopen = True, p_writeopen = True\<rparr>"

definition pipeclose :: "bool \<Rightarrow> pipe \<Rightarrow> pipe \<times> bool" where
  "pipeclose writable p =
    (let p = (if writable then p\<lparr>p_writeopen := False\<rparr> else p\<lparr>p_readopen := False\<rparr>)
     in (p, \<not> p_readopen p \<and> \<not> p_writeopen p))"

definition pipe_put :: "u8 \<Rightarrow> pipe \<Rightarrow> pipe" where
  "pipe_put c p = p\<lparr>p_data := (p_data p)[unat (p_nwrite p) mod PIPESIZE := c], p_nwrite := p_nwrite p + 1\<rparr>"

definition pipe_get :: "pipe \<Rightarrow> u8 \<times> pipe" where
  "pipe_get p = (p_data p ! (unat (p_nread p) mod PIPESIZE), p\<lparr>p_nread := p_nread p + 1\<rparr>)"

fun pipewrite_loop :: "bool \<Rightarrow> nat \<Rightarrow> u8 list \<Rightarrow> pipe \<Rightarrow> pstatus \<times> pipe" where
  "pipewrite_loop killed n [] p = (Ret (int n), p)"
| "pipewrite_loop killed n (c # cs) p =
    (if p_nwrite p = p_nread p + of_nat PIPESIZE then
       if \<not> p_readopen p \<or> killed then (Ret (- 1), p) else (Wait (c # cs), p)
     else pipewrite_loop killed n cs (pipe_put c p))"

definition pipewrite :: "bool \<Rightarrow> u8 list \<Rightarrow> pipe \<Rightarrow> pstatus \<times> pipe" where
  "pipewrite killed addr p = pipewrite_loop killed (length addr) addr p"

fun piperead_loop :: "nat \<Rightarrow> u8 list \<Rightarrow> pipe \<Rightarrow> u8 list \<times> pipe" where
  "piperead_loop 0 acc p = (rev acc, p)"
| "piperead_loop (Suc n) acc p =
    (if p_nread p = p_nwrite p then (rev acc, p)
     else case pipe_get p of (c, p) \<Rightarrow> piperead_loop n (c # acc) p)"

definition piperead :: "bool \<Rightarrow> nat \<Rightarrow> pipe \<Rightarrow> pstatus \<times> u8 list \<times> pipe" where
  "piperead killed n p =
    (if p_nread p = p_nwrite p \<and> p_writeopen p then
       if killed then (Ret (- 1), [], p) else (Wait [], [], p)
     else case piperead_loop n [] p of (bs, p) \<Rightarrow> (Ret (int (length bs)), bs, p))"

section \<open>The bytes in a pipe\<close>

definition pipe_ok :: "pipe \<Rightarrow> bool" where
  "pipe_ok p \<longleftrightarrow> length (p_data p) = PIPESIZE \<and> unat (p_nwrite p - p_nread p) \<le> PIPESIZE"

definition pipe_items :: "pipe \<Rightarrow> u8 list" where
  "pipe_items p = ring_items (p_data p) (p_nread p) (p_nwrite p)"

interpretation pf: fifo pipe_ok PIPESIZE pipe_items pipe_put pipe_get
proof
  fix p :: pipe and x xs
  assume ok: "pipe_ok p"
  then have len: "length (p_data p) = 512" by (simp add: pipe_ok_def PIPESIZE_def)
  show "pipe_ok (pipe_put x p) \<and> pipe_items (pipe_put x p) = pipe_items p @ [x]" if "length (pipe_items p) < PIPESIZE"
  proof -
    have lt: "unat (p_nwrite p - p_nread p) < length (p_data p)"
      using that len by (simp add: pipe_items_def PIPESIZE_def)
    have "unat (p_nwrite p + 1 - p_nread p) = Suc (unat (p_nwrite p - p_nread p))"
      using lt len by (intro unat_diff_Suc [of _ _ 512]) simp_all
    then show ?thesis
      using ring_put [OF _ _ lt, of x] lt len ok
      by (simp add: pipe_ok_def pipe_items_def pipe_put_def PIPESIZE_def)
  qed
  show "\<exists>p'. pipe_get p = (x, p') \<and> pipe_ok p' \<and> pipe_items p' = xs" if i: "pipe_items p = x # xs"
  proof -
    have ne: "p_nwrite p \<noteq> p_nread p" using i by (auto simp: pipe_items_def)
    from ring_get [OF this, of "p_data p"] i
    have e: "x = p_data p ! (unat (p_nread p) mod 512)" "xs = ring_items (p_data p) (p_nread p + 1) (p_nwrite p)"
      by (simp_all add: pipe_items_def len)
    have "length (ring_items (p_data p) (p_nread p) (p_nwrite p)) = Suc (length xs)" using i by (simp add: pipe_items_def)
    then have "unat (p_nwrite p - (p_nread p + 1)) \<le> PIPESIZE" using ok by (simp add: e pipe_ok_def)
    then show ?thesis using ok e by (simp add: pipe_get_def pipe_ok_def pipe_items_def PIPESIZE_def)
  qed
qed

lemma pipe_full:
  assumes "pipe_ok p"
  shows "p_nwrite p = p_nread p + of_nat PIPESIZE \<longleftrightarrow> length (pipe_items p) = PIPESIZE"
proof
  assume "length (pipe_items p) = PIPESIZE"
  then have "of_nat (unat (p_nwrite p - p_nread p)) = (of_nat PIPESIZE :: u32)" by (simp add: pipe_items_def)
  then show "p_nwrite p = p_nread p + of_nat PIPESIZE" by (simp add: algebra_simps)
qed (simp add: pipe_items_def PIPESIZE_def)

lemma pipe_empty: "p_nread p = p_nwrite p \<longleftrightarrow> pipe_items p = []"
  by (auto simp: pipe_items_def ring_items_Nil)

lemma pipe_put_fields [simp]:
  "p_nread (pipe_put c p) = p_nread p" "p_nwrite (pipe_put c p) = p_nwrite p + 1"
  "p_readopen (pipe_put c p) = p_readopen p" "p_writeopen (pipe_put c p) = p_writeopen p"
  by (simp_all add: pipe_put_def)

lemma pipewrite_loop_spec:
  assumes "pipe_ok p" "pipewrite_loop killed n cs p = (st, p')"
  shows "\<exists>ws rest. cs = ws @ rest \<and> pipe_ok p' \<and> pipe_items p' = pipe_items p @ ws \<and>
    p_nread p' = p_nread p \<and> p_nwrite p' = p_nwrite p + of_nat (length ws) \<and>
    p_readopen p' = p_readopen p \<and> p_writeopen p' = p_writeopen p \<and>
    (if rest = [] then st = Ret (int n)
     else length (pipe_items p') = PIPESIZE \<and> st = (if p_readopen p \<and> \<not> killed then Wait rest else Ret (- 1)))"
  using assms
proof (induction killed n cs p rule: pipewrite_loop.induct)
  case (2 killed n c cs p)
  show ?case
  proof (cases "p_nwrite p = p_nread p + of_nat PIPESIZE")
    case True
    then have "length (pipe_items p) = PIPESIZE" using pipe_full [OF "2.prems"(1)] by simp
    then show ?thesis
      using True "2.prems" by - (rule exI [of _ "[]"], rule exI [of _ "c # cs"], auto split: if_splits)
  next
    case False
    have "length (pipe_items p) \<le> PIPESIZE" using "2.prems"(1) by (simp add: pipe_ok_def pipe_items_def)
    then have "length (pipe_items p) < PIPESIZE" using False pipe_full [OF "2.prems"(1)] by simp
    then have put: "pipe_ok (pipe_put c p)" "pipe_items (pipe_put c p) = pipe_items p @ [c]"
      using pf.put [OF "2.prems"(1)] by auto
    have "pipewrite_loop killed n cs (pipe_put c p) = (st, p')" using "2.prems"(2) False by simp
    from "2.IH" [OF False put(1) this] obtain ws rest where "cs = ws @ rest" "pipe_ok p'"
      "pipe_items p' = pipe_items (pipe_put c p) @ ws" "p_nread p' = p_nread (pipe_put c p)"
      "p_nwrite p' = p_nwrite (pipe_put c p) + of_nat (length ws)"
      "p_readopen p' = p_readopen (pipe_put c p)" "p_writeopen p' = p_writeopen (pipe_put c p)"
      "if rest = [] then st = Ret (int n) else length (pipe_items p') = PIPESIZE \<and>
         st = (if p_readopen (pipe_put c p) \<and> \<not> killed then Wait rest else Ret (- 1))" by blast
    then show ?thesis
      by - (rule exI [of _ "c # ws"], rule exI [of _ rest], auto simp: put split: if_splits)
  qed
qed auto

lemma piperead_loop_spec:
  assumes "pipe_ok p"
  shows "\<exists>p'. piperead_loop n acc p = (rev acc @ take n (pipe_items p), p') \<and> pipe_ok p' \<and>
    pipe_items p' = drop n (pipe_items p) \<and> p_readopen p' = p_readopen p \<and> p_writeopen p' = p_writeopen p"
  using assms
proof (induction n acc p rule: piperead_loop.induct)
  case (2 n acc p)
  show ?case
  proof (cases "pipe_items p")
    case Nil
    then show ?thesis using "2.prems" by (simp add: pipe_empty)
  next
    case (Cons x xs)
    then have ne: "p_nread p \<noteq> p_nwrite p" by (simp add: pipe_empty)
    obtain p1 where g: "pipe_get p = (x, p1)" "pipe_ok p1" "pipe_items p1 = xs"
      using pf.get [OF "2.prems" Cons] by blast
    have fl: "p_readopen p1 = p_readopen p" "p_writeopen p1 = p_writeopen p" using g(1) by (auto simp: pipe_get_def)
    show ?thesis using "2.IH" [OF ne g(1) [symmetric] g(2)] g ne fl by (auto simp: Cons)
  qed
qed auto

section \<open>Readers and writers\<close>

record pipesys =
  ps_pipe :: pipe
  ps_written :: "u8 list"
  ps_read :: "u8 list"

inductive pipe_step :: "pipesys \<Rightarrow> pipesys \<Rightarrow> bool" where
  step_write: "pipewrite_loop killed n cs (ps_pipe s) = (st, p') \<Longrightarrow>
    pipe_step s (s\<lparr>ps_pipe := p',
      ps_written := ps_written s @ take (unat (p_nwrite p' - p_nwrite (ps_pipe s))) cs\<rparr>)"
| step_read: "piperead killed n (ps_pipe s) = (st, bs, p') \<Longrightarrow>
    pipe_step s (s\<lparr>ps_pipe := p', ps_read := ps_read s @ bs\<rparr>)"
| step_close: "pipe_step s (s\<lparr>ps_pipe := fst (pipeclose w (ps_pipe s))\<rparr>)"

inductive pipe_reach :: "pipesys \<Rightarrow> bool" where
  pipe_start: "length junk = PIPESIZE \<Longrightarrow> pipe_reach \<lparr>ps_pipe = pipe_init junk, ps_written = [], ps_read = []\<rparr>"
| pipe_next: "pipe_reach s \<Longrightarrow> pipe_step s s' \<Longrightarrow> pipe_reach s'"

inductive_cases pipe_stepE: "pipe_step s s'"

definition pipe_inv :: "pipesys \<Rightarrow> bool" where
  "pipe_inv s \<longleftrightarrow> pipe_ok (ps_pipe s) \<and> ps_written s = ps_read s @ pipe_items (ps_pipe s)"

lemma pipe_inv_write:
  assumes "pipe_inv s" "pipewrite_loop killed n cs (ps_pipe s) = (st, p')"
  shows "pipe_inv (s\<lparr>ps_pipe := p',
      ps_written := ps_written s @ take (unat (p_nwrite p' - p_nwrite (ps_pipe s))) cs\<rparr>)"
proof -
  have ok: "pipe_ok (ps_pipe s)" using assms(1) by (simp add: pipe_inv_def)
  from pipewrite_loop_spec [OF ok assms(2)] obtain ws rest where w: "cs = ws @ rest" "pipe_ok p'"
    "pipe_items p' = pipe_items (ps_pipe s) @ ws" "p_nwrite p' = p_nwrite (ps_pipe s) + of_nat (length ws)" by blast
  have "length (pipe_items p') \<le> 512" using w(2) by (simp add: pipe_ok_def pipe_items_def PIPESIZE_def)
  then have "length ws < 4294967296" by (simp add: w(3))
  then have "unat (p_nwrite p' - p_nwrite (ps_pipe s)) = length ws" by (simp add: w(4) unat_of_nat)
  then show ?thesis using assms(1) w by (simp add: pipe_inv_def)
qed

lemma piperead_spec:
  assumes "pipe_ok p" "piperead killed n p = (st, bs, p')"
  shows "pipe_ok p' \<and> pipe_items p = bs @ pipe_items p' \<and> p_readopen p' = p_readopen p \<and> p_writeopen p' = p_writeopen p \<and>
    (if pipe_items p = [] \<and> p_writeopen p then bs = [] \<and> st = (if killed then Ret (- 1) else Wait [])
     else bs = take n (pipe_items p) \<and> st = Ret (int (length bs)))"
  using assms piperead_loop_spec [OF assms(1), of n "[]"]
  by (auto simp: piperead_def pipe_empty split: if_splits prod.splits)

lemma pipe_reach_inv: "pipe_reach s \<Longrightarrow> pipe_inv s"
proof (induction rule: pipe_reach.induct)
  case (pipe_start junk)
  then show ?case by (simp add: pipe_inv_def pipe_ok_def pipe_items_def pipe_init_def)
next
  case (pipe_next s s')
  from pipe_next(2) show ?case
  proof (cases rule: pipe_step.cases)
    case (step_write killed n cs st p')
    then show ?thesis using pipe_inv_write [OF pipe_next.IH] by simp
  next
    case (step_read killed n st bs p')
    have "pipe_ok (ps_pipe s)" "ps_written s = ps_read s @ pipe_items (ps_pipe s)"
      using pipe_next.IH by (simp_all add: pipe_inv_def)
    moreover from piperead_spec [OF this(1) step_read(2)]
    have "pipe_ok p'" "pipe_items (ps_pipe s) = bs @ pipe_items p'" by blast+
    ultimately show ?thesis by (simp add: pipe_inv_def step_read(1))
  next
    case (step_close w)
    then show ?thesis
      using pipe_next.IH by (simp add: pipe_inv_def pipeclose_def Let_def pipe_ok_def pipe_items_def)
  qed
qed

section \<open>Properties\<close>

text \<open>
  C11. A pipe is a lossless first-in first-out channel: for any number of readers and writers, any sizes, any
  interleaving of their calls and sleeps and any closing of the ends, the bytes written so far are
  exactly the bytes read so far, in order, followed by the bytes in the buffer, of which there are never
  more than \<open>PIPESIZE\<close>. This holds across the wrap-around of the 32-bit counters.
\<close>

theorem pipe_fifo:
  assumes "pipe_reach s"
  shows "ps_written s = ps_read s @ pipe_items (ps_pipe s) \<and> length (pipe_items (ps_pipe s)) \<le> PIPESIZE"
  using pipe_reach_inv [OF assms] by (simp add: pipe_inv_def pipe_ok_def pipe_items_def)

theorem pipe_fifo_witness:
  "\<exists>s. pipe_reach s \<and> ps_read s = [1] \<and> pipe_items (ps_pipe s) = [2] \<and> ps_written s = [1, 2]"
proof -
  let ?p0 = "pipe_init (replicate 512 0)"
  let ?s0 = "\<lparr>ps_pipe = ?p0, ps_written = [], ps_read = []\<rparr>"
  let ?p1 = "pipe_put 2 (pipe_put 1 ?p0)"
  have r0: "pipe_reach ?s0" by (rule pipe_start) (simp add: PIPESIZE_def)
  have w: "pipewrite_loop False 2 [1, 2] (ps_pipe ?s0) = (Ret 2, ?p1)"
    by (simp add: pipe_init_def pipe_put_def PIPESIZE_def)
  note r1 = pipe_next [OF r0 step_write [OF w]]
  obtain p2 where rd: "piperead False 1 ?p1 = (Ret 1, [1], p2)" "pipe_items p2 = [2]"
    by (simp add: piperead_def pipe_get_def pipe_init_def pipe_put_def PIPESIZE_def pipe_items_def ring_items_def)
  let ?s1 = "?s0\<lparr>ps_pipe := ?p1, ps_written := [1, 2]\<rparr>"
  have r1: "pipe_reach ?s1" using r1 by (simp add: pipe_init_def)
  have "piperead False 1 (ps_pipe ?s1) = (Ret 1, [1], p2)" using rd(1) by simp
  note r2 = pipe_next [OF r1 step_read [OF this]]
  show ?thesis by (intro exI [of _ "?s1\<lparr>ps_pipe := p2, ps_read := ps_read ?s1 @ [1]\<rparr>"])
    (use pipe_fifo [OF r2] r2 rd(2) in simp)
qed



end
