(* ===== verification/Usermem.thy ===== *)
theory Usermem
  imports Memory Mmu
begin

text \<open>
  How the kernel reads the arguments of a system call, the first half of \<open>src/xv6/syscall.c\<close>. \<open>uproc\<close> is what the
  file system calls use of the current process: its size, the saved user stack pointer \<open>tf->esp\<close>, its memory at the
  user addresses (the kernel runs on the page table of the process, so it dereferences user addresses directly),
  its open files, its current directory and the flag \<open>killed\<close>. A function that stores its result through a pointer
  and returns -1 on failure returns an option.
\<close>

record uproc =
  u_sz :: u32
  u_esp :: u32
  u_mem :: mem
  u_ofile :: "nat option list"
  u_cwd :: nat
  u_killed :: bool

definition fetchint :: "uproc \<Rightarrow> u32 \<Rightarrow> u32 option" where
  "fetchint p addr = (if addr \<ge> u_sz p \<or> addr + 4 > u_sz p then None else Some (load32 (u_mem p) addr))"

text \<open>The loop of \<open>fetchstr\<close>; the number of bytes up to \<open>ep\<close> bounds it.\<close>

fun fetchstr_loop :: "mem \<Rightarrow> u32 \<Rightarrow> nat \<Rightarrow> u8 list option" where
  "fetchstr_loop m s 0 = None"
| "fetchstr_loop m s (Suc n) = (if m s = 0 then Some [] else map_option (\<lambda>cs. m s # cs) (fetchstr_loop m (s + 1) n))"

definition fetchstr :: "uproc \<Rightarrow> u32 \<Rightarrow> u8 list option" where
  "fetchstr p addr = (if addr \<ge> u_sz p then None else fetchstr_loop (u_mem p) addr (unat (u_sz p) - unat addr))"

definition argint :: "uproc \<Rightarrow> nat \<Rightarrow> u32 option" where
  "argint p n = fetchint p (u_esp p + 4 + 4 * of_nat n)"

definition argptr :: "uproc \<Rightarrow> nat \<Rightarrow> int \<Rightarrow> u32 option" where
  "argptr p n sz =
    Option.bind (argint p n) (\<lambda>i.
      if sz < 0 \<or> i \<ge> u_sz p \<or> i + of_int sz > u_sz p then None else Some i)"

definition argstr :: "uproc \<Rightarrow> nat \<Rightarrow> u8 list option" where
  "argstr p n = Option.bind (argint p n) (fetchstr p)"

lemma fetchstr_loop_Some:
  "fetchstr_loop m s n = Some cs \<longleftrightarrow>
    length cs < n \<and> (\<forall>i<length cs. m (s + of_nat i) = cs ! i \<and> cs ! i \<noteq> 0) \<and> m (s + of_nat (length cs)) = 0"
proof (induction m s n arbitrary: cs rule: fetchstr_loop.induct)
  case (2 m s n)
  show ?case
  proof (cases cs)
    case Nil
    then show ?thesis by simp
  next
    case (Cons c ds)
    have split: "(\<forall>i<Suc (length ds). P i) \<longleftrightarrow> P 0 \<and> (\<forall>i<length ds. P (Suc i))" for P
      by (auto simp: less_Suc_eq_0_disj)
    have "of_nat (Suc i) = 1 + (of_nat i :: u32)" for i
      by simp
    then show ?thesis
      using 2 [of ds] by (simp add: Cons split add.assoc) blast
  qed
qed simp

text \<open>
  C15. While the size of the process is at most KERNBASE, what the kernel accepts from the user lies below the size of
  the process: the four bytes of an integer, all the bytes of a block of \<open>len\<close> bytes, and all the bytes of a
  string. A string is accepted exactly when its bytes, none of them 0, are followed by a 0 before the end of the
  process.
\<close>

theorem user_pointers_checked:
  assumes "u_sz p \<le> KERNBASE"
  shows "(fetchint p a = Some v \<longrightarrow> unat a + 4 \<le> unat (u_sz p)) \<and>
    (argptr p n len = Some b \<and> len < 2 ^ 31 \<longrightarrow> unat b < unat (u_sz p) \<and> unat b + nat len \<le> unat (u_sz p)) \<and>
    (fetchstr p a = Some cs \<longleftrightarrow> unat a + length cs < unat (u_sz p) \<and>
      (\<forall>i<length cs. u_mem p (a + of_nat i) = cs ! i \<and> cs ! i \<noteq> 0) \<and> u_mem p (a + of_nat (length cs)) = 0)"
proof (intro conjI impI)
  have top: "unat (u_sz p) \<le> 2 ^ 31" using assms by (simp add: mmu_defs word_le_nat_alt)
  have add: "unat (x + of_nat k) = unat x + k" if "x < u_sz p" "k < 2 ^ 31" for x :: u32 and k
    using that top by (simp add: word_less_nat_alt unat_word_ariths unat_of_nat)
  show "unat a + 4 \<le> unat (u_sz p)" if "fetchint p a = Some v"
    using that add [of a 4] by (auto simp: fetchint_def word_less_nat_alt word_le_nat_alt split: if_splits)
  show "unat b < unat (u_sz p)" if "argptr p n len = Some b \<and> len < 2 ^ 31"
    using that by (auto simp: argptr_def word_less_nat_alt word_le_nat_alt split: if_splits bind_splits)
  show "unat b + nat len \<le> unat (u_sz p)" if "argptr p n len = Some b \<and> len < 2 ^ 31"
    using that add [of b "nat len"]
    by (auto simp: argptr_def word_less_nat_alt word_le_nat_alt split: if_splits bind_splits)
  show "fetchstr p a = Some cs \<longleftrightarrow> unat a + length cs < unat (u_sz p) \<and>
      (\<forall>i<length cs. u_mem p (a + of_nat i) = cs ! i \<and> cs ! i \<noteq> 0) \<and> u_mem p (a + of_nat (length cs)) = 0"
    by (auto simp: fetchstr_def fetchstr_loop_Some word_le_nat_alt)
qed

theorem user_pointers_checked_witness:
  "let p = \<lparr>u_sz = 4096, u_esp = 4000, u_mem = (\<lambda>a. if a = 4008 then 200 else 0), u_ofile = [], u_cwd = 0, u_killed = False\<rparr> in
    argptr p 1 3896 = Some 200 \<and> argptr p 1 3897 = None \<and> unat (200 :: u32) + nat 3896 \<le> unat (u_sz p)"
proof -
  let ?p = "\<lparr>u_sz = 4096, u_esp = 4000, u_mem = (\<lambda>a. if a = 4008 then 200 else 0), u_ofile = [], u_cwd = 0, u_killed = False\<rparr>"
  have "u_sz ?p \<le> KERNBASE" "argptr ?p 1 3896 = Some 200" "argptr ?p 1 3897 = None" by code_simp+
  then show ?thesis
    using user_pointers_checked [of ?p 0 0 1 3896 200 "[]"] by (simp add: Let_def)
qed

end
