(* ===== verification/File.thy ===== *)
theory File
  imports Dir Pipe Kalloc Usermem
begin

text \<open>
  The file table of \<open>src/xv6/file.c\<close> and \<open>pipealloc\<close> of \<open>src/xv6/pipe.c\<close>. The state extends the file system with
  the table \<open>ftable.file\<close>, the page allocator, the pipes (by the address of the page a pipe lives in) and the
  current process. A pointer to an entry of the file table is its index. A call that goes to sleep on
  a pipe ends with \<open>Sleep\<close>. \<open>fileinit\<close> only initialises the spin lock of the table.
\<close>

datatype ftype = FD_NONE | FD_PIPE | FD_INODE

record file_t =
  f_type :: ftype
  f_ref :: int
  f_readable :: bool
  f_writable :: bool
  f_pipe :: u32
  f_ip :: nat
  f_off :: u32

record 'd files = "'d fs" +
  ftable :: "file_t list"
  pg :: kmem
  pipes :: "u32 \<Rightarrow> pipe"
  curproc :: uproc

definition upd_file :: "nat \<Rightarrow> (file_t \<Rightarrow> file_t) \<Rightarrow> ('d, 'z) files_scheme \<Rightarrow> ('d, 'z) files_scheme" where
  "upd_file f g s = s\<lparr>ftable := upd_nth f g (ftable s)\<rparr>"

definition filealloc :: "('d, 'z) files_scheme \<Rightarrow> nat option \<times> ('d, 'z) files_scheme" where
  "filealloc s =
    (case scan (\<lambda>f. f_ref f = 0) (ftable s) of
       Some f \<Rightarrow> (Some f, upd_file f (f_ref_update (\<lambda>_. 1)) s)
     | None \<Rightarrow> (None, s))"

definition filedup :: "nat \<Rightarrow> ('d, 'z) files_scheme \<Rightarrow> ('d, 'z) files_scheme result" where
  "filedup f s =
    (if f_ref (ftable s ! f) < 1 then Inl (Panic ''filedup'') else Inr (upd_file f (f_ref_update (\<lambda>r. r + 1)) s))"

text \<open>\<open>pipeclose\<close> on the pipe of a page, with the call of \<open>kfree\<close> when both ends are closed.\<close>

definition close_pipe :: "u32 \<Rightarrow> bool \<Rightarrow> ('d, 'z) files_scheme \<Rightarrow> ('d, 'z) files_scheme result" where
  "close_pipe p writable s =
    (case pipeclose writable (pipes s p) of (q, dead) \<Rightarrow>
       let s = s\<lparr>pipes := (pipes s)(p := q)\<rparr> in
       if dead then andthen (kfree p (pg s)) (\<lambda>k. Inr (s\<lparr>pg := k\<rparr>)) else Inr s)"

definition fileclose :: "nat \<Rightarrow> ('d, 'z) files_scheme \<Rightarrow> ('d, 'z) files_scheme result" where
  "fileclose f s =
    (if f_ref (ftable s ! f) < 1 then Inl (Panic ''fileclose'')
     else
       let s = upd_file f (f_ref_update (\<lambda>r. r - 1)) s in
       if f_ref (ftable s ! f) > 0 then Inr s
       else
         let ff = ftable s ! f; s = upd_file f (\<lambda>f. f\<lparr>f_ref := 0, f_type := FD_NONE\<rparr>) s in
         case f_type ff of
           FD_PIPE \<Rightarrow> close_pipe (f_pipe ff) (f_writable ff) s
         | FD_INODE \<Rightarrow> andthen (begin_op s) (\<lambda>s. andthen (iput (f_ip ff) s) end_op)
         | FD_NONE \<Rightarrow> Inr s)"

definition filestat :: "nat \<Rightarrow> ('d, 'z) files_scheme \<Rightarrow> (stat option \<times> ('d, 'z) files_scheme) result" where
  "filestat f s =
    (let ff = ftable s ! f in
     if f_type ff = FD_INODE then
       andthen (ilock (f_ip ff) s) (\<lambda>s.
         let st = stati (icache s ! f_ip ff) in
         andthen (iunlock (f_ip ff) s) (\<lambda>s. Inr (Some st, s)))
     else Inr (None, s))"

text \<open>Move the offset of a file forward when the transfer made progress.\<close>

definition advance :: "nat \<Rightarrow> int \<Rightarrow> ('d, 'z) files_scheme \<Rightarrow> ('d, 'z) files_scheme" where
  "advance f r s = (if r > 0 then upd_file f (f_off_update (\<lambda>off. off + of_int r)) s else s)"

definition fileread :: "nat \<Rightarrow> u32 \<Rightarrow> ('d, 'z) files_scheme \<Rightarrow> (int \<times> u8 list \<times> ('d, 'z) files_scheme) result" where
  "fileread f n s =
    (let ff = ftable s ! f in
     if \<not> f_readable ff then Inr (- 1, [], s)
     else case f_type ff of
       FD_PIPE \<Rightarrow>
         (case piperead (u_killed (curproc s)) (nat (sint n)) (pipes s (f_pipe ff)) of
            (Wait _, _, _) \<Rightarrow> Inl (Sleep ''piperead'')
          | (Ret r, bs, p) \<Rightarrow> Inr (r, bs, s\<lparr>pipes := (pipes s)(f_pipe ff := p)\<rparr>))
     | FD_INODE \<Rightarrow>
         andthen (ilock (f_ip ff) s) (\<lambda>s.
         andthen (readi (f_ip ff) (f_off (ftable s ! f)) n s) (\<lambda>(r, bs, s).
         andthen (iunlock (f_ip ff) (advance f r s)) (\<lambda>s. Inr (r, bs, s))))
     | FD_NONE \<Rightarrow> Inl (Panic ''fileread''))"

definition filewrite_max :: nat where
  "filewrite_max = (MAXOPBLOCKS - 1 - 1 - 2) div 2 * 512"

text \<open>The loop of \<open>filewrite\<close> on the bytes still to write: whether it wrote them all.\<close>

function filewrite_loop :: "nat \<Rightarrow> u8 list \<Rightarrow> ('d, 'z) files_scheme \<Rightarrow> (bool \<times> ('d, 'z) files_scheme) result" where
  "filewrite_loop f src s =
    (if src = [] then Inr (True, s)
     else
       let ip = f_ip (ftable s ! f); n1 = min (length src) filewrite_max in
       andthen (begin_op s) (\<lambda>s.
       andthen (ilock ip s) (\<lambda>s.
       andthen (writei ip (take n1 src) (f_off (ftable s ! f)) s) (\<lambda>(r, s).
       andthen (iunlock ip (advance f r s)) (\<lambda>s.
       andthen (end_op s) (\<lambda>s.
         if r < 0 then Inr (False, s)
         else if r \<noteq> int n1 then Inl (Panic ''short filewrite'')
         else filewrite_loop f (drop n1 src) s))))))"
  by pat_completeness auto
termination
  by (relation "measure (\<lambda>(f, src, s). length src)") (auto simp: filewrite_max_def MAXOPBLOCKS_def)

declare filewrite_loop.simps [simp del]

definition filewrite :: "nat \<Rightarrow> u8 list \<Rightarrow> ('d, 'z) files_scheme \<Rightarrow> (int \<times> ('d, 'z) files_scheme) result" where
  "filewrite f src s =
    (let ff = ftable s ! f in
     if \<not> f_writable ff then Inr (- 1, s)
     else case f_type ff of
       FD_PIPE \<Rightarrow>
         (case pipewrite (u_killed (curproc s)) src (pipes s (f_pipe ff)) of
            (Wait _, _) \<Rightarrow> Inl (Sleep ''pipewrite'')
          | (Ret r, p) \<Rightarrow> Inr (r, s\<lparr>pipes := (pipes s)(f_pipe ff := p)\<rparr>))
     | FD_INODE \<Rightarrow>
         andthen (filewrite_loop f src s) (\<lambda>(done, s). Inr (if done then int (length src) else - 1, s))
     | FD_NONE \<Rightarrow> Inl (Panic ''filewrite''))"

text \<open>\<open>pipealloc\<close>: the two entries of the file table, or \<open>None\<close> when it returns -1.\<close>

definition pipealloc_bad :: "nat option \<Rightarrow> nat option \<Rightarrow> ('d, 'z) files_scheme \<Rightarrow>
    ((nat \<times> nat) option \<times> ('d, 'z) files_scheme) result" where
  "pipealloc_bad f0 f1 s =
    andthen (case f0 of None \<Rightarrow> Inr s | Some f \<Rightarrow> fileclose f s) (\<lambda>s.
    andthen (case f1 of None \<Rightarrow> Inr s | Some f \<Rightarrow> fileclose f s) (\<lambda>s. Inr (None, s)))"

definition pipealloc :: "('d, 'z) files_scheme \<Rightarrow> ((nat \<times> nat) option \<times> ('d, 'z) files_scheme) result" where
  "pipealloc s =
    (case filealloc s of
       (None, s) \<Rightarrow> pipealloc_bad None None s
     | (Some f0, s) \<Rightarrow>
         (case filealloc s of
            (None, s) \<Rightarrow> pipealloc_bad (Some f0) None s
          | (Some f1, s) \<Rightarrow>
              (case kalloc (pg s) of (p, k) \<Rightarrow>
                 let s = s\<lparr>pg := k\<rparr> in
                 if p = 0 then pipealloc_bad (Some f0) (Some f1) s
                 else
                   let s = s\<lparr>pipes := (pipes s)(p := pipe_init (load_bytes (k_mem k) p PIPESIZE))\<rparr>;
                       s = upd_file f0 (\<lambda>f. f\<lparr>f_type := FD_PIPE, f_readable := True, f_writable := False, f_pipe := p\<rparr>) s;
                       s = upd_file f1 (\<lambda>f. f\<lparr>f_type := FD_PIPE, f_readable := False, f_writable := True, f_pipe := p\<rparr>) s
                   in Inr (Some (f0, f1), s))))"

end
