(* ===== verification/Sysfile.thy ===== *)
theory Sysfile
  imports File
begin

text \<open>
  The file system calls of \<open>src/xv6/sysfile.c\<close>, each the whole handler: it fetches its arguments from the user stack,
  checks them, and works on the file table, the inodes and the memory of the process. The result is the value
  returned to the user. \<open>sys_exec\<close> is in theory \<open>Exec\<close>.
\<close>

definition O_WRONLY :: u32 where "O_WRONLY = 0x001"

definition O_RDWR :: u32 where "O_RDWR = 0x002"

definition O_CREATE :: u32 where "O_CREATE = 0x200"

type_synonym ('d, 'z) call = "('d, 'z) files_scheme \<Rightarrow> (int \<times> ('d, 'z) files_scheme) result"

definition upd_proc :: "(uproc \<Rightarrow> uproc) \<Rightarrow> ('d, 'z) files_scheme \<Rightarrow> ('d, 'z) files_scheme" where
  "upd_proc f s = s\<lparr>curproc := f (curproc s)\<rparr>"

text \<open>\<open>end_op(); return -1;\<close>\<close>

definition fail_op :: "('d, 'z) call" where
  "fail_op s = andthen (end_op s) (\<lambda>s. Inr (- 1, s))"

section \<open>Descriptors\<close>

definition argfd :: "uproc \<Rightarrow> nat \<Rightarrow> (nat \<times> nat) option" where
  "argfd p n =
    Option.bind (argint p n) (\<lambda>fd.
      if sint fd < 0 \<or> sint fd \<ge> int NOFILE then None
      else map_option (\<lambda>f. (unat fd, f)) (u_ofile p ! unat fd))"

definition fdalloc :: "nat \<Rightarrow> ('d, 'z) files_scheme \<Rightarrow> nat option \<times> ('d, 'z) files_scheme" where
  "fdalloc f s =
    (case scan (\<lambda>x. x = None) (take NOFILE (u_ofile (curproc s))) of
       Some fd \<Rightarrow> (Some fd, upd_proc (u_ofile_update (\<lambda>fs. fs[fd := Some f])) s)
     | None \<Rightarrow> (None, s))"

definition sys_dup :: "('d, 'z) call" where
  "sys_dup s =
    (case argfd (curproc s) 0 of
       None \<Rightarrow> Inr (- 1, s)
     | Some (_, f) \<Rightarrow>
         (case fdalloc f s of
            (None, s) \<Rightarrow> Inr (- 1, s)
          | (Some fd, s) \<Rightarrow> andthen (filedup f s) (\<lambda>s. Inr (int fd, s))))"

text \<open>The arguments \<open>(fd, p, n)\<close> of \<open>read\<close> and \<open>write\<close>.\<close>

definition rw_args :: "uproc \<Rightarrow> (nat \<times> u32 \<times> u32) option" where
  "rw_args p =
    Option.bind (argfd p 0) (\<lambda>(_, f).
    Option.bind (argint p 2) (\<lambda>n.
    Option.bind (argptr p 1 (sint n)) (\<lambda>a. Some (f, a, n))))"

definition sys_read :: "('d, 'z) call" where
  "sys_read s =
    (case rw_args (curproc s) of
       None \<Rightarrow> Inr (- 1, s)
     | Some (f, a, n) \<Rightarrow>
         andthen (fileread f n s) (\<lambda>(r, bs, s). Inr (r, upd_proc (u_mem_update (store_bytes a bs)) s)))"

definition sys_write :: "('d, 'z) call" where
  "sys_write s =
    (case rw_args (curproc s) of
       None \<Rightarrow> Inr (- 1, s)
     | Some (f, a, n) \<Rightarrow> filewrite f (load_bytes (u_mem (curproc s)) a (unat n)) s)"

definition sys_close :: "('d, 'z) call" where
  "sys_close s =
    (case argfd (curproc s) 0 of
       None \<Rightarrow> Inr (- 1, s)
     | Some (fd, f) \<Rightarrow>
         andthen (fileclose f (upd_proc (u_ofile_update (\<lambda>fs. fs[fd := None])) s)) (\<lambda>s. Inr (0, s)))"

text \<open>\<open>struct stat\<close> in memory: 20 bytes with two bytes of padding after \<open>type\<close> and after \<open>nlink\<close>, which keep their values.\<close>

definition put_stat :: "stat \<Rightarrow> u8 list \<Rightarrow> u8 list" where
  "put_stat st d = put32 16 (stat_size st) (put16 12 (st_nlink st) (put32 8 (st_ino st) (put32 4 (st_dev st) (put16 0 (st_type st) d))))"

definition sys_fstat :: "('d, 'z) call" where
  "sys_fstat s =
    (case Option.bind (argfd (curproc s) 0) (\<lambda>(_, f). map_option (\<lambda>a. (f, a)) (argptr (curproc s) 1 20)) of
       None \<Rightarrow> Inr (- 1, s)
     | Some (f, a) \<Rightarrow>
         andthen (filestat f s) (\<lambda>(r, s).
           case r of
             None \<Rightarrow> Inr (- 1, s)
           | Some st \<Rightarrow>
               Inr (0, upd_proc (u_mem_update (\<lambda>m. store_bytes a (put_stat st (load_bytes m a 20)) m)) s)))"

section \<open>Links\<close>

definition nlink_add :: "u16 \<Rightarrow> nat \<Rightarrow> ('d, 'z) files_scheme \<Rightarrow> ('d, 'z) files_scheme result" where
  "nlink_add k ip s = iupdate ip (upd_inode ip (i_nlink_update (\<lambda>n. n + k)) s)"

definition sys_link_bad :: "nat \<Rightarrow> ('d, 'z) call" where
  "sys_link_bad ip s =
    andthen (ilock ip s) (\<lambda>s.
    andthen (nlink_add (- 1) ip s) (\<lambda>s.
    andthen (iunlockput ip s) fail_op))"

definition sys_link :: "('d, 'z) call" where
  "sys_link s =
    (case (argstr (curproc s) 0, argstr (curproc s) 1) of
       (Some old, Some new) \<Rightarrow>
         andthen (begin_op s) (\<lambda>s.
         andthen (namei (u_cwd (curproc s)) old s) (\<lambda>(r, s).
           case r of
             None \<Rightarrow> fail_op s
           | Some ip \<Rightarrow>
               andthen (ilock ip s) (\<lambda>s.
                 if i_type (icache s ! ip) = T_DIR then andthen (iunlockput ip s) fail_op
                 else
                   andthen (nlink_add 1 ip s) (\<lambda>s.
                   andthen (iunlock ip s) (\<lambda>s.
                   andthen (nameiparent (u_cwd (curproc s)) new s) (\<lambda>(r, s).
                     case r of
                       None \<Rightarrow> sys_link_bad ip s
                     | Some (dp, name) \<Rightarrow>
                         andthen (ilock dp s) (\<lambda>s.
                         andthen
                           (if i_dev (icache s ! dp) \<noteq> i_dev (icache s ! ip) then Inr (- 1, s)
                            else dirlink dp name (i_inum (icache s ! ip)) s)
                           (\<lambda>(r, s).
                             if r < 0 then andthen (iunlockput dp s) (sys_link_bad ip)
                             else
                               andthen (iunlockput dp s) (\<lambda>s.
                               andthen (iput ip s) (\<lambda>s.
                               andthen (end_op s) (\<lambda>s. Inr (0, s)))))))))))
             )
     | _ \<Rightarrow> Inr (- 1, s))"

fun isdirempty_loop :: "nat \<Rightarrow> u32 list \<Rightarrow> ('d, 'z) fs_scheme \<Rightarrow> (bool \<times> ('d, 'z) fs_scheme) result" where
  "isdirempty_loop dp [] s = Inr (True, s)"
| "isdirempty_loop dp (off # offs) s =
    andthen (readi dp off 16 s) (\<lambda>(r, de, s).
      if r \<noteq> 16 then Inl (Panic ''isdirempty: readi'')
      else if de_inum de \<noteq> 0 then Inr (False, s)
      else isdirempty_loop dp offs s)"

definition isdirempty :: "nat \<Rightarrow> ('d, 'z) fs_scheme \<Rightarrow> (bool \<times> ('d, 'z) fs_scheme) result" where
  "isdirempty dp s = isdirempty_loop dp (drop 2 (dirent_offs (i_size (icache s ! dp)))) s"

definition dot :: "u8 list" where "dot = [46]"

definition dotdot :: "u8 list" where "dotdot = [46, 46]"

definition sys_unlink :: "('d, 'z) call" where
  "sys_unlink s =
    (case argstr (curproc s) 0 of
       None \<Rightarrow> Inr (- 1, s)
     | Some path \<Rightarrow>
         andthen (begin_op s) (\<lambda>s.
         andthen (nameiparent (u_cwd (curproc s)) path s) (\<lambda>(r, s).
           case r of
             None \<Rightarrow> fail_op s
           | Some (dp, name) \<Rightarrow>
               andthen (ilock dp s) (\<lambda>s.
                 if namecmp name dot = 0 \<or> namecmp name dotdot = 0 then andthen (iunlockput dp s) fail_op
                 else
                   andthen (dirlookup dp name s) (\<lambda>(r, s).
                     case r of
                       None \<Rightarrow> andthen (iunlockput dp s) fail_op
                     | Some (ip, off) \<Rightarrow>
                         andthen (ilock ip s) (\<lambda>s.
                           if sint (i_nlink (icache s ! ip)) < 1 then Inl (Panic ''unlink: nlink < 1'')
                           else
                             andthen (if i_type (icache s ! ip) = T_DIR then isdirempty ip s else Inr (True, s)) (\<lambda>(empty, s).
                               if \<not> empty then andthen (iunlockput ip s) (\<lambda>s. andthen (iunlockput dp s) fail_op)
                               else
                                 andthen (writei dp (replicate 16 0) off s) (\<lambda>(r, s).
                                   if r \<noteq> 16 then Inl (Panic ''unlink: writei'')
                                   else
                                     andthen (if i_type (icache s ! ip) = T_DIR then nlink_add (- 1) dp s else Inr s) (\<lambda>s.
                                     andthen (iunlockput dp s) (\<lambda>s.
                                     andthen (nlink_add (- 1) ip s) (\<lambda>s.
                                     andthen (iunlockput ip s) (\<lambda>s.
                                     andthen (end_op s) (\<lambda>s. Inr (0, s))))))))))))))"

section \<open>Creating and opening\<close>

text \<open>The entries \<open>.\<close> and \<open>..\<close> of a new directory \<open>ip\<close> in \<open>dp\<close>.\<close>

definition create_dots :: "nat \<Rightarrow> nat \<Rightarrow> ('d, 'z) files_scheme \<Rightarrow> ('d, 'z) files_scheme result" where
  "create_dots dp ip s =
    andthen (nlink_add 1 dp s) (\<lambda>s.
    andthen (dirlink ip dot (i_inum (icache s ! ip)) s) (\<lambda>(r, s).
      if r < 0 then Inl (Panic ''create dots'')
      else
        andthen (dirlink ip dotdot (i_inum (icache s ! dp)) s) (\<lambda>(r, s).
          if r < 0 then Inl (Panic ''create dots'') else Inr s)))"

definition create ::
  "u8 list \<Rightarrow> u16 \<Rightarrow> u16 \<Rightarrow> u16 \<Rightarrow> ('d, 'z) files_scheme \<Rightarrow> (nat option \<times> ('d, 'z) files_scheme) result" where
  "create path type major minor s =
    andthen (nameiparent (u_cwd (curproc s)) path s) (\<lambda>(r, s).
      case r of
        None \<Rightarrow> Inr (None, s)
      | Some (dp, name) \<Rightarrow>
          andthen (ilock dp s) (\<lambda>s.
          andthen (dirlookup dp name s) (\<lambda>(r, s).
            case r of
              Some (ip, off) \<Rightarrow>
                andthen (iunlockput dp s) (\<lambda>s.
                andthen (ilock ip s) (\<lambda>s.
                  if type = T_FILE \<and> i_type (icache s ! ip) = T_FILE then Inr (Some ip, s)
                  else andthen (iunlockput ip s) (\<lambda>s. Inr (None, s))))
            | None \<Rightarrow>
                andthen (ialloc (i_dev (icache s ! dp)) type s) (\<lambda>(ip, s).
                andthen (ilock ip s) (\<lambda>s.
                andthen (iupdate ip (upd_inode ip (\<lambda>i. i\<lparr>i_major := major, i_minor := minor, i_nlink := 1\<rparr>) s)) (\<lambda>s.
                andthen (if type = T_DIR then create_dots dp ip s else Inr s) (\<lambda>s.
                andthen (dirlink dp name (i_inum (icache s ! ip)) s) (\<lambda>(r, s).
                  if r < 0 then Inl (Panic ''create: dirlink'')
                  else andthen (iunlockput dp s) (\<lambda>s. Inr (Some ip, s))))))))))"

text \<open>The second half of \<open>sys_open\<close>, with the inode found or created and locked.\<close>

definition open_inode :: "nat \<Rightarrow> u32 \<Rightarrow> ('d, 'z) call" where
  "open_inode ip omode s =
    (case filealloc s of
       (None, s) \<Rightarrow> andthen (iunlockput ip s) fail_op
     | (Some f, s) \<Rightarrow>
         (case fdalloc f s of
            (None, s) \<Rightarrow> andthen (fileclose f s) (\<lambda>s. andthen (iunlockput ip s) fail_op)
          | (Some fd, s) \<Rightarrow>
              andthen (iunlock ip s) (\<lambda>s.
              andthen (end_op s) (\<lambda>s.
                Inr (int fd, upd_file f (\<lambda>f. f\<lparr>f_type := FD_INODE, f_ip := ip, f_off := 0,
                  f_readable := (omode AND O_WRONLY = 0),
                  f_writable := (omode AND O_WRONLY \<noteq> 0 \<or> omode AND O_RDWR \<noteq> 0)\<rparr>) s)))))"

definition sys_open :: "('d, 'z) call" where
  "sys_open s =
    (case (argstr (curproc s) 0, argint (curproc s) 1) of
       (Some path, Some omode) \<Rightarrow>
         andthen (begin_op s) (\<lambda>s.
           if omode AND O_CREATE \<noteq> 0 then
             andthen (create path T_FILE 0 0 s) (\<lambda>(r, s).
               case r of None \<Rightarrow> fail_op s | Some ip \<Rightarrow> open_inode ip omode s)
           else
             andthen (namei (u_cwd (curproc s)) path s) (\<lambda>(r, s).
               case r of
                 None \<Rightarrow> fail_op s
               | Some ip \<Rightarrow>
                   andthen (ilock ip s) (\<lambda>s.
                     if i_type (icache s ! ip) = T_DIR \<and> omode \<noteq> 0 then andthen (iunlockput ip s) fail_op
                     else open_inode ip omode s)))
     | _ \<Rightarrow> Inr (- 1, s))"

definition create_close :: "u8 list \<Rightarrow> u16 \<Rightarrow> u16 \<Rightarrow> u16 \<Rightarrow> ('d, 'z) call" where
  "create_close path type major minor s =
    andthen (create path type major minor s) (\<lambda>(r, s).
      case r of
        None \<Rightarrow> fail_op s
      | Some ip \<Rightarrow> andthen (iunlockput ip s) (\<lambda>s. andthen (end_op s) (\<lambda>s. Inr (0, s))))"

definition sys_mkdir :: "('d, 'z) call" where
  "sys_mkdir s =
    andthen (begin_op s) (\<lambda>s.
      case argstr (curproc s) 0 of None \<Rightarrow> fail_op s | Some path \<Rightarrow> create_close path T_DIR 0 0 s)"

definition sys_mknod :: "('d, 'z) call" where
  "sys_mknod s =
    andthen (begin_op s) (\<lambda>s.
      case (argstr (curproc s) 0, argint (curproc s) 1, argint (curproc s) 2) of
        (Some path, Some major, Some minor) \<Rightarrow> create_close path T_DEV (ucast major) (ucast minor) s
      | _ \<Rightarrow> fail_op s)"

definition sys_chdir :: "('d, 'z) call" where
  "sys_chdir s =
    andthen (begin_op s) (\<lambda>s.
      case argstr (curproc s) 0 of
        None \<Rightarrow> fail_op s
      | Some path \<Rightarrow>
          andthen (namei (u_cwd (curproc s)) path s) (\<lambda>(r, s).
            case r of
              None \<Rightarrow> fail_op s
            | Some ip \<Rightarrow>
                andthen (ilock ip s) (\<lambda>s.
                  if i_type (icache s ! ip) \<noteq> T_DIR then andthen (iunlockput ip s) fail_op
                  else
                    andthen (iunlock ip s) (\<lambda>s.
                    andthen (iput (u_cwd (curproc s)) s) (\<lambda>s.
                    andthen (end_op s) (\<lambda>s. Inr (0, upd_proc (u_cwd_update (\<lambda>_. ip)) s)))))))"

section \<open>Pipes\<close>

definition sys_pipe_bad :: "nat \<Rightarrow> nat \<Rightarrow> ('d, 'z) call" where
  "sys_pipe_bad rfile wfile s = andthen (fileclose rfile s) (\<lambda>s. andthen (fileclose wfile s) (\<lambda>s. Inr (- 1, s)))"

definition sys_pipe :: "('d, 'z) call" where
  "sys_pipe s =
    (case argptr (curproc s) 0 8 of
       None \<Rightarrow> Inr (- 1, s)
     | Some a \<Rightarrow>
         andthen (pipealloc s) (\<lambda>(r, s).
           case r of
             None \<Rightarrow> Inr (- 1, s)
           | Some (rfile, wfile) \<Rightarrow>
               (case fdalloc rfile s of
                  (None, s) \<Rightarrow> sys_pipe_bad rfile wfile s
                | (Some fd0, s) \<Rightarrow>
                    (case fdalloc wfile s of
                       (None, s) \<Rightarrow> sys_pipe_bad rfile wfile (upd_proc (u_ofile_update (\<lambda>fs. fs[fd0 := None])) s)
                     | (Some fd1, s) \<Rightarrow>
                         Inr (0, upd_proc (u_mem_update (\<lambda>m. store32 (a + 4) (of_nat fd1) (store32 a (of_nat fd0) m))) s)))))"

end
