(* ===== verification/Vm.thy ===== *)
theory Vm
  imports Kalloc
begin

text \<open>
  Page tables and user address spaces, \<open>src/xv6/vm.c\<close>. The page directories and page tables are the words in the
  memory of the page allocator, at the kernel virtual addresses the code uses. \<open>seginit\<close> only loads
  segment registers and is not modelled; \<open>loaduvm\<close>, which reads a file, is in theory \<open>Exec\<close>.
\<close>

section \<open>Page tables\<close>

definition pde_addr :: "u32 \<Rightarrow> u32 \<Rightarrow> u32" where
  "pde_addr pgdir va = pgdir + 4 * PDX va"

definition pte_addr :: "u32 \<Rightarrow> u32 \<Rightarrow> u32" where
  "pte_addr pgtab va = pgtab + 4 * PTX va"

text \<open>The address of the page table entry, 0 for a null pointer.\<close>

definition walkpgdir :: "u32 \<Rightarrow> u32 \<Rightarrow> bool \<Rightarrow> 'z kmem_scheme \<Rightarrow> u32 \<times> 'z kmem_scheme" where
  "walkpgdir pgdir va alloc s =
    (let pde = load32 (k_mem s) (pde_addr pgdir va) in
     if pde AND PTE_P \<noteq> 0 then (pte_addr (P2V (PTE_ADDR pde)) va, s)
     else if \<not> alloc then (0, s)
     else case kalloc s of (pgtab, s) \<Rightarrow>
       if pgtab = 0 then (0, s)
       else
         let m = memset pgtab 0 PGSIZE (k_mem s);
             m = store32 (pde_addr pgdir va) (V2P pgtab OR PTE_P OR PTE_W OR PTE_U) m
         in (pte_addr pgtab va, s\<lparr>k_mem := m\<rparr>))"

text \<open>
  The loop of \<open>mappages\<close> from the page \<open>a\<close> to the page \<open>last\<close>, which is \<open>k\<close> pages further on (both are multiples
  of the page size, so the loop reaches \<open>a == last\<close> after \<open>k\<close> turns). It returns 0 or -1.
\<close>

fun mappages_loop :: "u32 \<Rightarrow> nat \<Rightarrow> u32 \<Rightarrow> u32 \<Rightarrow> u32 \<Rightarrow> 'z kmem_scheme \<Rightarrow> (int \<times> 'z kmem_scheme) result" where
  "mappages_loop pgdir k a pa perm s =
    (case walkpgdir pgdir a True s of (pte, s) \<Rightarrow>
       if pte = 0 then Inr (- 1, s)
       else if load32 (k_mem s) pte AND PTE_P \<noteq> 0 then Inl (Panic ''remap'')
       else
         let s = s\<lparr>k_mem := store32 pte (pa OR perm OR PTE_P) (k_mem s)\<rparr> in
         case k of 0 \<Rightarrow> Inr (0, s) | Suc k \<Rightarrow> mappages_loop pgdir k (a + PGSIZE) (pa + PGSIZE) perm s)"

declare mappages_loop.simps [simp del]

definition mappages :: "u32 \<Rightarrow> u32 \<Rightarrow> u32 \<Rightarrow> u32 \<Rightarrow> u32 \<Rightarrow> 'z kmem_scheme \<Rightarrow> (int \<times> 'z kmem_scheme) result" where
  "mappages pgdir va sz pa perm s =
    (let a = PGROUNDDOWN va; last = PGROUNDDOWN (va + sz - 1)
     in mappages_loop pgdir (unat (last - a) div 4096) a pa perm s)"

section \<open>User memory\<close>

text \<open>The page addresses of a loop \<open>for(; a < limit; a += PGSIZE)\<close>.\<close>

definition page_addrs :: "u32 \<Rightarrow> u32 \<Rightarrow> u32 list" where
  "page_addrs a limit = map (\<lambda>i. a + of_nat (4096 * i)) [0..<(unat limit - unat a + 4095) div 4096]"

text \<open>
  The loop of \<open>deallocuvm\<close>. A directory entry that is absent moves the loop to the next directory entry. When
  the address wraps around, the loop never reaches a limit above it: it does not end.
\<close>

function deallocuvm_loop :: "u32 \<Rightarrow> u32 \<Rightarrow> u32 \<Rightarrow> 'z kmem_scheme \<Rightarrow> 'z kmem_scheme result" where
  "deallocuvm_loop pgdir oldsz a s =
    (if a < oldsz then
       let pte = fst (walkpgdir pgdir a False s);
           a' = (if pte = 0 then PGADDR (PDX a + 1) 0 0 else a + PGSIZE);
           e = load32 (k_mem s) pte in
       andthen
         (if pte \<noteq> 0 \<and> e AND PTE_P \<noteq> 0 then
            if PTE_ADDR e = 0 then Inl (Panic ''kfree'')
            else andthen (kfree (P2V (PTE_ADDR e)) s) (\<lambda>s. Inr (s\<lparr>k_mem := store32 pte 0 (k_mem s)\<rparr>))
          else Inr s)
         (\<lambda>s. if a < a' then deallocuvm_loop pgdir oldsz a' s else Inl Diverge)
     else Inr s)"
  by pat_completeness auto
termination
  by (relation "measure (\<lambda>(pgdir, oldsz, a, s). 2 ^ 32 - unat a)")
    (use unat_u32_less in \<open>auto simp: word_less_nat_alt intro!: diff_less_mono2\<close>)

declare deallocuvm_loop.simps [simp del]

definition deallocuvm :: "u32 \<Rightarrow> u32 \<Rightarrow> u32 \<Rightarrow> 'z kmem_scheme \<Rightarrow> (u32 \<times> 'z kmem_scheme) result" where
  "deallocuvm pgdir oldsz newsz s =
    (if newsz \<ge> oldsz then Inr (oldsz, s)
     else andthen (deallocuvm_loop pgdir oldsz (PGROUNDUP newsz) s) (\<lambda>s. Inr (newsz, s)))"

fun allocuvm_loop :: "u32 \<Rightarrow> u32 \<Rightarrow> u32 \<Rightarrow> u32 list \<Rightarrow> 'z kmem_scheme \<Rightarrow> (u32 \<times> 'z kmem_scheme) result" where
  "allocuvm_loop pgdir oldsz newsz [] s = Inr (newsz, s)"
| "allocuvm_loop pgdir oldsz newsz (a # as) s =
    (case kalloc s of (pg, s) \<Rightarrow>
       if pg = 0 then andthen (deallocuvm pgdir newsz oldsz s) (\<lambda>(_, s). Inr (0, s))
       else
         let s = s\<lparr>k_mem := memset pg 0 PGSIZE (k_mem s)\<rparr> in
         andthen (mappages pgdir a PGSIZE (V2P pg) (PTE_W OR PTE_U) s) (\<lambda>(r, s).
           if r < 0 then
             andthen (deallocuvm pgdir newsz oldsz s) (\<lambda>(_, s).
             andthen (kfree pg s) (\<lambda>s. Inr (0, s)))
           else allocuvm_loop pgdir oldsz newsz as s))"

definition allocuvm :: "u32 \<Rightarrow> u32 \<Rightarrow> u32 \<Rightarrow> 'z kmem_scheme \<Rightarrow> (u32 \<times> 'z kmem_scheme) result" where
  "allocuvm pgdir oldsz newsz s =
    (if newsz \<ge> KERNBASE then Inr (0, s)
     else if newsz < oldsz then Inr (oldsz, s)
     else allocuvm_loop pgdir oldsz newsz (page_addrs (PGROUNDUP oldsz) newsz) s)"

definition freevm_step :: "u32 \<Rightarrow> nat \<Rightarrow> 'z kmem_scheme \<Rightarrow> 'z kmem_scheme result" where
  "freevm_step pgdir i s =
    (let pde = load32 (k_mem s) (pgdir + 4 * of_nat i) in
     if pde AND PTE_P \<noteq> 0 then kfree (P2V (PTE_ADDR pde)) s else Inr s)"

definition freevm :: "u32 \<Rightarrow> 'z kmem_scheme \<Rightarrow> 'z kmem_scheme result" where
  "freevm pgdir s =
    (if pgdir = 0 then Inl (Panic ''freevm: no pgdir'')
     else
       andthen (deallocuvm pgdir KERNBASE 0 s) (\<lambda>(_, s).
       andthen (each (freevm_step pgdir) [0..<NPDENTRIES] s) (kfree pgdir)))"

section \<open>The kernel part\<close>

text \<open>The linker symbol \<open>data\<close> and the video memory \<open>gpu.pvram_addr\<close>, \<open>gpu.vram_size\<close> the loader passes.\<close>

record kconf =
  kc_data :: u32
  kc_pvram_addr :: u32
  kc_vram_size :: u32

record kmap =
  km_virt :: u32
  phys_start :: u32
  phys_end :: u32
  km_perm :: u32

definition kmap_table :: "kconf \<Rightarrow> kmap list" where
  "kmap_table c =
    [\<lparr>km_virt = KERNBASE, phys_start = 0, phys_end = EXTMEM, km_perm = PTE_W\<rparr>,
     \<lparr>km_virt = KERNLINK, phys_start = V2P KERNLINK, phys_end = V2P (kc_data c), km_perm = 0\<rparr>,
     \<lparr>km_virt = kc_data c, phys_start = V2P (kc_data c), phys_end = PHYSTOP, km_perm = PTE_W\<rparr>,
     \<lparr>km_virt = DEVSPACE - kc_vram_size c, phys_start = kc_pvram_addr c,
      phys_end = kc_pvram_addr c + kc_vram_size c, km_perm = PTE_W\<rparr>,
     \<lparr>km_virt = PCI_BAR_BASE + PCI_VP_OFFSET, phys_start = PCI_BAR_BASE,
      phys_end = 0x10000000 + PCI_BAR_BASE, km_perm = PTE_W\<rparr>,
     \<lparr>km_virt = DEVSPACE, phys_start = DEVSPACE, phys_end = 0, km_perm = PTE_W\<rparr>]"

fun setupkvm_loop :: "u32 \<Rightarrow> kmap list \<Rightarrow> 'z kmem_scheme \<Rightarrow> (u32 \<times> 'z kmem_scheme) result" where
  "setupkvm_loop pgdir [] s = Inr (pgdir, s)"
| "setupkvm_loop pgdir (k # ks) s =
    andthen (mappages pgdir (km_virt k) (phys_end k - phys_start k) (phys_start k) (km_perm k) s) (\<lambda>(r, s).
      if r < 0 then andthen (freevm pgdir s) (\<lambda>s. Inr (0, s)) else setupkvm_loop pgdir ks s)"

definition setupkvm :: "kconf \<Rightarrow> 'z kmem_scheme \<Rightarrow> (u32 \<times> 'z kmem_scheme) result" where
  "setupkvm c s =
    (case kalloc s of (pgdir, s) \<Rightarrow>
       if pgdir = 0 then Inr (0, s)
       else
         let s = s\<lparr>k_mem := memset pgdir 0 PGSIZE (k_mem s)\<rparr> in
         if P2V PHYSTOP > DEVSPACE then Inl (Panic ''PHYSTOP too high'')
         else setupkvm_loop pgdir (kmap_table c) s)"

section \<open>Processes\<close>

text \<open>What \<open>switchuvm\<close> and \<open>switchkvm\<close> load into the processor: the page directory and the stack of the task state.\<close>

record mmu =
  cr3 :: u32
  ts_esp0 :: u32

definition switchkvm :: "u32 \<Rightarrow> mmu \<Rightarrow> mmu" where
  "switchkvm kpgdir h = h\<lparr>cr3 := V2P kpgdir\<rparr>"

definition kvmalloc :: "kconf \<Rightarrow> 'z kmem_scheme \<Rightarrow> mmu \<Rightarrow> (u32 \<times> 'z kmem_scheme \<times> mmu) result" where
  "kvmalloc c s h = andthen (setupkvm c s) (\<lambda>(kpgdir, s). Inr (kpgdir, s, switchkvm kpgdir h))"

definition switchuvm :: "u32 \<Rightarrow> u32 \<Rightarrow> mmu \<Rightarrow> mmu result" where
  "switchuvm kstack pgdir h =
    (if kstack = 0 then Inl (Panic ''switchuvm: no kstack'')
     else if pgdir = 0 then Inl (Panic ''switchuvm: no pgdir'')
     else Inr (h\<lparr>ts_esp0 := kstack + 4096, cr3 := V2P pgdir\<rparr>))"

text \<open>\<open>init\<close> is the bytes of the first program; \<open>inituvm\<close> does not look at the results of \<open>kalloc\<close> and \<open>mappages\<close>.\<close>

definition inituvm :: "u32 \<Rightarrow> u8 list \<Rightarrow> 'z kmem_scheme \<Rightarrow> 'z kmem_scheme result" where
  "inituvm pgdir init s =
    (if length init \<ge> 4096 then Inl (Panic ''inituvm: more than a page'')
     else case kalloc s of (pg, s) \<Rightarrow>
       andthen (mappages pgdir 0 PGSIZE (V2P pg) (PTE_W OR PTE_U) (s\<lparr>k_mem := memset pg 0 PGSIZE (k_mem s)\<rparr>)) (\<lambda>(_, s).
         Inr (s\<lparr>k_mem := store_bytes pg init (k_mem s)\<rparr>)))"

definition clearpteu :: "u32 \<Rightarrow> u32 \<Rightarrow> 'z kmem_scheme \<Rightarrow> 'z kmem_scheme result" where
  "clearpteu pgdir uva s =
    (let pte = fst (walkpgdir pgdir uva False s) in
     if pte = 0 then Inl (Panic ''clearpteu'')
     else Inr (s\<lparr>k_mem := store32 pte (load32 (k_mem s) pte AND NOT PTE_U) (k_mem s)\<rparr>))"

fun copyuvm_loop :: "u32 \<Rightarrow> u32 \<Rightarrow> u32 list \<Rightarrow> 'z kmem_scheme \<Rightarrow> (u32 \<times> 'z kmem_scheme) result" where
  "copyuvm_loop pgdir d [] s = Inr (d, s)"
| "copyuvm_loop pgdir d (i # is) s =
    (let pte = fst (walkpgdir pgdir i False s); e = load32 (k_mem s) pte in
     if pte = 0 then Inl (Panic ''copyuvm: pte should exist'')
     else if e AND PTE_P = 0 then Inl (Panic ''copyuvm: page not present'')
     else case kalloc s of (pg, s) \<Rightarrow>
       if pg = 0 then andthen (freevm d s) (\<lambda>s. Inr (0, s))
       else
         let s = s\<lparr>k_mem := memmove pg (P2V (PTE_ADDR e)) PGSIZE (k_mem s)\<rparr> in
         andthen (mappages d i PGSIZE (V2P pg) (PTE_FLAGS e) s) (\<lambda>(r, s).
           if r < 0 then andthen (freevm d s) (\<lambda>s. Inr (0, s)) else copyuvm_loop pgdir d is s))"

definition copyuvm :: "kconf \<Rightarrow> u32 \<Rightarrow> u32 \<Rightarrow> 'z kmem_scheme \<Rightarrow> (u32 \<times> 'z kmem_scheme) result" where
  "copyuvm c pgdir sz s =
    andthen (setupkvm c s) (\<lambda>(d, s). if d = 0 then Inr (0, s) else copyuvm_loop pgdir d (page_addrs 0 sz) s)"

text \<open>\<open>uva2ka\<close> dereferences the result of \<open>walkpgdir\<close> without a test; for a null pointer that is undefined.\<close>

definition uva2ka :: "u32 \<Rightarrow> u32 \<Rightarrow> 'z kmem_scheme \<Rightarrow> u32 result" where
  "uva2ka pgdir uva s =
    (let pte = fst (walkpgdir pgdir uva False s); e = load32 (k_mem s) pte in
     if pte = 0 then Inl (Undefined ''uva2ka: pte'')
     else if e AND PTE_P = 0 then Inr 0
     else if e AND PTE_U = 0 then Inr 0
     else Inr (P2V (PTE_ADDR e)))"

definition copyout_n :: "u32 \<Rightarrow> nat \<Rightarrow> nat" where
  "copyout_n va len = min len (4096 - unat (va - PGROUNDDOWN va))"

lemma unat_page_offset: "unat (va - PGROUNDDOWN va) < 4096"
proof -
  have "unat (va - PGROUNDDOWN va) = unat va mod 4096"
    by (subst unat_sub) (simp_all add: word_le_nat_alt unat_PGROUNDDOWN minus_mult_div_eq_mod)
  then show ?thesis by simp
qed

function copyout :: "u32 \<Rightarrow> u32 \<Rightarrow> u8 list \<Rightarrow> 'z kmem_scheme \<Rightarrow> (int \<times> 'z kmem_scheme) result" where
  "copyout pgdir va buf s =
    (if buf = [] then Inr (0, s)
     else
       let va0 = PGROUNDDOWN va in
       andthen (uva2ka pgdir va0 s) (\<lambda>pa0.
         if pa0 = 0 then Inr (- 1, s)
         else
           let n = copyout_n va (length buf);
               s = s\<lparr>k_mem := store_bytes (pa0 + (va - va0)) (take n buf) (k_mem s)\<rparr>
           in copyout pgdir (va0 + PGSIZE) (drop n buf) s))"
  by pat_completeness auto
termination
  by (relation "measure (\<lambda>(pgdir, va, buf, s). length buf)")
    (use unat_page_offset in \<open>auto simp: copyout_n_def\<close>)

declare copyout.simps [simp del]

end
