(* ===== verification/Proc.thy ===== *)
theory Proc
  imports Sysfile Vm
begin

text \<open>
  Processes, \<open>src/xv6/proc.c\<close> and \<open>proc.h\<close>: the process table, creation and end of processes, sleep and wakeup, and
  the two schedulers (round robin and the multi-level feedback queue). A pointer to an entry of \<open>ptable.proc\<close> is
  its index. The lock \<open>ptable.lock\<close> brackets every access to the states and is left out; a context switch by
  \<open>swtch\<close> ends one atomic section, so \<open>scheduler\<close> is split there into the choice of a process (\<open>mlfq_pick\<close>,
  \<open>rr_pick\<close>, \<open>dispatch\<close>) and the work after the process has given the processor back (\<open>mlfq_return\<close>), and \<open>sleep\<close>, \<open>yield\<close> and \<open>exit\<close> end with the checks of \<open>sched\<close>.
\<close>

section \<open>State\<close>

datatype procstate = UNUSED | EMBRYO | SLEEPING | RUNNABLE | RUNNING | ZOMBIE

record trapframe =
  tf_edi :: u32
  tf_esi :: u32
  tf_ebp :: u32
  tf_oesp :: u32
  tf_ebx :: u32
  tf_edx :: u32
  tf_ecx :: u32
  tf_eax :: u32
  tf_gs :: u16
  tf_fs :: u16
  tf_es :: u16
  tf_ds :: u16
  tf_trapno :: u32
  tf_err :: u32
  tf_eip :: u32
  tf_cs :: u16
  tf_eflags :: u32
  tf_esp :: u32
  tf_ss :: u16

text \<open>\<open>p_tf\<close> is the address of the trap frame on the kernel stack, \<open>p_frame\<close> its contents.\<close>

record proc =
  p_sz :: u32
  p_pgdir :: u32
  p_kstack :: u32
  p_state :: procstate
  p_pid :: int
  p_parent :: "nat option"
  p_tf :: u32
  p_frame :: trapframe
  p_context :: u32
  p_chan :: u32
  p_killed :: bool
  p_ofile :: "nat option list"
  p_cwd :: "nat option"
  p_name :: "u8 list"
  p_scheduler :: u32
  p_is_threaded :: bool
  p_priority :: int
  p_ticks :: "int list"
  p_wait_ticks :: "int list"

text \<open>The kernel image: its configuration, the entry points \<open>forkret\<close> and \<open>trapret\<close>, and the first program.\<close>

record kimage = kconf +
  ki_forkret :: u32
  ki_trapret :: u32
  ki_initcode :: "u8 list"

text \<open>\<open>proc_addr i\<close> is the address \<open>&ptable.proc[i]\<close>, which \<open>wait\<close> uses as a sleep channel.\<close>

record 'd sys = "'d files" +
  ptable :: "proc list"
  initproc :: "nat option"
  nextpid :: int
  image :: kimage
  hw :: mmu
  proc_addr :: "nat \<Rightarrow> u32"

definition upd_p :: "nat \<Rightarrow> (proc \<Rightarrow> proc) \<Rightarrow> ('d, 'z) sys_scheme \<Rightarrow> ('d, 'z) sys_scheme" where
  "upd_p i f s = s\<lparr>ptable := upd_nth i f (ptable s)\<rparr>"

definition zero_frame :: trapframe where
  "zero_frame = \<lparr>tf_edi = 0, tf_esi = 0, tf_ebp = 0, tf_oesp = 0, tf_ebx = 0, tf_edx = 0, tf_ecx = 0, tf_eax = 0,
     tf_gs = 0, tf_fs = 0, tf_es = 0, tf_ds = 0, tf_trapno = 0, tf_err = 0, tf_eip = 0, tf_cs = 0, tf_eflags = 0,
     tf_esp = 0, tf_ss = 0\<rparr>"

section \<open>Processors\<close>

record pcpu =
  c_apicid :: u8
  c_proc :: "nat option"
  c_policy :: int

text \<open>\<open>mycpu\<close>: \<open>ief\<close> is the interrupt flag, \<open>apicid\<close> the number \<open>lapicid\<close> reads.\<close>

definition mycpu :: "bool \<Rightarrow> u8 \<Rightarrow> pcpu list \<Rightarrow> nat result" where
  "mycpu ief apicid cpus =
    (if ief then Inl (Panic ''mycpu called with interrupts enabled'')
     else case scan (\<lambda>c. c_apicid c = apicid) cpus of
       Some i \<Rightarrow> Inr i
     | None \<Rightarrow> Inl (Panic ''unknown apicid''))"

definition cpuid :: "bool \<Rightarrow> u8 \<Rightarrow> pcpu list \<Rightarrow> nat result" where
  "cpuid ief apicid cpus = mycpu ief apicid cpus"

text \<open>\<open>myproc\<close> turns interrupts off around \<open>mycpu\<close>.\<close>

definition myproc :: "u8 \<Rightarrow> pcpu list \<Rightarrow> nat option result" where
  "myproc apicid cpus = andthen (mycpu False apicid cpus) (\<lambda>i. Inr (c_proc (cpus ! i)))"

section \<open>Creation\<close>

text \<open>The section of \<open>allocproc\<close> under the lock: it claims the first unused entry.\<close>

definition alloc_slot :: "int \<Rightarrow> proc list \<Rightarrow> (nat \<times> proc list) option" where
  "alloc_slot pid ps =
    (case scan (\<lambda>p. p_state p = UNUSED) ps of
       None \<Rightarrow> None
     | Some i \<Rightarrow> Some (i, upd_nth i (\<lambda>p. p\<lparr>p_state := EMBRYO, p_pid := pid, p_priority := 3,
         p_ticks := replicate 4 0, p_wait_ticks := replicate 4 0\<rparr>) ps))"

definition allocproc :: "('d, 'z) sys_scheme \<Rightarrow> nat option \<times> ('d, 'z) sys_scheme" where
  "allocproc s =
    (case alloc_slot (nextpid s) (ptable s) of
       None \<Rightarrow> (None, s)
     | Some (i, ps) \<Rightarrow>
         let s = s\<lparr>ptable := ps, nextpid := nextpid s + 1\<rparr>;
             (ks, k) = kalloc (pg s);
             s = upd_p i (p_kstack_update (\<lambda>_. ks)) (s\<lparr>pg := k\<rparr>)
         in if ks = 0 then (None, upd_p i (p_state_update (\<lambda>_. UNUSED)) s)
            else
              let sp = ks + KSTACKSIZE;
                  tf = sp - 76;
                  ret = tf - 4;
                  ctx = ret - 20;
                  m = store32 ret (ki_trapret (image s)) (k_mem k);
                  m = memset ctx 0 20 m;
                  m = store32 (ctx + 16) (ki_forkret (image s)) m
              in (Some i, upd_p i (\<lambda>p. p\<lparr>p_tf := tf, p_context := ctx\<rparr>) (s\<lparr>pg := k\<lparr>k_mem := m\<rparr>\<rparr>)))"

text \<open>\<open>safestrcpy\<close> into the field \<open>name\<close>: at most 15 bytes of the string.\<close>

definition set_name :: "u8 list \<Rightarrow> proc \<Rightarrow> proc" where
  "set_name cs p = p\<lparr>p_name := take 15 cs\<rparr>"

definition initcode_name :: "u8 list" where
  "initcode_name = [105, 110, 105, 116, 99, 111, 100, 101]"

definition userinit :: "('d, 'z) sys_scheme \<Rightarrow> ('d, 'z) sys_scheme result" where
  "userinit s =
    (case allocproc s of
       (None, s) \<Rightarrow> Inl (Undefined ''userinit: allocproc'')
     | (Some i, s) \<Rightarrow>
         let s = s\<lparr>initproc := Some i\<rparr> in
         andthen (setupkvm (kconf.truncate (image s)) (pg s)) (\<lambda>(pd, k).
           if pd = 0 then Inl (Panic ''userinit: out of memory?'')
           else
             andthen (inituvm pd (ki_initcode (image s)) k) (\<lambda>k.
               let s = upd_p i (set_name initcode_name o
                     (\<lambda>p. p\<lparr>p_pgdir := pd, p_sz := PGSIZE,
                       p_frame := zero_frame\<lparr>tf_cs := 27, tf_ds := 35, tf_es := 35, tf_ss := 35,
                         tf_eflags := 0x200, tf_esp := PGSIZE, tf_eip := 0\<rparr>\<rparr>)) (s\<lparr>pg := k\<rparr>) in
               andthen (namei 0 [slash] s) (\<lambda>(cwd, s).
                 Inr (upd_p i (\<lambda>p. p\<lparr>p_cwd := cwd, p_state := RUNNABLE\<rparr>) s)))))"

text \<open>\<open>i\<close> is the current process.\<close>

definition growproc :: "nat \<Rightarrow> u32 \<Rightarrow> ('d, 'z) sys_scheme \<Rightarrow> (int \<times> ('d, 'z) sys_scheme) result" where
  "growproc i n s =
    (let sz = p_sz (ptable s ! i); pd = p_pgdir (ptable s ! i) in
     andthen
       (if sint n > 0 then allocuvm pd sz (sz + n) (pg s)
        else if sint n < 0 then deallocuvm pd sz (sz + n) (pg s)
        else Inr (sz, pg s))
       (\<lambda>(sz', k).
         let s = s\<lparr>pg := k\<rparr> in
         if n \<noteq> 0 \<and> sz' = 0 then Inr (- 1, s)
         else
           let s = upd_p i (p_sz_update (\<lambda>_. sz')) s in
           andthen (switchuvm (p_kstack (ptable s ! i)) pd (hw s)) (\<lambda>h. Inr (0, s\<lparr>hw := h\<rparr>))))"

definition fork_file :: "nat \<Rightarrow> nat \<Rightarrow> nat \<Rightarrow> ('d, 'z) sys_scheme \<Rightarrow> ('d, 'z) sys_scheme result" where
  "fork_file i np fd s =
    (case p_ofile (ptable s ! i) ! fd of
       None \<Rightarrow> Inr s
     | Some f \<Rightarrow> andthen (filedup f s) (\<lambda>s. Inr (upd_p np (p_ofile_update (\<lambda>fs. fs[fd := Some f])) s)))"

definition fork_link :: "nat \<Rightarrow> proc \<Rightarrow> proc \<Rightarrow> proc" where
  "fork_link i cur p = p\<lparr>p_sz := p_sz cur, p_parent := Some i, p_frame := (p_frame cur)\<lparr>tf_eax := 0\<rparr>\<rparr>"

definition fork :: "nat \<Rightarrow> ('d, 'z) sys_scheme \<Rightarrow> (int \<times> ('d, 'z) sys_scheme) result" where
  "fork i s =
    (case allocproc s of
       (None, s) \<Rightarrow> Inr (- 1, s)
     | (Some np, s) \<Rightarrow>
         andthen (copyuvm (kconf.truncate (image s)) (p_pgdir (ptable s ! i)) (p_sz (ptable s ! i)) (pg s)) (\<lambda>(pd, k).
           let s = upd_p np (p_pgdir_update (\<lambda>_. pd)) (s\<lparr>pg := k\<rparr>) in
           if pd = 0 then
             andthen (kfree (p_kstack (ptable s ! np)) (pg s)) (\<lambda>k.
               Inr (- 1, upd_p np (\<lambda>p. p\<lparr>p_kstack := 0, p_state := UNUSED\<rparr>) (s\<lparr>pg := k\<rparr>)))
           else
             let cur = ptable s ! i;
                 s = upd_p np (fork_link i cur) s in
             andthen (each (fork_file i np) [0..<NOFILE] s) (\<lambda>s.
               case p_cwd (ptable s ! i) of
                 None \<Rightarrow> Inl (Undefined ''fork: cwd'')
               | Some cwd \<Rightarrow>
                   let s = snd (idup cwd s);
                       s = upd_p np (set_name (p_name (ptable s ! i)) o (\<lambda>p. p\<lparr>p_cwd := Some cwd\<rparr>)) s;
                       pid = p_pid (ptable s ! np)
                   in Inr (pid, upd_p np (p_state_update (\<lambda>_. RUNNABLE)) s))))"

section \<open>Sleeping and waking\<close>

definition wakeup1 :: "u32 \<Rightarrow> proc list \<Rightarrow> proc list" where
  "wakeup1 chan ps = map (\<lambda>p. if p_state p = SLEEPING \<and> p_chan p = chan then p\<lparr>p_state := RUNNABLE\<rparr> else p) ps"

definition wakeup :: "u32 \<Rightarrow> ('d, 'z) sys_scheme \<Rightarrow> ('d, 'z) sys_scheme" where
  "wakeup chan s = s\<lparr>ptable := wakeup1 chan (ptable s)\<rparr>"

text \<open>
  The checks of \<open>sched\<close> before the switch: \<open>locked\<close> says whether this processor holds \<open>ptable.lock\<close>, \<open>ncli\<close> is the
  depth of \<open>pushcli\<close>, \<open>ief\<close> the interrupt flag.
\<close>

definition sched :: "bool \<Rightarrow> int \<Rightarrow> bool \<Rightarrow> proc \<Rightarrow> unit result" where
  "sched locked ncli ief p =
    (if \<not> locked then Inl (Panic ''sched ptable.lock'')
     else if ncli \<noteq> 1 then Inl (Panic ''sched locks'')
     else if p_state p = RUNNING then Inl (Panic ''sched running'')
     else if ief then Inl (Panic ''sched interruptible'')
     else Inr ())"

definition yield :: "nat \<Rightarrow> proc list \<Rightarrow> proc list result" where
  "yield i ps =
    (let ps = upd_nth i (p_state_update (\<lambda>_. RUNNABLE)) ps in
     andthen (sched True 1 False (ps ! i)) (\<lambda>_. Inr ps))"

text \<open>\<open>sleep\<close> up to the switch, and after it; the lock it gives up is left out.\<close>

definition sleep :: "nat option \<Rightarrow> u32 \<Rightarrow> proc list \<Rightarrow> proc list result" where
  "sleep cur chan ps =
    (case cur of
       None \<Rightarrow> Inl (Panic ''sleep'')
     | Some i \<Rightarrow>
         let ps = upd_nth i (\<lambda>p. p\<lparr>p_chan := chan, p_state := SLEEPING\<rparr>) ps in
         andthen (sched True 1 False (ps ! i)) (\<lambda>_. Inr ps))"

definition sleep_return :: "nat \<Rightarrow> proc list \<Rightarrow> proc list" where
  "sleep_return i ps = upd_nth i (p_chan_update (\<lambda>_. 0)) ps"

definition kill :: "int \<Rightarrow> proc list \<Rightarrow> int \<times> proc list" where
  "kill pid ps =
    (case scan (\<lambda>p. p_pid p = pid) ps of
       None \<Rightarrow> (- 1, ps)
     | Some i \<Rightarrow>
         (0, upd_nth i (\<lambda>p. p\<lparr>p_killed := True, p_state := (if p_state p = SLEEPING then RUNNABLE else p_state p)\<rparr>) ps))"

section \<open>The end of a process\<close>

definition exit_file :: "nat \<Rightarrow> nat \<Rightarrow> ('d, 'z) sys_scheme \<Rightarrow> ('d, 'z) sys_scheme result" where
  "exit_file i fd s =
    (case p_ofile (ptable s ! i) ! fd of
       None \<Rightarrow> Inr s
     | Some f \<Rightarrow> andthen (fileclose f s) (\<lambda>s. Inr (upd_p i (p_ofile_update (\<lambda>fs. fs[fd := None])) s)))"

text \<open>One turn of the loop that passes the children on to \<open>init\<close>.\<close>

definition adopt :: "(nat \<Rightarrow> u32) \<Rightarrow> nat \<Rightarrow> nat \<Rightarrow> nat \<Rightarrow> proc list \<Rightarrow> proc list" where
  "adopt addr i ini k ps =
    (if p_parent (ps ! k) = Some i then
       let ps = upd_nth k (p_parent_update (\<lambda>_. Some ini)) ps
       in if p_state (ps ! k) = ZOMBIE then wakeup1 (addr ini) ps else ps
     else ps)"

definition exit_table :: "(nat \<Rightarrow> u32) \<Rightarrow> nat \<Rightarrow> nat \<Rightarrow> proc list \<Rightarrow> proc list" where
  "exit_table addr i ini ps =
    (let ps = wakeup1 (case p_parent (ps ! i) of None \<Rightarrow> 0 | Some q \<Rightarrow> addr q) ps;
         ps = fold (adopt addr i ini) [0..<length ps] ps
     in upd_nth i (p_state_update (\<lambda>_. ZOMBIE)) ps)"

definition exit_proc :: "nat \<Rightarrow> ('d, 'z) sys_scheme \<Rightarrow> ('d, 'z) sys_scheme result" where
  "exit_proc i s =
    (if initproc s = Some i then Inl (Panic ''init exiting'')
     else
       andthen (each (exit_file i) [0..<NOFILE] s) (\<lambda>s.
       andthen (begin_op s) (\<lambda>s.
         case (p_cwd (ptable s ! i), initproc s) of
           (Some cwd, Some ini) \<Rightarrow>
             andthen (iput cwd s) (\<lambda>s.
             andthen (end_op s) (\<lambda>s.
               let s = upd_p i (p_cwd_update (\<lambda>_. None)) s;
                   s = s\<lparr>ptable := exit_table (proc_addr s) i ini (ptable s)\<rparr> in
               andthen (sched True 1 False (ptable s ! i)) (\<lambda>_. Inr s)))
         | _ \<Rightarrow> Inl (Undefined ''exit: cwd''))))"

definition reap_entry :: "proc \<Rightarrow> proc" where
  "reap_entry p = p\<lparr>p_kstack := 0, p_pid := 0, p_parent := None, p_name := [], p_killed := False, p_state := UNUSED\<rparr>"

definition reap :: "nat \<Rightarrow> ('d, 'z) sys_scheme \<Rightarrow> (int \<times> ('d, 'z) sys_scheme) result" where
  "reap k s =
    (let p = ptable s ! k in
     andthen (kfree (p_kstack p) (pg s)) (\<lambda>g.
     andthen (freevm (p_pgdir p) g) (\<lambda>g.
       Inr (p_pid p, upd_p k reap_entry (s\<lparr>pg := g\<rparr>)))))"

text \<open>One scan of \<open>wait\<close>: the pid of a child, -1, or \<open>None\<close> when the process goes to sleep on its own entry.\<close>

definition wait :: "nat \<Rightarrow> ('d, 'z) sys_scheme \<Rightarrow> (int option \<times> ('d, 'z) sys_scheme) result" where
  "wait i s =
    (case scan (\<lambda>p. p_parent p = Some i \<and> p_state p = ZOMBIE) (ptable s) of
       Some k \<Rightarrow> andthen (reap k s) (\<lambda>(pid, s). Inr (Some pid, s))
     | None \<Rightarrow>
         if scan (\<lambda>p. p_parent p = Some i) (ptable s) = None \<or> p_killed (ptable s ! i) then Inr (Some (- 1), s)
         else andthen (sleep (Some i) (proc_addr s i) (ptable s)) (\<lambda>ps. Inr (None, s\<lparr>ptable := ps\<rparr>)))"

text \<open>\<open>forkret\<close>: \<open>first\<close> is its static variable.\<close>

definition forkret :: "bool \<Rightarrow> ('d, 'z) sys_scheme \<Rightarrow> (bool \<times> ('d, 'z) sys_scheme) result" where
  "forkret first s =
    (if first then andthen (iinit ROOTDEV s) (\<lambda>s. andthen (initlog ROOTDEV s) (\<lambda>s. Inr (False, s))) else Inr (False, s))"

section \<open>The schedulers\<close>

text \<open>The highest priority first; among equals, the first in the table.\<close>

fun mlfq_loop :: "int list \<Rightarrow> proc list \<Rightarrow> nat option" where
  "mlfq_loop [] ps = None"
| "mlfq_loop (prio # prios) ps =
    (case scan (\<lambda>p. p_state p = RUNNABLE \<and> p_priority p = prio) ps of
       Some i \<Rightarrow> Some i
     | None \<Rightarrow> mlfq_loop prios ps)"

definition mlfq_pick :: "proc list \<Rightarrow> nat option" where
  "mlfq_pick ps = mlfq_loop [3, 2, 1, 0] ps"

text \<open>The rest of the round-robin loop, from the entry \<open>k\<close> on.\<close>

definition rr_pick :: "nat \<Rightarrow> proc list \<Rightarrow> nat option" where
  "rr_pick k ps = map_option (\<lambda>i. k + i) (scan (\<lambda>p. p_state p = RUNNABLE) (drop k ps))"

definition dispatch :: "nat \<Rightarrow> proc list \<Rightarrow> mmu \<Rightarrow> (proc list \<times> mmu) result" where
  "dispatch i ps h =
    andthen (switchuvm (p_kstack (ps ! i)) (p_pgdir (ps ! i)) h) (\<lambda>h.
      Inr (upd_nth i (p_state_update (\<lambda>_. RUNNING)) ps, h))"

definition slice :: "int list" where
  "slice = [0, 32, 16, 8]"

definition demote :: "proc \<Rightarrow> proc" where
  "demote p =
    (let prio = nat (p_priority p) in
     if p_priority p > 0 \<and> p_ticks p ! prio \<ge> slice ! prio
     then p\<lparr>p_priority := p_priority p - 1, p_ticks := (p_ticks p)[prio := 0]\<rparr> else p)"

definition wait_tick :: "proc \<Rightarrow> proc" where
  "wait_tick p =
    (if p_state p = RUNNABLE \<and> \<not> (p_priority p < 0 \<or> p_priority p > 3)
     then p\<lparr>p_wait_ticks := upd_nth (nat (p_priority p)) (\<lambda>t. t + 1) (p_wait_ticks p)\<rparr> else p)"

definition update_wait_ticks :: "nat \<Rightarrow> proc list \<Rightarrow> proc list" where
  "update_wait_ticks running ps = map (\<lambda>k. if k = running then ps ! k else wait_tick (ps ! k)) [0..<length ps]"

definition boost :: "proc \<Rightarrow> proc" where
  "boost p =
    (if p_state p = UNUSED then p
     else
       let prio = p_priority p in
       if prio = 2 \<or> prio = 1 then
         if p_wait_ticks p ! nat prio \<ge> 10 * slice ! nat prio
         then p\<lparr>p_priority := prio + 1, p_wait_ticks := (p_wait_ticks p)[nat prio := 0]\<rparr> else p
       else if prio = 0 then
         if p_wait_ticks p ! 0 \<ge> 500 then p\<lparr>p_priority := 1, p_wait_ticks := (p_wait_ticks p)[0 := 0]\<rparr> else p
       else p)"

definition priority_boost :: "proc list \<Rightarrow> proc list" where
  "priority_boost ps = map boost ps"

text \<open>What the scheduler does when the chosen process \<open>i\<close> has switched back.\<close>

definition mlfq_return :: "nat \<Rightarrow> proc list \<Rightarrow> proc list" where
  "mlfq_return i ps = priority_boost (update_wait_ticks i (upd_nth i demote ps))"

text \<open>The part of \<open>trap\<close> for a timer interrupt that charges the running process a tick and yields.\<close>

definition charge_tick :: "proc \<Rightarrow> proc" where
  "charge_tick p = p\<lparr>p_ticks := upd_nth (nat (p_priority p)) (\<lambda>t. t + 1) (p_ticks p)\<rparr>"

definition timer_yield :: "nat \<Rightarrow> proc list \<Rightarrow> proc list result" where
  "timer_yield i ps = yield i (upd_nth i charge_tick ps)"

section \<open>System calls\<close>

record pstat =
  ps_inuse :: "int list"
  ps_pid :: "int list"
  ps_priority :: "int list"
  ps_state :: "procstate list"
  ps_ticks :: "int list list"
  ps_wait_ticks :: "int list list"

definition getpinfo :: "proc list \<Rightarrow> pstat" where
  "getpinfo ps =
    \<lparr>ps_inuse = map (\<lambda>p. if p_state p \<noteq> UNUSED then 1 else 0) ps, ps_pid = map p_pid ps, ps_priority = map p_priority ps,
     ps_state = map p_state ps, ps_ticks = map p_ticks ps, ps_wait_ticks = map p_wait_ticks ps\<rparr>"

definition setSchedPolicy :: "int \<Rightarrow> pcpu \<Rightarrow> int \<times> pcpu" where
  "setSchedPolicy policy c = (if policy < 0 \<or> policy > 3 then (- 1, c) else (0, c\<lparr>c_policy := policy\<rparr>))"

end
