(* ===== verification/Sched.thy ===== *)
theory Sched
  imports Proc
begin

text \<open>
  Scheduling on several processors, \<open>scheduler\<close>, \<open>sched\<close>, \<open>sleep\<close>, \<open>wakeup\<close>, \<open>exit\<close> and \<open>wait\<close> of
  \<open>src/xv6/proc.c\<close> together: the process table and the processors form one state, and every atomic section under
  \<open>ptable.lock\<close> is a step. The invariant of the reachable states says that a running process is on exactly one
  processor, that the queue numbers stay in their range, and that no parent sleeps in \<open>wait\<close> beside a dead child.
\<close>

section \<open>The machine\<close>

text \<open>Where the scheduler of a processor is: at the top of its loop, in the MLFQ branch, or at an entry of the round-robin loop.\<close>

datatype place = Top | In_mlfq | In_rr nat

record core =
  k_cpu :: pcpu
  k_place :: place

record smp =
  tbl :: "proc list"
  cores :: "core list"
  spid :: int

definition on_core :: "nat \<Rightarrow> nat option \<Rightarrow> place \<Rightarrow> smp \<Rightarrow> smp" where
  "on_core c p pl s = s\<lparr>cores := upd_nth c (\<lambda>k. k\<lparr>k_cpu := (k_cpu k)\<lparr>c_proc := p\<rparr>, k_place := pl\<rparr>) (cores s)\<rparr>"

definition core_proc :: "smp \<Rightarrow> nat \<Rightarrow> nat option" where
  "core_proc s c = (if c < length (cores s) then c_proc (k_cpu (cores s ! c)) else None)"

definition set_running :: "nat \<Rightarrow> proc list \<Rightarrow> proc list" where
  "set_running i ps = upd_nth i (p_state_update (\<lambda>_. RUNNING)) ps"

text \<open>The processor \<open>c\<close> is back in its scheduler after \<open>i\<close> has switched to it.\<close>

definition switch_back :: "nat \<Rightarrow> nat \<Rightarrow> smp \<Rightarrow> smp" where
  "switch_back c i s =
    (case k_place (cores s ! c) of
       In_rr k \<Rightarrow> on_core c None (In_rr (Suc k)) s
     | _ \<Rightarrow> on_core c None Top (s\<lparr>tbl := mlfq_return i (tbl s)\<rparr>))"

text \<open>The ways in which the running process \<open>i\<close> gives up the processor, with the table it leaves.\<close>

inductive gives_up :: "(nat \<Rightarrow> u32) \<Rightarrow> nat \<Rightarrow> nat \<Rightarrow> proc list \<Rightarrow> proc list \<Rightarrow> bool" for addr ini i where
  by_yield: "yield i ps = Inr qs \<Longrightarrow> gives_up addr ini i ps qs"
| by_timer: "timer_yield i ps = Inr qs \<Longrightarrow> gives_up addr ini i ps qs"
| by_sleep: "chan \<notin> range addr \<Longrightarrow> sleep (Some i) chan ps = Inr qs \<Longrightarrow> gives_up addr ini i ps qs"
| by_wait: "scan (\<lambda>p. p_parent p = Some i \<and> p_state p = ZOMBIE) ps = None \<Longrightarrow> sleep (Some i) (addr i) ps = Inr qs
    \<Longrightarrow> gives_up addr ini i ps qs"
| by_exit: "i \<noteq> ini \<Longrightarrow> gives_up addr ini i ps (exit_table addr i ini ps)"

text \<open>
  The steps. Between its return and its next choice the code keeps \<open>ptable.lock\<close>; here other processors may step in between,
  which only adds behaviour. \<open>fork\<close> is the three steps \<open>st_alloc\<close>, \<open>st_link\<close> and \<open>st_publish\<close>.
\<close>

inductive smp_step :: "(nat \<Rightarrow> u32) \<Rightarrow> nat \<Rightarrow> smp \<Rightarrow> smp \<Rightarrow> bool" for addr ini where
  st_mlfq: "c < length (cores s) \<Longrightarrow> core_proc s c = None \<Longrightarrow> k_place (cores s ! c) = Top \<Longrightarrow>
    c_policy (k_cpu (cores s ! c)) = 1 \<Longrightarrow> mlfq_pick (tbl s) = Some i \<Longrightarrow>
    smp_step addr ini s (on_core c (Some i) In_mlfq (s\<lparr>tbl := set_running i (tbl s)\<rparr>))"
| st_rr_start: "c < length (cores s) \<Longrightarrow> core_proc s c = None \<Longrightarrow> k_place (cores s ! c) = Top \<Longrightarrow>
    c_policy (k_cpu (cores s ! c)) \<noteq> 1 \<Longrightarrow> smp_step addr ini s (on_core c None (In_rr 0) s)"
| st_rr: "c < length (cores s) \<Longrightarrow> core_proc s c = None \<Longrightarrow> k_place (cores s ! c) = In_rr k \<Longrightarrow>
    rr_pick k (tbl s) = Some i \<Longrightarrow>
    smp_step addr ini s (on_core c (Some i) (In_rr i) (s\<lparr>tbl := set_running i (tbl s)\<rparr>))"
| st_rr_end: "c < length (cores s) \<Longrightarrow> core_proc s c = None \<Longrightarrow> k_place (cores s ! c) = In_rr k \<Longrightarrow>
    rr_pick k (tbl s) = None \<Longrightarrow> smp_step addr ini s (on_core c None Top s)"
| st_switch: "core_proc s c = Some i \<Longrightarrow> gives_up addr ini i (tbl s) qs \<Longrightarrow> smp_step addr ini s (switch_back c i (s\<lparr>tbl := qs\<rparr>))"
| st_wakeup: "smp_step addr ini s (s\<lparr>tbl := wakeup1 chan (tbl s)\<rparr>)"
| st_kill: "smp_step addr ini s (s\<lparr>tbl := snd (kill pid (tbl s))\<rparr>)"
| st_awake: "core_proc s c = Some i \<Longrightarrow> smp_step addr ini s (s\<lparr>tbl := sleep_return i (tbl s)\<rparr>)"
| st_alloc: "core_proc s c = Some i \<Longrightarrow> alloc_slot (spid s) (tbl s) = Some (k, qs) \<Longrightarrow>
    smp_step addr ini s (s\<lparr>tbl := qs, spid := spid s + 1\<rparr>)"
| st_link: "core_proc s c = Some i \<Longrightarrow> k < length (tbl s) \<Longrightarrow> p_state (tbl s ! k) = EMBRYO \<Longrightarrow>
    smp_step addr ini s (s\<lparr>tbl := upd_nth k (fork_link i (tbl s ! i)) (tbl s)\<rparr>)"
| st_publish: "core_proc s c = Some i \<Longrightarrow> k < length (tbl s) \<Longrightarrow> p_state (tbl s ! k) = EMBRYO \<Longrightarrow>
    smp_step addr ini s (s\<lparr>tbl := upd_nth k (p_state_update (\<lambda>_. RUNNABLE)) (tbl s)\<rparr>)"
| st_abort: "core_proc s c = Some i \<Longrightarrow> k < length (tbl s) \<Longrightarrow> p_state (tbl s ! k) = EMBRYO \<Longrightarrow>
    smp_step addr ini s (s\<lparr>tbl := upd_nth k (p_state_update (\<lambda>_. UNUSED)) (tbl s)\<rparr>)"
| st_reap: "core_proc s c = Some i \<Longrightarrow> scan (\<lambda>p. p_parent p = Some i \<and> p_state p = ZOMBIE) (tbl s) = Some k \<Longrightarrow>
    smp_step addr ini s (s\<lparr>tbl := upd_nth k reap_entry (tbl s)\<rparr>)"
| st_policy: "core_proc s c = Some i \<Longrightarrow>
    smp_step addr ini s (s\<lparr>cores := upd_nth c (k_cpu_update (snd o setSchedPolicy n)) (cores s)\<rparr>)"

inductive smp_run :: "(nat \<Rightarrow> u32) \<Rightarrow> nat \<Rightarrow> smp \<Rightarrow> smp \<Rightarrow> bool" for addr ini where
  run_refl: "smp_run addr ini s s"
| run_step: "smp_run addr ini s t \<Longrightarrow> smp_step addr ini t u \<Longrightarrow> smp_run addr ini s u"

section \<open>The invariant\<close>

definition sched_ok :: "proc \<Rightarrow> bool" where
  "sched_ok p \<longleftrightarrow> 0 \<le> p_priority p \<and> p_priority p \<le> 3 \<and> length (p_ticks p) = 4 \<and> length (p_wait_ticks p) = 4"

lemma sched_ok_state [simp]:
  "sched_ok (p_state_update f p) = sched_ok p" "sched_ok (p_chan_update g p) = sched_ok p"
  by (simp_all add: sched_ok_def)

definition no_lost_child :: "(nat \<Rightarrow> u32) \<Rightarrow> proc list \<Rightarrow> bool" where
  "no_lost_child addr ps \<longleftrightarrow>
    (\<forall>i < length ps. \<forall>k < length ps. p_state (ps ! i) = SLEEPING \<and> p_chan (ps ! i) = addr i \<and> p_parent (ps ! k) = Some i
      \<longrightarrow> p_state (ps ! k) \<noteq> ZOMBIE)"

definition table_inv :: "(nat \<Rightarrow> u32) \<Rightarrow> nat \<Rightarrow> proc list \<Rightarrow> bool" where
  "table_inv addr ini ps \<longleftrightarrow>
    ini < length ps \<and> p_parent (ps ! ini) = None \<and> p_state (ps ! ini) \<notin> {UNUSED, EMBRYO, ZOMBIE} \<and>
    (\<forall>k < length ps. sched_ok (ps ! k) \<and> p_parent (ps ! k) \<noteq> Some k) \<and> no_lost_child addr ps"

definition running :: "proc list \<Rightarrow> nat set" where
  "running ps = {i. i < length ps \<and> p_state (ps ! i) = RUNNING}"

definition cores_inv :: "smp \<Rightarrow> bool" where
  "cores_inv s \<longleftrightarrow>
    (\<forall>i. (\<exists>c. core_proc s c = Some i) \<longleftrightarrow> i \<in> running (tbl s)) \<and>
    (\<forall>c d i. core_proc s c = Some i \<longrightarrow> core_proc s d = Some i \<longrightarrow> c = d)"

section \<open>Quiet changes of the table\<close>

text \<open>
  What most operations promise of every entry they touch: its scheduling data stay in range, its parent stays or is cleared,
  it does not become a zombie, and it does not fall asleep on the entry of a process.
\<close>

definition quiet :: "(nat \<Rightarrow> u32) \<Rightarrow> proc \<Rightarrow> proc \<Rightarrow> bool" where
  "quiet addr p q \<longleftrightarrow>
    (sched_ok p \<longrightarrow> sched_ok q) \<and> (p_parent q = p_parent p \<or> p_parent q = None) \<and>
    (p_state q \<in> {UNUSED, EMBRYO, ZOMBIE} \<longrightarrow> p_state p \<in> {UNUSED, EMBRYO, ZOMBIE}) \<and>
    (p_state q = ZOMBIE \<longrightarrow> p_state p = ZOMBIE) \<and>
    (p_state q = SLEEPING \<longrightarrow> p_state p = SLEEPING \<and> p_chan q = p_chan p \<or> p_chan q \<notin> range addr)"

lemma quiet_refl [simp]: "quiet addr p p"
  by (simp add: quiet_def)

lemma quiet_trans: "quiet addr p q \<Longrightarrow> quiet addr q r \<Longrightarrow> quiet addr p r"
  unfolding quiet_def by metis

definition quiet_table :: "(nat \<Rightarrow> u32) \<Rightarrow> proc list \<Rightarrow> proc list \<Rightarrow> bool" where
  "quiet_table addr ps qs \<longleftrightarrow> length qs = length ps \<and> (\<forall>i < length ps. quiet addr (ps ! i) (qs ! i))"

lemma quiet_table_trans: "quiet_table addr ps qs \<Longrightarrow> quiet_table addr qs rs \<Longrightarrow> quiet_table addr ps rs"
  unfolding quiet_table_def by (metis quiet_trans)

lemma quiet_table_upd:
  "(i < length ps \<Longrightarrow> quiet addr (ps ! i) (f (ps ! i))) \<Longrightarrow> quiet_table addr ps (upd_nth i f ps)"
  by (auto simp: quiet_table_def nth_upd_nth)

lemma quiet_table_map:
  "(\<And>p. quiet addr p (f p)) \<Longrightarrow> quiet_table addr ps (map f ps)"
  by (simp add: quiet_table_def)

lemma no_lost_child_quiet:
  assumes "no_lost_child addr ps" and "quiet_table addr ps qs"
  shows "no_lost_child addr qs"
  unfolding no_lost_child_def
proof (intro allI impI)
  fix i k
  assume a: "i < length qs" "k < length qs"
    "p_state (qs ! i) = SLEEPING \<and> p_chan (qs ! i) = addr i \<and> p_parent (qs ! k) = Some i"
  then have "quiet addr (ps ! i) (qs ! i)" "quiet addr (ps ! k) (qs ! k)" "i < length ps" "k < length ps"
    using assms(2) by (auto simp: quiet_table_def)
  then show "p_state (qs ! k) \<noteq> ZOMBIE" using a assms(1) unfolding quiet_def no_lost_child_def by (metis option.distinct(1) rangeI)
qed

lemma table_inv_quiet:
  assumes inv: "table_inv addr ini ps" and q: "quiet_table addr ps qs"
  shows "table_inv addr ini qs"
proof -
  have "quiet addr (ps ! k) (qs ! k)" if "k < length ps" for k using q that by (simp add: quiet_table_def)
  moreover have "length qs = length ps" using q by (simp add: quiet_table_def)
  moreover have "no_lost_child addr qs" using no_lost_child_quiet q inv by (auto simp: table_inv_def)
  ultimately show ?thesis using inv unfolding table_inv_def quiet_def by (metis option.distinct(1))
qed

lemma wakeup1_quiet: "quiet_table addr ps (wakeup1 chan ps)"
  unfolding wakeup1_def by (rule quiet_table_map) (simp add: quiet_def sched_ok_def)

lemma kill_quiet: "quiet_table addr ps (snd (kill pid ps))"
proof (cases "scan (\<lambda>p. p_pid p = pid) ps")
  case (Some i)
  then show ?thesis unfolding kill_def
    by (auto intro!: quiet_table_upd simp: quiet_def sched_ok_def)
qed (simp add: kill_def quiet_table_def)

lemma set_running_quiet: "quiet_table addr ps (set_running i ps)"
  unfolding set_running_def by (rule quiet_table_upd) (simp add: quiet_def sched_ok_def)

lemma yield_eq: "i < length ps \<Longrightarrow> yield i ps = Inr (upd_nth i (p_state_update (\<lambda>_. RUNNABLE)) ps)"
  by (simp add: yield_def sched_def nth_upd_nth Let_def andthen_def)

lemma sleep_eq: "i < length ps \<Longrightarrow> sleep (Some i) chan ps = Inr (upd_nth i (\<lambda>p. p\<lparr>p_chan := chan, p_state := SLEEPING\<rparr>) ps)"
  by (simp add: sleep_def sched_def nth_upd_nth Let_def andthen_def)

lemma charge_tick_ok: "sched_ok p \<Longrightarrow> sched_ok (charge_tick p)"
  by (simp add: charge_tick_def sched_ok_def)

lemma demote_ok: "sched_ok p \<Longrightarrow> sched_ok (demote p)"
  by (simp add: demote_def sched_ok_def Let_def)

lemma wait_tick_ok: "sched_ok p \<Longrightarrow> sched_ok (wait_tick p)"
  by (simp add: wait_tick_def sched_ok_def)

lemma boost_ok: "sched_ok p \<Longrightarrow> sched_ok (boost p)"
  by (auto simp: boost_def sched_ok_def Let_def)

lemma tick_fields [simp]:
  "p_state (demote p) = p_state p" "p_state (wait_tick p) = p_state p" "p_state (boost p) = p_state p" "p_state (charge_tick p) = p_state p"
  "p_parent (demote p) = p_parent p" "p_parent (wait_tick p) = p_parent p" "p_parent (boost p) = p_parent p"
  "p_parent (charge_tick p) = p_parent p"
  "p_chan (demote p) = p_chan p" "p_chan (wait_tick p) = p_chan p" "p_chan (boost p) = p_chan p" "p_chan (charge_tick p) = p_chan p"
  by (simp_all add: demote_def wait_tick_def boost_def charge_tick_def Let_def)

lemma length_mlfq_return [simp]: "length (mlfq_return i ps) = length ps"
  by (simp add: mlfq_return_def priority_boost_def update_wait_ticks_def)

lemma nth_mlfq_return:
  "k < length ps \<Longrightarrow> mlfq_return i ps ! k = boost (if k = i then demote (ps ! k) else wait_tick (ps ! k))"
  by (simp add: mlfq_return_def priority_boost_def update_wait_ticks_def nth_upd_nth)

lemma mlfq_return_quiet: "quiet_table addr ps (mlfq_return i ps)"
  unfolding quiet_table_def
  by (auto simp: nth_mlfq_return quiet_def intro: boost_ok demote_ok wait_tick_ok)

section \<open>The end of a process\<close>

lemma length_wakeup1 [simp]: "length (wakeup1 chan ps) = length ps"
  by (simp add: wakeup1_def)

lemma nth_wakeup1:
  "j < length ps \<Longrightarrow>
    wakeup1 chan ps ! j = (if p_state (ps ! j) = SLEEPING \<and> p_chan (ps ! j) = chan then (ps ! j)\<lparr>p_state := RUNNABLE\<rparr> else ps ! j)"
  by (simp add: wakeup1_def)

lemma length_adopt [simp]: "length (adopt addr i ini k ps) = length ps"
  by (simp add: adopt_def Let_def)

lemma length_fold_adopt [simp]: "length (fold (adopt addr i ini) ks ps) = length ps"
  by (induction ks arbitrary: ps) auto

definition adopted :: "nat \<Rightarrow> nat \<Rightarrow> proc \<Rightarrow> proc" where
  "adopted i ini p = (if p_parent p = Some i then p\<lparr>p_parent := Some ini\<rparr> else p)"

definition roused :: "u32 \<Rightarrow> proc \<Rightarrow> proc" where
  "roused chan p = (if p_state p = SLEEPING \<and> p_chan p = chan then p\<lparr>p_state := RUNNABLE\<rparr> else p)"

lemma nth_wakeup1_roused: "j < length ps \<Longrightarrow> wakeup1 chan ps ! j = roused chan (ps ! j)"
  by (simp add: nth_wakeup1 roused_def)

lemma roused_roused [simp]: "roused chan (roused chan p) = roused chan p"
  by (simp add: roused_def)

lemma parent_roused [simp]: "p_parent_update f (roused chan p) = roused chan (p_parent_update f p)"
  by (simp add: roused_def)

lemma roused_fields [simp]:
  "p_parent (roused chan p) = p_parent p" "p_state (roused chan p) = ZOMBIE \<longleftrightarrow> p_state p = ZOMBIE"
  "p_state (roused chan p) = RUNNING \<longleftrightarrow> p_state p = RUNNING" "sched_ok (roused chan p) = sched_ok p"
  "p_chan (roused chan p) = p_chan p"
  by (auto simp: roused_def sched_ok_def)

lemma adopted_fields [simp]:
  "p_state (adopted i ini p) = p_state p" "sched_ok (adopted i ini p) = sched_ok p" "p_chan (adopted i ini p) = p_chan p"
  "p_parent (adopted i ini p) = (if p_parent p = Some i then Some ini else p_parent p)"
  by (simp_all add: adopted_def sched_ok_def)

definition dead_child :: "nat \<Rightarrow> proc list \<Rightarrow> nat list \<Rightarrow> bool" where
  "dead_child i ps ks \<longleftrightarrow> (\<exists>k \<in> set ks. p_parent (ps ! k) = Some i \<and> p_state (ps ! k) = ZOMBIE)"

lemma dead_child_snoc: "dead_child i ps (ks @ [k]) \<longleftrightarrow> dead_child i ps ks \<or> p_parent (ps ! k) = Some i \<and> p_state (ps ! k) = ZOMBIE"
  by (auto simp: dead_child_def)

text \<open>The loop of \<open>exit\<close> over the table in one formula.\<close>

lemma nth_fold_adopt:
  assumes "i \<noteq> ini" and "set ks \<subseteq> {..<length ps}" and "distinct ks" and "j < length ps"
  shows "fold (adopt addr i ini) ks ps ! j =
    (if dead_child i ps ks then roused (addr ini) else id)
      (if j \<in> set ks then adopted i ini (ps ! j) else ps ! j)"
  using assms
proof (induction ks arbitrary: j rule: rev_induct)
  case (snoc k ks)
  let ?qs = "fold (adopt addr i ini) ks ps"
  have k: "k < length ps" "k \<notin> set ks" using snoc.prems by auto
  have IH: "?qs ! j = (if dead_child i ps ks then roused (addr ini) else id)
      (if j \<in> set ks then adopted i ini (ps ! j) else ps ! j)" if "j < length ps" for j
    using snoc.IH snoc.prems that by simp
  have "p_parent (?qs ! k) = p_parent (ps ! k)" "p_state (?qs ! k) = ZOMBIE \<longleftrightarrow> p_state (ps ! k) = ZOMBIE"
    using IH [OF k(1)] k(2) by (auto simp: roused_def)
  then have "adopt addr i ini k ?qs = (if p_parent (ps ! k) = Some i then
      (if p_state (ps ! k) = ZOMBIE then wakeup1 (addr ini) else id) (upd_nth k (p_parent_update (\<lambda>_. Some ini)) ?qs) else ?qs)"
    using k by (simp add: adopt_def Let_def nth_upd_nth)
  moreover have "adopted i ini (ps ! k) = (if p_parent (ps ! k) = Some i then p_parent_update (\<lambda>_. Some ini) (ps ! k) else ps ! k)"
    by (simp add: adopted_def)
  ultimately show ?case using IH [of j] snoc.prems(4) k
    by (cases "p_parent (ps ! k) = Some i"; cases "p_state (ps ! k) = ZOMBIE"; cases "j = k"; cases "dead_child i ps ks")
      (simp_all add: nth_wakeup1_roused nth_upd_nth dead_child_snoc)
qed (simp add: dead_child_def)

lemma exit_table_nth:
  assumes "i \<noteq> ini" and "i < length ps" and "j < length ps"
  shows "exit_table addr i ini ps ! j =
    (let w = (case p_parent (ps ! i) of None \<Rightarrow> 0 | Some q \<Rightarrow> addr q);
         p = adopted i ini (roused w (ps ! j));
         p = (if dead_child i ps [0..<length ps] then roused (addr ini) p else p)
     in if j = i then p\<lparr>p_state := ZOMBIE\<rparr> else p)"
proof -
  let ?w = "case p_parent (ps ! i) of None \<Rightarrow> 0 | Some q \<Rightarrow> addr q"
  let ?ps = "wakeup1 ?w ps"
  have r: "k < length ps \<Longrightarrow> ?ps ! k = roused ?w (ps ! k)" for k by (simp add: nth_wakeup1 roused_def)
  have z: "dead_child i ?ps [0..<length ps] \<longleftrightarrow> dead_child i ps [0..<length ps]"
    unfolding dead_child_def by (simp add: r Bex_def)
  have "fold (adopt addr i ini) [0..<length ?ps] ?ps ! j =
     (if dead_child i ps [0..<length ps] then roused (addr ini) else id)
       (adopted i ini (roused ?w (ps ! j)))"
    using nth_fold_adopt [OF assms(1), of "[0..<length ps]" ?ps j addr] assms(3) unfolding length_wakeup1 z
    by (simp add: r atLeast0LessThan)
  then show ?thesis using assms by (cases "j = i") (simp_all add: exit_table_def Let_def nth_upd_nth)
qed

lemma length_exit_table [simp]: "length (exit_table addr i ini ps) = length ps"
  by (simp add: exit_table_def Let_def)

lemma exit_table_inv:
  assumes inv: "table_inv addr ini ps" and i: "i \<noteq> ini" "i < length ps"
  shows "table_inv addr ini (exit_table addr i ini ps)"
proof -
  let ?qs = "exit_table addr i ini ps"
  let ?dead = "dead_child i ps [0..<length ps]"
  let ?w = "case p_parent (ps ! i) of None \<Rightarrow> 0 | Some q \<Rightarrow> addr q"
  have nth: "j < length ps \<Longrightarrow> ?qs ! j = (let p = adopted i ini (roused ?w (ps ! j));
      p = (if ?dead then roused (addr ini) p else p) in if j = i then p\<lparr>p_state := ZOMBIE\<rparr> else p)" for j
    using exit_table_nth [OF i, of j addr] by (simp add: Let_def)
  have par: "j < length ps \<Longrightarrow> p_parent (?qs ! j) = (if p_parent (ps ! j) = Some i then Some ini else p_parent (ps ! j))" for j
    by (simp add: nth Let_def)
  have old: "p_parent (ps ! ini) = None" "\<And>k. k < length ps \<Longrightarrow> p_parent (ps ! k) \<noteq> Some k" "ini < length ps"
    "no_lost_child addr ps" using inv by (auto simp: table_inv_def)
  have "no_lost_child addr ?qs" unfolding no_lost_child_def
  proof (intro allI impI notI)
    fix j k
    assume b: "j < length ?qs" "k < length ?qs" "p_state (?qs ! k) = ZOMBIE"
      "p_state (?qs ! j) = SLEEPING \<and> p_chan (?qs ! j) = addr j \<and> p_parent (?qs ! k) = Some j"
    then have j: "p_state (ps ! j) = SLEEPING" "p_chan (ps ! j) = addr j" "?w \<noteq> addr j" "?dead \<longrightarrow> j \<noteq> ini"
      by (auto simp: nth Let_def roused_def split: if_splits)
    show False
    proof (cases "k = i")
      case True
      then have "p_parent (ps ! i) = Some j" using b par [of i] old(2) [of i] i by auto
      then show False using j by simp
    next
      case False
      then have z: "p_state (ps ! k) = ZOMBIE" using b by (simp add: nth Let_def split: if_splits)
      then have "p_parent (ps ! k) \<noteq> Some i" using b j par [of k] by (auto simp: dead_child_def)
      then have "p_parent (ps ! k) = Some j" using b par [of k] by simp
      then show False using old(4) z j b unfolding no_lost_child_def by auto
    qed
  qed
  moreover have "p_state (?qs ! ini) \<notin> {UNUSED, EMBRYO, ZOMBIE}" "p_parent (?qs ! ini) = None"
    using inv i by (auto simp: table_inv_def nth Let_def roused_def)
  moreover have "sched_ok (?qs ! k) \<and> p_parent (?qs ! k) \<noteq> Some k" if "k < length ps" for k
  proof
    show "sched_ok (?qs ! k)" using inv that by (simp add: table_inv_def nth Let_def)
    show "p_parent (?qs ! k) \<noteq> Some k" using old that by (auto simp: par)
  qed
  ultimately show ?thesis using old(3) by (simp add: table_inv_def)
qed

lemma wait_sleep_inv:
  assumes inv: "table_inv addr ini ps" and i: "i < length ps"
    and z: "scan (\<lambda>p. p_parent p = Some i \<and> p_state p = ZOMBIE) ps = None"
  shows "table_inv addr ini (upd_nth i (\<lambda>p. p\<lparr>p_chan := addr i, p_state := SLEEPING\<rparr>) ps)" (is "table_inv addr ini ?qs")
proof -
  have "no_lost_child addr ?qs"
    using inv i z by (auto simp: table_inv_def no_lost_child_def nth_upd_nth scan_None_nth split: if_splits)
  then show ?thesis using inv i by (auto simp: table_inv_def nth_upd_nth sched_ok_def)
qed

lemma link_inv:
  assumes "table_inv addr ini ps" and "k < length ps" and "p_state (ps ! k) = EMBRYO" and "p_state (ps ! i) = RUNNING"
  shows "table_inv addr ini (upd_nth k (fork_link i cur) ps)"
  using assms by (auto simp: table_inv_def no_lost_child_def nth_upd_nth fork_link_def sched_ok_def split: if_splits)

lemma gives_up_inv:
  assumes "gives_up addr ini i ps qs" and "table_inv addr ini ps" and "i < length ps"
  shows "table_inv addr ini qs"
  using assms
proof (induction rule: gives_up.induct)
  case (by_yield ps qs)
  then show ?case by (auto simp: yield_eq intro!: table_inv_quiet [OF _ quiet_table_upd] simp: quiet_def sched_ok_def)
next
  case (by_timer ps qs)
  have "table_inv addr ini (upd_nth i charge_tick ps)"
    by (rule table_inv_quiet [OF by_timer.prems(1) quiet_table_upd]) (auto simp: quiet_def charge_tick_ok)
  then show ?case using by_timer
    by (auto simp: timer_yield_def yield_eq intro!: table_inv_quiet [OF _ quiet_table_upd] simp: quiet_def sched_ok_def)
next
  case (by_sleep chan ps qs)
  then show ?case by (auto simp: sleep_eq intro!: table_inv_quiet [OF _ quiet_table_upd] simp: quiet_def sched_ok_def)
next
  case (by_wait ps qs)
  then show ?case by (auto simp: sleep_eq intro!: wait_sleep_inv)
next
  case (by_exit ps)
  then show ?case by (auto intro: exit_table_inv)
qed

section \<open>Running processes and processors\<close>

lemma running_upd:
  "running (upd_nth i f ps) =
    (if i < length ps then (if p_state (f (ps ! i)) = RUNNING then insert i (running ps) else running ps - {i}) else running ps)"
proof (cases "i < length ps")
  case True
  then show ?thesis by (auto simp: running_def nth_upd_nth split: if_splits)
next
  case False
  then show ?thesis by (simp add: upd_nth_def list_update_beyond)
qed

lemma running_cong:
  "length qs = length ps \<Longrightarrow> (\<And>i. i < length ps \<Longrightarrow> p_state (qs ! i) = RUNNING \<longleftrightarrow> p_state (ps ! i) = RUNNING) \<Longrightarrow> running qs = running ps"
  by (auto simp: running_def)

lemma running_wakeup1 [simp]: "running (wakeup1 chan ps) = running ps"
  by (rule running_cong) (simp_all add: nth_wakeup1_roused)

lemma running_kill [simp]: "running (snd (kill pid ps)) = running ps"
  by (rule running_cong) (auto simp: kill_def nth_upd_nth split: option.splits)

lemma running_mlfq_return [simp]: "running (mlfq_return i ps) = running ps"
  by (rule running_cong) (simp_all add: nth_mlfq_return)

lemma running_gives_up:
  assumes "gives_up addr ini i ps qs" and "i < length ps"
  shows "running qs = running ps - {i} \<and> length qs = length ps"
  using assms
proof (induction rule: gives_up.induct)
  case (by_timer ps qs)
  then show ?case by (auto simp: timer_yield_def yield_eq running_upd split: if_splits)
next
  case (by_exit ps)
  then show ?case by (auto simp: running_def exit_table_nth Let_def split: if_splits)
qed (auto simp: yield_eq sleep_eq running_upd)

lemma core_proc_on_core:
  "c < length (cores s) \<Longrightarrow> core_proc (on_core c p pl s) d = (if d = c then p else core_proc s d)"
  by (simp add: core_proc_def on_core_def nth_upd_nth)

lemma core_proc_tbl [simp]: "core_proc (tbl_update f s) c = core_proc s c" "core_proc (spid_update g s) c = core_proc s c"
  by (simp_all add: core_proc_def)

lemma tbl_on_core [simp]: "tbl (on_core c p pl s) = tbl s"
  by (simp add: on_core_def)

lemma core_proc_length: "core_proc s c = Some i \<Longrightarrow> c < length (cores s)"
  by (simp add: core_proc_def split: if_splits)

lemma cores_inv_tbl: "cores_inv s \<Longrightarrow> running qs = running (tbl s) \<Longrightarrow> cores_inv (s\<lparr>tbl := qs\<rparr>)"
  by (simp add: cores_inv_def)

text \<open>An injective assignment of processes to processors that covers exactly the processes in a set.\<close>

definition assigns :: "(nat \<rightharpoonup> nat) \<Rightarrow> nat set \<Rightarrow> bool" where
  "assigns f R \<longleftrightarrow> ran f = R \<and> inj_on f (dom f)"

lemma cores_inv_assigns: "cores_inv s \<longleftrightarrow> assigns (core_proc s) (running (tbl s))"
  unfolding cores_inv_def assigns_def inj_on_def ran_def dom_def by (simp add: set_eq_iff) metis

lemma assigns_put: "assigns f R \<Longrightarrow> i \<notin> R \<Longrightarrow> f c = None \<Longrightarrow> assigns (f(c \<mapsto> i)) (insert i R)"
  unfolding assigns_def by (auto simp: inj_on_def ran_map_upd) (auto simp: ran_def)

lemma assigns_clear: "assigns f R \<Longrightarrow> f c = Some i \<Longrightarrow> assigns (f(c := None)) (R - {i})"
  unfolding assigns_def by (auto simp: inj_on_def ran_def dom_def) (metis option.inject)+

lemma core_proc_on_core_fun: "c < length (cores s) \<Longrightarrow> core_proc (on_core c p pl s) = (core_proc s)(c := p)"
  by (simp add: fun_eq_iff core_proc_on_core)

lemma core_proc_tbl_fun [simp]: "core_proc (s\<lparr>tbl := qs\<rparr>) = core_proc s"
  by (simp add: fun_eq_iff)

lemma cores_inv_idle:
  assumes "cores_inv s" and "c < length (cores s)" and "core_proc s c = None"
  shows "cores_inv (on_core c None pl s)"
proof -
  have "core_proc (on_core c None pl s) = core_proc s" using assms by (simp add: fun_eq_iff core_proc_on_core)
  then show ?thesis using assms by (simp add: cores_inv_def)
qed

lemma cores_inv_run:
  assumes inv: "cores_inv s" and c: "c < length (cores s)" "core_proc s c = None"
    and i: "i < length (tbl s)" "p_state (tbl s ! i) = RUNNABLE"
  shows "cores_inv (on_core c (Some i) pl (s\<lparr>tbl := set_running i (tbl s)\<rparr>))"
proof -
  have "i \<notin> running (tbl s)" using i by (simp add: running_def)
  moreover have "running (set_running i (tbl s)) = insert i (running (tbl s))" using i by (simp add: set_running_def running_upd)
  ultimately show ?thesis using inv c unfolding cores_inv_assigns by (simp add: core_proc_on_core_fun assigns_put)
qed

lemma tbl_switch_back: "tbl (switch_back c i s) = (case k_place (cores s ! c) of In_rr k \<Rightarrow> tbl s | _ \<Rightarrow> mlfq_return i (tbl s))"
  by (simp add: switch_back_def split: place.splits)

lemma cores_inv_back:
  assumes inv: "cores_inv s" and c: "core_proc s c = Some i" and q: "running qs = running (tbl s) - {i}"
  shows "cores_inv (switch_back c i (s\<lparr>tbl := qs\<rparr>))"
proof -
  have "c < length (cores s)" using c by (rule core_proc_length)
  then have "core_proc (switch_back c i (s\<lparr>tbl := qs\<rparr>)) = (core_proc s)(c := None)"
    by (simp add: switch_back_def core_proc_on_core_fun split: place.splits)
  moreover have "running (tbl (switch_back c i (s\<lparr>tbl := qs\<rparr>))) = running (tbl s) - {i}"
    by (simp add: tbl_switch_back q split: place.splits)
  ultimately show ?thesis using inv c unfolding cores_inv_assigns by (simp add: assigns_clear)
qed

lemma rr_pick_SomeD: "rr_pick k ps = Some i \<Longrightarrow> i < length ps \<and> p_state (ps ! i) = RUNNABLE \<and> k \<le> i"
  by (auto simp: rr_pick_def scan_Some)

lemma mlfq_loop_SomeD:
  "mlfq_loop prios ps = Some i \<Longrightarrow> i < length ps \<and> p_state (ps ! i) = RUNNABLE \<and> p_priority (ps ! i) \<in> set prios"
  by (induction prios) (auto split: option.splits dest: scan_SomeD(1,2))

lemma mlfq_pick_SomeD: "mlfq_pick ps = Some i \<Longrightarrow> i < length ps \<and> p_state (ps ! i) = RUNNABLE"
  unfolding mlfq_pick_def using mlfq_loop_SomeD by blast

section \<open>Reachable states\<close>

lemma table_inv_step:
  assumes step: "smp_step addr ini s t" and inv: "table_inv addr ini (tbl s)" and cs: "cores_inv s"
  shows "table_inv addr ini (tbl t)"
proof -
  have run: "i < length (tbl s) \<and> p_state (tbl s ! i) = RUNNING" if "core_proc s c = Some i" for c i
    using cs that by (auto simp: cores_inv_def running_def)
  show ?thesis using step
  proof cases
    case (st_switch c i qs)
    have "table_inv addr ini qs" using gives_up_inv [OF st_switch(3) inv] run st_switch(2) by blast
    then show ?thesis using table_inv_quiet [OF _ mlfq_return_quiet] by (auto simp: st_switch(1) tbl_switch_back split: place.splits)
  next
    case (st_awake c i)
    have "quiet_table addr (tbl s) (sleep_return i (tbl s))"
      unfolding sleep_return_def by (rule quiet_table_upd) (simp add: quiet_def run [OF st_awake(2)])
    then show ?thesis using table_inv_quiet inv by (simp add: st_awake(1))
  next
    case (st_alloc c i k qs)
    then have "quiet_table addr (tbl s) qs"
      by (auto simp: alloc_slot_def quiet_def sched_ok_def split: option.splits dest: scan_SomeD(2) intro!: quiet_table_upd)
    then show ?thesis using table_inv_quiet inv by (simp add: st_alloc(1))
  next
    case (st_link c i k)
    then show ?thesis using link_inv inv run by auto
  next
    case (st_reap c i k)
    then have "quiet_table addr (tbl s) (upd_nth k reap_entry (tbl s))"
      by (auto simp: reap_entry_def quiet_def sched_ok_def dest: scan_SomeD(2) intro!: quiet_table_upd)
    then show ?thesis using table_inv_quiet inv by (simp add: st_reap(1))
  qed (auto intro!: table_inv_quiet [OF inv] set_running_quiet wakeup1_quiet kill_quiet quiet_table_upd simp: inv quiet_def)
qed

lemma cores_inv_step:
  assumes step: "smp_step addr ini s t" and cs: "cores_inv s"
  shows "cores_inv t"
proof -
  have run: "i < length (tbl s) \<and> p_state (tbl s ! i) = RUNNING" if "core_proc s c = Some i" for c i
    using cs that by (auto simp: cores_inv_def running_def)
  have other: "cores_inv (s\<lparr>tbl := upd_nth k f (tbl s)\<rparr>)"
    if "k < length (tbl s)" "p_state (tbl s ! k) \<noteq> RUNNING" "p_state (f (tbl s ! k)) \<noteq> RUNNING" for k f
    by (rule cores_inv_tbl [OF cs]) (use that in \<open>auto simp: running_def nth_upd_nth split: if_splits\<close>)
  show ?thesis using step
  proof cases
    case (st_switch c i qs)
    then show ?thesis using cores_inv_back [OF cs st_switch(2)] running_gives_up run by auto
  next
    case (st_awake c i)
    then show ?thesis using run [OF st_awake(2)]
      by (auto simp: sleep_return_def running_def nth_upd_nth split: if_splits intro!: cores_inv_tbl [OF cs])
  next
    case (st_alloc c i k qs)
    then have "running qs = running (tbl s)"
      by (auto simp: alloc_slot_def running_def nth_upd_nth scan_Some split: option.splits if_splits)
    then show ?thesis using cs by (simp add: st_alloc(1) cores_inv_def)
  next
    case (st_link c i k)
    then show ?thesis using other [of k] by (simp add: fork_link_def)
  next
    case (st_reap c i k)
    then show ?thesis using other [of k reap_entry] scan_SomeD(1,2) [OF st_reap(3)] by (simp add: reap_entry_def)
  next
    case (st_policy c i n)
    have "core_proc t d = core_proc s d" for d
      by (auto simp: st_policy(1) core_proc_def nth_upd_nth setSchedPolicy_def)
    then show ?thesis using cs by (simp add: cores_inv_def st_policy(1))
  next
    case (st_publish c i k)
    then show ?thesis by (simp add: other)
  next
    case (st_abort c i k)
    then show ?thesis by (simp add: other)
  qed (auto intro!: cores_inv_run cores_inv_idle cores_inv_tbl simp: cs dest: mlfq_pick_SomeD rr_pick_SomeD)
qed

lemma smp_run_inv:
  assumes "smp_run addr ini s t" and "table_inv addr ini (tbl s)" and "cores_inv s"
  shows "table_inv addr ini (tbl t) \<and> cores_inv t"
  using assms by (induction rule: smp_run.induct) (auto dest: table_inv_step cores_inv_step)

text \<open>The machine when \<open>main\<close> has run \<open>userinit\<close> and the processors enter \<open>scheduler\<close>.\<close>

definition booted :: "nat \<Rightarrow> smp \<Rightarrow> bool" where
  "booted ini s \<longleftrightarrow>
    ini < length (tbl s) \<and> p_state (tbl s ! ini) = RUNNABLE \<and>
    list_all (\<lambda>p. sched_ok p \<and> p_parent p = None) (tbl s) \<and>
    (\<forall>k < length (tbl s). k \<noteq> ini \<longrightarrow> p_state (tbl s ! k) = UNUSED) \<and>
    list_all (\<lambda>k. c_proc (k_cpu k) = None \<and> k_place k = Top) (cores s)"

lemma booted_inv: "booted ini s \<Longrightarrow> table_inv addr ini (tbl s) \<and> cores_inv s"
  by (auto simp: booted_def table_inv_def no_lost_child_def cores_inv_def core_proc_def running_def list_all_length)

lemmas reachable_inv = smp_run_inv [OF _ conjunct1 [OF booted_inv] conjunct2 [OF booted_inv]]

definition demo_proc :: "procstate \<Rightarrow> int \<Rightarrow> nat option \<Rightarrow> proc" where
  "demo_proc st pid par = \<lparr>p_sz = 4096, p_pgdir = 0, p_kstack = 0, p_state = st, p_pid = pid, p_parent = par, p_tf = 0,
     p_frame = zero_frame, p_context = 0, p_chan = 0, p_killed = False, p_ofile = [], p_cwd = None, p_name = [],
     p_scheduler = 0, p_is_threaded = False, p_priority = 3, p_ticks = [0, 0, 0, 0], p_wait_ticks = [0, 0, 0, 0]\<rparr>"

definition demo_core :: core where
  "demo_core = \<lparr>k_cpu = \<lparr>c_apicid = 0, c_proc = None, c_policy = 1\<rparr>, k_place = Top\<rparr>"

definition demo_smp :: smp where
  "demo_smp = \<lparr>tbl = [demo_proc RUNNABLE 1 None, demo_proc UNUSED 0 None], cores = [demo_core, demo_core], spid = 2\<rparr>"

text \<open>The first processor runs \<open>init\<close>, which claims a second entry, and the second one finds nothing to run.\<close>

definition demo_busy :: smp where
  "demo_busy = \<lparr>tbl = [demo_proc RUNNING 1 None, demo_proc EMBRYO 2 None],
     cores = [demo_core\<lparr>k_cpu := (k_cpu demo_core)\<lparr>c_proc := Some 0\<rparr>, k_place := In_mlfq\<rparr>, demo_core], spid = 3\<rparr>"

lemma demo_booted: "booted 0 demo_smp"
  by (auto simp: booted_def demo_smp_def demo_proc_def demo_core_def sched_ok_def less_Suc_eq nth_Cons')

lemma demo_reach: "smp_run addr 0 demo_smp demo_busy"
proof -
  let ?t = "on_core 0 (Some 0) In_mlfq (demo_smp\<lparr>tbl := set_running 0 (tbl demo_smp)\<rparr>)"
  have "smp_step addr 0 demo_smp ?t"
    by (rule st_mlfq) (simp_all add: demo_smp_def demo_core_def demo_proc_def core_proc_def mlfq_pick_def)
  moreover have "smp_step addr 0 ?t (?t\<lparr>tbl := tbl demo_busy, spid := spid ?t + 1\<rparr>)"
    by (rule st_alloc [of _ 0 0 1])
      (simp_all add: demo_smp_def demo_core_def demo_proc_def core_proc_def on_core_def upd_nth_def set_running_def alloc_slot_def demo_busy_def numeral_eq_Suc)
  moreover have "?t\<lparr>tbl := tbl demo_busy, spid := spid ?t + 1\<rparr> = demo_busy"
    by (simp add: demo_smp_def on_core_def upd_nth_def demo_busy_def)
  ultimately show ?thesis using run_step [OF run_step [OF run_refl]] by metis
qed

text \<open>Then \<open>init\<close> publishes the child and waits for it.\<close>

definition demo_forked :: smp where
  "demo_forked = demo_busy\<lparr>tbl := upd_nth 1 (p_state_update (\<lambda>_. RUNNABLE)) (upd_nth 1 (fork_link 0 (tbl demo_busy ! 0)) (tbl demo_busy))\<rparr>"

definition demo_waiting :: smp where
  "demo_waiting = switch_back 0 0 (demo_forked\<lparr>tbl := upd_nth 0 (\<lambda>p. p\<lparr>p_chan := 1, p_state := SLEEPING\<rparr>) (tbl demo_forked)\<rparr>)"

lemma demo_wait_reach: "smp_run (\<lambda>i. of_nat i + 1) 0 demo_smp demo_waiting"
proof -
  let ?a = "\<lambda>i. of_nat i + 1 :: u32"
  let ?l = "demo_busy\<lparr>tbl := upd_nth 1 (fork_link 0 (tbl demo_busy ! 0)) (tbl demo_busy)\<rparr>"
  have 1: "smp_step ?a 0 demo_busy ?l"
    by (rule st_link [of _ 0]) (simp_all add: demo_busy_def core_proc_def demo_proc_def)
  have "smp_step ?a 0 ?l (?l\<lparr>tbl := upd_nth 1 (p_state_update (\<lambda>_. RUNNABLE)) (tbl ?l)\<rparr>)"
    by (rule st_publish [of _ 0 0]) (simp_all add: demo_busy_def core_proc_def demo_proc_def upd_nth_def fork_link_def)
  moreover have "?l\<lparr>tbl := upd_nth 1 (p_state_update (\<lambda>_. RUNNABLE)) (tbl ?l)\<rparr> = demo_forked"
    by (simp add: demo_forked_def)
  ultimately have 2: "smp_step ?a 0 ?l demo_forked" by simp
  have 3: "smp_step ?a 0 demo_forked demo_waiting" unfolding demo_waiting_def
    by (rule st_switch [OF _ by_wait])
      (simp_all add: demo_forked_def demo_busy_def core_proc_def demo_proc_def upd_nth_def fork_link_def sleep_eq)
  show ?thesis using run_step [OF run_step [OF run_step [OF demo_reach 1] 2] 3] .
qed

section \<open>Properties\<close>



text \<open>
  C6. No wakeup is lost between \<open>exit\<close> and \<open>wait\<close>: in every reachable state, a process that sleeps in \<open>wait\<close>, that is on the
  channel of its own table entry, has no zombie child. This includes the children that \<open>exit\<close> hands to \<open>init\<close>.
\<close>

theorem wait_wakeup_not_lost:
  assumes "booted ini s" and "smp_run addr ini s t" and "i < length (tbl t)" and "k < length (tbl t)"
    and "p_state (tbl t ! i) = SLEEPING" and "p_chan (tbl t ! i) = addr i" and "p_parent (tbl t ! k) = Some i"
  shows "p_state (tbl t ! k) \<noteq> ZOMBIE"
  using reachable_inv [OF assms(2,1,1)] assms(3-) unfolding table_inv_def no_lost_child_def by blast

theorem wait_wakeup_not_lost_witness:
  "p_state (tbl demo_waiting ! 0) = SLEEPING \<and> p_parent (tbl demo_waiting ! 1) = Some 0 \<and> p_state (tbl demo_waiting ! 1) \<noteq> ZOMBIE"
proof -
  have "p_state (tbl demo_waiting ! 0) = SLEEPING" "p_chan (tbl demo_waiting ! 0) = 1" "p_parent (tbl demo_waiting ! 1) = Some 0"
    "length (tbl demo_waiting) = 2"
    by (simp_all add: demo_waiting_def switch_back_def demo_forked_def demo_busy_def demo_proc_def upd_nth_def fork_link_def nth_mlfq_return)
  then show ?thesis using wait_wakeup_not_lost [OF demo_booted demo_wait_reach, of 0 1] by simp
qed

text \<open>
  C27. The queue numbers and the tick counters are well typed in every reachable state: the priority of every entry is one of the
  four queues and the counters have one cell for each, so that \<open>trap\<close>, the scheduler, \<open>update_wait_ticks\<close> and
  \<open>priority_boost\<close> index \<open>ticks\<close>, \<open>wait_ticks\<close> and the table of slices within their bounds.
\<close>

theorem queues_well_typed:
  assumes "booted ini s" and "smp_run addr ini s t" and "i < length (tbl t)"
  shows "0 \<le> p_priority (tbl t ! i) \<and> nat (p_priority (tbl t ! i)) < length (p_ticks (tbl t ! i)) \<and>
    nat (p_priority (tbl t ! i)) < length (p_wait_ticks (tbl t ! i)) \<and> nat (p_priority (tbl t ! i)) < length slice"
  using reachable_inv [OF assms(2,1,1)] assms(3) unfolding table_inv_def sched_ok_def slice_def by fastforce

theorem queues_well_typed_witness:
  "0 \<le> p_priority (tbl demo_busy ! 1) \<and> nat (p_priority (tbl demo_busy ! 1)) < length slice"
  using queues_well_typed [OF demo_booted demo_reach, of 1] by (simp add: demo_busy_def)

section \<open>The choice of the scheduler\<close>

definition ready :: "int list \<Rightarrow> proc \<Rightarrow> bool" where
  "ready prios p \<longleftrightarrow> p_state p = RUNNABLE \<and> p_priority p \<in> set prios"

text \<open>The order in which the scheduler prefers entries: a higher queue first, then the smaller index.\<close>

definition before :: "proc list \<Rightarrow> nat \<Rightarrow> nat \<Rightarrow> bool" where
  "before ps i k \<longleftrightarrow> p_priority (ps ! k) < p_priority (ps ! i) \<or> p_priority (ps ! k) = p_priority (ps ! i) \<and> i \<le> k"

lemma before_antisym: "before ps i k \<Longrightarrow> before ps k i \<Longrightarrow> i = k"
  by (auto simp: before_def)

lemma mlfq_loop_spec:
  assumes "sorted_wrt (>) prios"
  shows "mlfq_loop prios ps = Some i \<longleftrightarrow>
    i < length ps \<and> ready prios (ps ! i) \<and> (\<forall>k < length ps. ready prios (ps ! k) \<longrightarrow> before ps i k)"
  using assms
proof (induction prios)
  case (Cons prio prios)
  let ?P = "\<lambda>p. p_state p = RUNNABLE \<and> p_priority p = prio"
  show ?case
  proof (cases "scan ?P ps")
    case None
    then have "ready (prio # prios) (ps ! k) = ready prios (ps ! k)" if "k < length ps" for k
      using that by (auto simp: scan_None_nth ready_def)
    then show ?thesis using None Cons by (simp cong: conj_cong)
  next
    case (Some j)
    then have j: "j < length ps" "?P (ps ! j)" "\<And>k. k < j \<Longrightarrow> \<not> ?P (ps ! k)" by (auto simp: scan_Some)
    have b: "before ps j k" if "ready (prio # prios) (ps ! k)" for k
    proof (cases "p_priority (ps ! k) = prio")
      case True
      then have "j \<le> k" using that j(3) [of k] by (auto simp: ready_def not_less [symmetric])
      then show ?thesis using True j(2) by (simp add: before_def)
    next
      case False
      then show ?thesis using that Cons.prems j(2) by (auto simp: ready_def before_def)
    qed
    moreover have "ready (prio # prios) (ps ! j)" using j(2) by (simp add: ready_def)
    ultimately show ?thesis using Some j(1) by (auto dest: before_antisym)
  qed
qed (simp add: ready_def)

text \<open>
  C28. The MLFQ scheduler takes a runnable process of the highest queue that has one, the first in the table among them, and
  it stays idle only when no process is runnable.
\<close>

theorem mlfq_pick_highest:
  assumes "\<forall>p \<in> set ps. sched_ok p"
  shows "(mlfq_pick ps = Some i \<longleftrightarrow>
    i < length ps \<and> p_state (ps ! i) = RUNNABLE \<and>
    (\<forall>k < length ps. p_state (ps ! k) = RUNNABLE \<longrightarrow> before ps i k)) \<and>
    (mlfq_pick ps = None \<longleftrightarrow> (\<forall>k < length ps. p_state (ps ! k) \<noteq> RUNNABLE))"
proof -
  have r: "ready [3, 2, 1, 0] (ps ! k) \<longleftrightarrow> p_state (ps ! k) = RUNNABLE" if "k < length ps" for k
  proof -
    have "0 \<le> p_priority (ps ! k)" "p_priority (ps ! k) \<le> 3" using assms that by (auto simp: sched_ok_def)
    then show ?thesis by (auto simp: ready_def)
  qed
  have "mlfq_loop prios ps = None \<longleftrightarrow> (\<forall>k < length ps. \<not> ready prios (ps ! k))" for prios
    by (induction prios) (auto simp: ready_def scan_None_nth split: option.splits dest: scan_SomeD)
  then show ?thesis unfolding mlfq_pick_def using mlfq_loop_spec [of "[3, 2, 1, 0]" ps i] r by (simp del: mlfq_loop.simps cong: conj_cong)
qed

theorem mlfq_pick_highest_witness: "mlfq_pick (tbl demo_forked) = Some 1"
  using mlfq_pick_highest [of "tbl demo_forked" 1]
  by (auto simp: demo_forked_def demo_busy_def demo_proc_def upd_nth_def fork_link_def sched_ok_def before_def less_Suc_eq nth_Cons')

section \<open>Waiting and boosting\<close>

text \<open>How many more rounds a waiting entry may have to wait for the top queue.\<close>

definition rounds_left :: "proc \<Rightarrow> int" where
  "rounds_left p =
    (let w = p_wait_ticks p; a = max 1 (500 - w ! 0); b = max 1 (320 - w ! 1); c = max 1 (160 - w ! 2) in
     if p_priority p = 0 then a + b + c else if p_priority p = 1 then b + c else if p_priority p = 2 then c else 0)"

lemma priority_cases: "sched_ok p \<Longrightarrow> p_priority p = 0 \<or> p_priority p = 1 \<or> p_priority p = 2 \<or> p_priority p = 3"
  by (auto simp: sched_ok_def)

lemma wait_round:
  assumes ok: "sched_ok p" and r: "p_state p = RUNNABLE"
  shows "p_state (boost (wait_tick p)) = RUNNABLE \<and> sched_ok (boost (wait_tick p)) \<and>
    rounds_left (boost (wait_tick p)) \<le> max 0 (rounds_left p - 1)"
proof -
  have "length (p_wait_ticks p) = 4" using ok by (simp add: sched_ok_def)
  then obtain a b c d where w: "p_wait_ticks p = [a, b, c, d]"
    by (auto simp: length_Suc_conv numeral_eq_Suc)
  have "rounds_left (boost (wait_tick p)) \<le> max 0 (rounds_left p - 1)"
    using priority_cases [OF ok] r w
    by (elim disjE) (auto simp: rounds_left_def boost_def wait_tick_def slice_def upd_nth_def Let_def)
  then show ?thesis using ok r by (simp add: boost_ok wait_tick_ok)
qed

lemma rounds_left_zero: "sched_ok p \<Longrightarrow> rounds_left p \<le> 0 \<Longrightarrow> p_priority p = 3"
  using priority_cases [of p] by (auto simp: rounds_left_def Let_def)

text \<open>
  C29. No starvation below the top queue: \<open>T n\<close> is the table at the n-th return to the MLFQ scheduler, where the other entries
  may change in any way between the rounds. A process that stays runnable and is never chosen is in the top queue after
  at most 980 rounds (500 in the lowest queue, 320 and 160 in the next two), whatever it has waited before.
\<close>

theorem boost_reaches_top:
  assumes "i < length (T 0)" and "sched_ok (T 0 ! i)" and "p_state (T 0 ! i) = RUNNABLE"
    and "\<forall>w \<in> set (p_wait_ticks (T 0 ! i)). 0 \<le> w"
    and "\<forall>n. chosen n \<noteq> i \<and> i < length (T n) \<and> T (Suc n) ! i = mlfq_return (chosen n) (T n) ! i"
    and "980 \<le> n"
  shows "p_priority (T n ! i) = 3"
proof -
  have step: "T (Suc n) ! i = boost (wait_tick (T n ! i))" for n
  proof -
    have "T (Suc n) ! i = mlfq_return (chosen n) (T n) ! i" "i < length (T n)" "i \<noteq> chosen n" using assms(5) by blast+
    then show ?thesis by (simp add: nth_mlfq_return)
  qed
  have inv: "p_state (T n ! i) = RUNNABLE \<and> sched_ok (T n ! i) \<and> rounds_left (T n ! i) \<le> max 0 (rounds_left (T 0 ! i) - int n)" for n
  proof (induction n)
    case (Suc n)
    then show ?case unfolding step using wait_round [of "T n ! i"] by (auto simp: max_def split: if_splits)
  qed (use assms(2,3) in simp)
  have "rounds_left (T 0 ! i) \<le> 980"
  proof -
    have "length (p_wait_ticks (T 0 ! i)) = 4" using assms(2) by (simp add: sched_ok_def)
    then have "0 \<le> p_wait_ticks (T 0 ! i) ! k" if "k < 4" for k using assms(4) that by simp
    from this [of 0] this [of 1] this [of 2] show ?thesis by (simp add: rounds_left_def Let_def max_def)
  qed
  then have "max 0 (rounds_left (T 0 ! i) - int n) = 0" using assms(6) by simp
  then show ?thesis using rounds_left_zero [of "T n ! i"] inv [of n] by simp
qed

definition demo_low :: "proc list" where
  "demo_low = [demo_proc RUNNABLE 1 None, (demo_proc RUNNABLE 2 None)\<lparr>p_priority := 0\<rparr>]"

theorem boost_reaches_top_witness: "p_priority ((mlfq_return 0 ^^ 980) demo_low ! 1) = 3"
proof -
  have "length ((mlfq_return 0 ^^ n) demo_low) = 2" for n by (induction n) (simp_all add: demo_low_def)
  then show ?thesis using boost_reaches_top [of 1 "\<lambda>n. (mlfq_return 0 ^^ n) demo_low" "\<lambda>_. 0" 980]
    by (simp add: demo_low_def demo_proc_def sched_ok_def)
qed







section \<open>Ends of processes\<close>

text \<open>
  C31. \<open>exit\<close> leaves the exiting process a zombie and no child of its own behind: every child belongs to \<open>init\<close> afterwards, every
  other entry keeps its parent. Its parent, if it waits, is made runnable, and so is \<open>init\<close>, if it waits and one of the children was
  already a zombie.
\<close>

theorem exit_table_effect:
  assumes "i \<noteq> ini" and "i < length ps" and "p_parent (ps ! i) \<noteq> Some i" and "k < length ps"
  shows "p_state (exit_table addr i ini ps ! i) = ZOMBIE \<and>
    p_parent (exit_table addr i ini ps ! k) = (if p_parent (ps ! k) = Some i then Some ini else p_parent (ps ! k)) \<and>
    (k \<noteq> i \<longrightarrow> p_state (exit_table addr i ini ps ! k) =
      (if p_state (ps ! k) = SLEEPING \<and>
         (p_chan (ps ! k) = (case p_parent (ps ! i) of None \<Rightarrow> 0 | Some q \<Rightarrow> addr q) \<or>
          p_chan (ps ! k) = addr ini \<and> (\<exists>c < length ps. p_parent (ps ! c) = Some i \<and> p_state (ps ! c) = ZOMBIE))
       then RUNNABLE else p_state (ps ! k)))"
proof -
  have d: "dead_child i ps [0..<length ps] \<longleftrightarrow> (\<exists>c < length ps. p_parent (ps ! c) = Some i \<and> p_state (ps ! c) = ZOMBIE)"
    by (auto simp: dead_child_def)
  show ?thesis unfolding d [symmetric]
    using exit_table_nth [OF assms(1,2,2), of addr] exit_table_nth [OF assms(1,2,4), of addr]
    by (simp add: Let_def) (simp add: roused_def)
qed

definition demo_family :: "proc list" where
  "demo_family = [(demo_proc SLEEPING 1 None)\<lparr>p_chan := 1\<rparr>, demo_proc RUNNING 2 (Some 0), demo_proc ZOMBIE 3 (Some 1)]"

theorem exit_table_effect_witness:
  "p_parent (exit_table (\<lambda>i. of_nat i + 1) 1 0 demo_family ! 2) = Some 0 \<and>
    p_state (exit_table (\<lambda>i. of_nat i + 1) 1 0 demo_family ! 0) = RUNNABLE"
  using exit_table_effect [of 1 0 demo_family 2 "\<lambda>i. of_nat i + 1"] exit_table_effect [of 1 0 demo_family 0 "\<lambda>i. of_nat i + 1"]
  by (simp add: demo_family_def demo_proc_def)

text \<open>
  C32. \<open>kill(0)\<close> reports success although no process has the number 0: it matches an unused entry, whose \<open>pid\<close> is 0, and sets its
  \<open>killed\<close> flag. Neither \<open>allocproc\<close> nor \<open>fork\<close> clears the flag, so the next process created in that entry is born killed.
\<close>

theorem kill_zero_marks_unused:
  assumes "scan (\<lambda>p. p_state p = UNUSED) ps = Some i" and "scan (\<lambda>p. p_pid p = 0) ps = Some i"
  shows "fst (kill 0 ps) = 0 \<and> (\<exists>qs. alloc_slot n (snd (kill 0 ps)) = Some (i, qs) \<and> p_killed (fork_link j cur (qs ! i)))"
proof -
  have i: "i < length ps" "p_state (ps ! i) = UNUSED" using scan_SomeD [OF assms(1)] by auto
  have k: "kill 0 ps = (0, upd_nth i (\<lambda>p. p\<lparr>p_killed := True, p_state := (if p_state p = SLEEPING then RUNNABLE else p_state p)\<rparr>) ps)"
    using assms(2) by (simp add: kill_def)
  have "scan (\<lambda>p. p_state p = UNUSED) (snd (kill 0 ps)) = Some i"
    unfolding k using assms(1) i by (simp add: scan_upd_nth)
  then show ?thesis using i by (simp add: k alloc_slot_def nth_upd_nth fork_link_def)
qed

theorem kill_zero_marks_unused_witness: "fst (kill 0 (tbl demo_smp)) = 0"
  using kill_zero_marks_unused [of "tbl demo_smp" 1 0 0 "demo_proc RUNNING 1 None"] by (simp add: demo_smp_def demo_proc_def)

end
