(* ===== verification/Grep.thy ===== *)
theory Grep
  imports Prelude
begin

text \<open>
  The program grep, \<open>src/xv6/grep.c\<close>: the regular-expression matcher and the loop that cuts the input into lines. A C string
  is the list of its bytes before the terminating zero, and a pointer into it the list from there on.
\<close>

section \<open>The matcher\<close>

text \<open>\<open>at s n\<close> is \<open>s[n]\<close>.\<close>

definition at :: "u8 list \<Rightarrow> nat \<Rightarrow> u8" where
  "at s n = (if n < length s then s ! n else 0)"

abbreviation star :: u8 where "star \<equiv> 42"
abbreviation dot :: u8 where "dot \<equiv> 46"
abbreviation dollar :: u8 where "dollar \<equiv> 36"
abbreviation caret :: u8 where "caret \<equiv> 94"
abbreviation newline :: u8 where "newline \<equiv> 10"

lemma at_nonzero: "at s n \<noteq> 0 \<Longrightarrow> n < length s"
  by (auto simp: at_def split: if_splits)

function (sequential) matchhere :: "u8 list \<Rightarrow> u8 list \<Rightarrow> bool"
  and matchstar :: "u8 \<Rightarrow> u8 list \<Rightarrow> u8 list \<Rightarrow> bool" where
  "matchhere re text =
    (if at re 0 = 0 then True
     else if at re 1 = star then matchstar (at re 0) (drop 2 re) text
     else if at re 0 = dollar \<and> at re 1 = 0 then at text 0 = 0
     else if at text 0 \<noteq> 0 \<and> (at re 0 = dot \<or> at re 0 = at text 0) then matchhere (drop 1 re) (drop 1 text)
     else False)"
| "matchstar c re text =
    (if matchhere re text then True
     else if at text 0 \<noteq> 0 \<and> (at text 0 = c \<or> c = dot) then matchstar c re (drop 1 text)
     else False)"
  by pat_completeness auto
termination
  by (relation "measures [\<lambda>x. case x of Inl (re, text) \<Rightarrow> length re | Inr (c, re, text) \<Rightarrow> length re,
      \<lambda>x. case x of Inl (re, text) \<Rightarrow> length text | Inr (c, re, text) \<Rightarrow> length text,
      \<lambda>x. case x of Inl _ \<Rightarrow> 0 | Inr _ \<Rightarrow> 1]")
    (auto dest!: at_nonzero)

declare matchhere.simps [simp del] matchstar.simps [simp del]

fun match_any :: "u8 list \<Rightarrow> u8 list \<Rightarrow> bool" where
  "match_any re [] = matchhere re []"
| "match_any re (c # text) = (if matchhere re (c # text) then True else if c \<noteq> 0 then match_any re text else False)"

definition match :: "u8 list \<Rightarrow> u8 list \<Rightarrow> bool" where
  "match re text = (if at re 0 = caret then matchhere (drop 1 re) text else match_any re text)"

section \<open>The input loop\<close>

text \<open>\<open>strchr(p, '\n')\<close>: the line before the newline and what follows it.\<close>

fun next_line :: "u8 list \<Rightarrow> (u8 list \<times> u8 list) option" where
  "next_line [] = None"
| "next_line (c # cs) =
    (if c = newline then Some ([], cs) else if c = 0 then None
     else case next_line cs of None \<Rightarrow> None | Some (l, r) \<Rightarrow> Some (c # l, r))"

lemma next_line_length: "next_line p = Some (l, r) \<Longrightarrow> length r < length p"
  by (induction p arbitrary: l r) (auto split: if_splits option.splits)

text \<open>The inner loop: the lines written and the rest from \<open>p\<close> on.\<close>

function grep_lines :: "u8 list \<Rightarrow> u8 list \<Rightarrow> u8 list \<times> u8 list" where
  "grep_lines pattern p =
    (case next_line p of
       None \<Rightarrow> ([], p)
     | Some (l, r) \<Rightarrow>
         let (out, rest) = grep_lines pattern r
         in (if match pattern l then l @ [newline] @ out else out, rest))"
  by pat_completeness auto
termination
  by (relation "measure (\<lambda>(pattern, p). length p)") (auto simp: next_line_length)

declare grep_lines.simps [simp del]

text \<open>
  One turn of the outer loop: \<open>b\<close> are the bytes kept in \<open>buf\<close>, \<open>d\<close> those that \<open>read\<close> has put behind them. Where no line was
  complete (\<open>p == buf\<close>) the bytes are dropped.
\<close>

definition grep_turn :: "u8 list \<Rightarrow> u8 list \<Rightarrow> u8 list \<Rightarrow> u8 list \<times> u8 list" where
  "grep_turn pattern b d =
    (let (out, rest) = grep_lines pattern (b @ d)
     in (out, if length rest = length (b @ d) then [] else rest))"

text \<open>
  \<open>data\<close> is what is still to be read and \<open>sizes\<close> bounds the results of the calls of \<open>read\<close>, which may return fewer bytes
  than the \<open>1023 - m\<close> they are asked for; an empty result ends the loop.
\<close>

fun grep_loop :: "u8 list \<Rightarrow> u8 list \<Rightarrow> u8 list \<Rightarrow> nat list \<Rightarrow> u8 list" where
  "grep_loop pattern b data [] = []"
| "grep_loop pattern b data (k # ks) =
    (let n = min k (1023 - length b); d = take n data in
     if d = [] then []
     else let (out, b') = grep_turn pattern b d in out @ grep_loop pattern b' (drop n data) ks)"

definition grep :: "u8 list \<Rightarrow> u8 list \<Rightarrow> nat list \<Rightarrow> u8 list" where
  "grep pattern data sizes = grep_loop pattern [] data sizes"

section \<open>What a pattern means\<close>

datatype item = One u8 | Many u8 | End

definition fits :: "u8 \<Rightarrow> u8 \<Rightarrow> bool" where
  "fits c x \<longleftrightarrow> c = dot \<or> c = x"

function (sequential) items :: "u8 list \<Rightarrow> item list" where
  "items re =
    (if re = [] then []
     else if at re 1 = star then Many (at re 0) # items (drop 2 re)
     else if re = [dollar] then [End]
     else One (at re 0) # items (drop 1 re))"
  by pat_completeness auto
termination by (relation "measure length") auto

declare items.simps [simp del]

text \<open>\<open>denotes is s t\<close>: the items match the text \<open>s\<close> when \<open>t\<close> follows it.\<close>

inductive denotes :: "item list \<Rightarrow> u8 list \<Rightarrow> u8 list \<Rightarrow> bool" where
  den_nil: "denotes [] [] t"
| den_one: "fits c x \<Longrightarrow> denotes is s t \<Longrightarrow> denotes (One c # is) (x # s) t"
| den_many: "\<forall>x \<in> set a. fits c x \<Longrightarrow> denotes is s t \<Longrightarrow> denotes (Many c # is) (a @ s) t"
| den_end: "denotes [End] [] []"

inductive_simps denotes_nil: "denotes [] s t"
inductive_simps denotes_one: "denotes (One c # is) s t"
inductive_simps denotes_many: "denotes (Many c # is) s t"
inductive_simps denotes_end: "denotes [End] s t"

definition denotes_prefix :: "item list \<Rightarrow> u8 list \<Rightarrow> bool" where
  "denotes_prefix is text \<longleftrightarrow> (\<exists>s t. text = s @ t \<and> denotes is s t)"

lemma at_simps [simp]: "at [] n = 0" "at (c # s) 0 = c" "at (c # s) (Suc n) = at s n"
  by (simp_all add: at_def)

lemma prefix_nil: "denotes_prefix [] text"
  by (auto simp: denotes_prefix_def denotes_nil)

lemma prefix_end: "denotes_prefix [End] text \<longleftrightarrow> text = []"
  by (auto simp: denotes_prefix_def denotes_end)

lemma prefix_one: "denotes_prefix (One c # is) text \<longleftrightarrow> (\<exists>x u. text = x # u \<and> fits c x \<and> denotes_prefix is u)"
  unfolding denotes_prefix_def denotes_one by (auto simp: Cons_eq_append_conv) blast+

lemma prefix_many:
  "denotes_prefix (Many c # is) text \<longleftrightarrow>
    denotes_prefix is text \<or> (\<exists>x u. text = x # u \<and> fits c x \<and> denotes_prefix (Many c # is) u)"
proof
  assume "denotes_prefix (Many c # is) text"
  then obtain a s t where a: "text = (a @ s) @ t" "\<forall>x \<in> set a. fits c x" "denotes is s t"
    by (auto simp: denotes_prefix_def denotes_many)
  show "denotes_prefix is text \<or> (\<exists>x u. text = x # u \<and> fits c x \<and> denotes_prefix (Many c # is) u)"
  proof (cases a)
    case Nil
    then show ?thesis using a by (auto simp: denotes_prefix_def)
  next
    case (Cons x b)
    then have "denotes (Many c # is) (b @ s) t" using a by (auto intro: den_many)
    then show ?thesis using a Cons by (auto simp: denotes_prefix_def)
  qed
next
  assume "denotes_prefix is text \<or> (\<exists>x u. text = x # u \<and> fits c x \<and> denotes_prefix (Many c # is) u)"
  then show "denotes_prefix (Many c # is) text"
  proof
    assume "denotes_prefix is text"
    then show ?thesis unfolding denotes_prefix_def using den_many [of "[]"] by fastforce
  next
    assume "\<exists>x u. text = x # u \<and> fits c x \<and> denotes_prefix (Many c # is) u"
    then obtain x a s t where a: "text = x # (a @ s) @ t" "fits c x" "\<forall>x \<in> set a. fits c x" "denotes is s t"
      by (auto simp: denotes_prefix_def denotes_many)
    then have "denotes (Many c # is) ((x # a) @ s) t" by (intro den_many) auto
    then show ?thesis unfolding denotes_prefix_def using a(1) by (intro exI [of _ "(x # a) @ s"] exI [of _ t]) simp
  qed
qed

lemma at_zero: "0 \<notin> set s \<Longrightarrow> at s n = 0 \<longleftrightarrow> length s \<le> n"
  by (auto simp: at_def) (metis nth_mem)

lemma zero_drop: "0 \<notin> set s \<Longrightarrow> (0 :: u8) \<notin> set (drop n s)"
  using set_drop_subset by fastforce

lemma match_spec:
  "0 \<notin> set re \<Longrightarrow> 0 \<notin> set text \<Longrightarrow> matchhere re text \<longleftrightarrow> denotes_prefix (items re) text"
  "0 \<notin> set re' \<Longrightarrow> 0 \<notin> set text' \<Longrightarrow> matchstar c re' text' \<longleftrightarrow> denotes_prefix (Many c # items re') text'"
proof (induction re "text" and c re' text' rule: matchhere_matchstar.induct)
  case (1 re u)
  show ?case
  proof (cases re)
    case Nil
    then show ?thesis by (subst matchhere.simps, subst items.simps) (simp add: prefix_nil)
  next
    case (Cons c cs)
    then have c: "c \<noteq> 0" "at re 0 = c" "at re 1 = at cs 0" using 1 by auto
    consider (star) "at re 1 = star" | (fin) "at re 1 \<noteq> star" "re = [dollar]" | (one) "at re 1 \<noteq> star" "re \<noteq> [dollar]" by blast
    then show ?thesis
    proof cases
      case star
      then have "items re = Many c # items (drop 2 re)" using c Cons by (subst items.simps) simp
      moreover have "matchhere re u = matchstar c (drop 2 re) u" using c star by (subst matchhere.simps) simp
      ultimately show ?thesis using 1 c star zero_drop by simp
    next
      case fin
      then have "items re = [End]" by (subst items.simps) simp
      moreover have "matchhere re u = (at u 0 = 0)" using fin by (subst matchhere.simps) simp
      ultimately show ?thesis using 1 at_zero [of u 0] by (simp add: prefix_end)
    next
      case one
      have d: "\<not> (c = dollar \<and> at re 1 = 0)" using one c Cons 1 at_zero [of cs 0] by auto
      have "items re = One c # items (drop 1 re)" using one c Cons by (subst items.simps) simp
      moreover have "matchhere re u = (at u 0 \<noteq> 0 \<and> (c = dot \<or> c = at u 0) \<and> matchhere (drop 1 re) (drop 1 u))"
        using one c d by (subst matchhere.simps) auto
      moreover have "at u 0 \<noteq> 0 \<and> (c = dot \<or> c = at u 0) \<Longrightarrow>
          matchhere (drop 1 re) (drop 1 u) = denotes_prefix (items (drop 1 re)) (drop 1 u)"
        using "1.IH"(2) "1.prems" c one d zero_drop by simp
      ultimately show ?thesis using 1 by (cases u) (auto simp: prefix_one fits_def)
    qed
  qed
next
  case (2 c re u)
  have "matchstar c re u = (matchhere re u \<or> at u 0 \<noteq> 0 \<and> fits c (at u 0) \<and> matchstar c re (drop 1 u))"
    by (subst matchstar.simps) (auto simp: fits_def)
  moreover have "matchhere re u = denotes_prefix (items re) u" using 2 by blast
  moreover have "\<not> matchhere re u \<Longrightarrow> at u 0 \<noteq> 0 \<and> fits c (at u 0) \<Longrightarrow>
      matchstar c re (drop 1 u) = denotes_prefix (Many c # items re) (drop 1 u)"
    using "2.IH"(2) "2.prems" zero_drop by (auto simp: fits_def)
  ultimately show ?case using 2 by (subst prefix_many, cases u) auto
qed

lemma match_any_spec:
  "0 \<notin> set re \<Longrightarrow> 0 \<notin> set text \<Longrightarrow> match_any re text \<longleftrightarrow> (\<exists>k \<le> length text. denotes_prefix (items re) (drop k text))"
proof (induction "text")
  case Nil
  then show ?case by (simp add: match_spec(1))
next
  case (Cons c u)
  have "(\<exists>k \<le> length (c # u). denotes_prefix (items re) (drop k (c # u))) \<longleftrightarrow>
      denotes_prefix (items re) (c # u) \<or> (\<exists>k \<le> length u. denotes_prefix (items re) (drop k u))"
    by (auto simp: drop_Cons' Suc_le_eq less_Suc_eq_le split: if_splits)
  then show ?case using Cons match_spec(1) [of re "c # u"] by auto
qed

text \<open>
  C19. The matcher of grep decides the language of the pattern: with the pattern read as a list of items (a character or any
  character, the same repeated, and the end of the text), \<open>match\<close> says whether some part of the text that starts anywhere, or
  at the beginning after a caret, is denoted by the items. Both recursions end for every pattern and text.
\<close>

theorem match_decides:
  assumes "0 \<notin> set re" and "0 \<notin> set text"
  shows "match re text \<longleftrightarrow>
    (if at re 0 = caret then denotes_prefix (items (drop 1 re)) text
     else \<exists>k \<le> length text. denotes_prefix (items re) (drop k text))"
  using assms match_spec(1) [of "drop 1 re" "text"] match_any_spec [of re "text"] zero_drop [of re 1] by (simp add: match_def)

text \<open>\<open>b.*d$\<close> in \<open>abcd\<close>.\<close>

theorem match_decides_witness:
  "match [98, 46, 42, 100, 36] [97, 98, 99, 100] \<and> (\<exists>k \<le> Suc (Suc (Suc (Suc 0))). denotes_prefix (items [98, 46, 42, 100, 36]) (drop k [97, 98, 99, 100]))"
proof -
  have "match [98, 46, 42, 100, 36] [97, 98, 99, 100]"
    by (simp add: match_def matchhere.simps matchstar.simps)
  then show ?thesis using match_decides [of "[98, 46, 42, 100, 36]" "[97, 98, 99, 100]"] by simp
qed

section \<open>Lines\<close>

lemma next_line_line:
  "newline \<notin> set l \<Longrightarrow> 0 \<notin> set l \<Longrightarrow> next_line (l @ newline # r) = Some (l, r)"
  by (induction l) auto

lemma next_line_none: "newline \<notin> set l \<Longrightarrow> next_line l = None"
  by (induction l) auto

lemma next_line_part: "newline \<notin> set l \<Longrightarrow> newline \<notin> set (take n l)"
  using set_take_subset by fastforce

text \<open>The text of a list of lines, and the part of it that matches.\<close>

definition joined :: "u8 list list \<Rightarrow> u8 list" where
  "joined ls = concat (map (\<lambda>l. l @ [newline]) ls)"

definition matching :: "u8 list \<Rightarrow> u8 list list \<Rightarrow> u8 list" where
  "matching pattern ls = joined (filter (match pattern) ls)"

definition good_lines :: "u8 list list \<Rightarrow> bool" where
  "good_lines ls \<longleftrightarrow> (\<forall>l \<in> set ls. newline \<notin> set l \<and> 0 \<notin> set l \<and> length l < 1023)"

lemma joined_simps [simp]: "joined [] = []" "joined (l # ls) = l @ newline # joined ls"
  by (simp_all add: joined_def)

text \<open>A prefix of the text consists of whole lines and a part of the next.\<close>

lemma take_joined:
  "good_lines ls \<Longrightarrow> \<exists>as bs p. ls = as @ bs \<and> take n (joined ls) = joined as @ p \<and> newline \<notin> set p \<and> 0 \<notin> set p \<and>
    joined bs = p @ drop n (joined ls) \<and> (n \<le> length (joined ls) \<or> p = [])"
proof (induction ls arbitrary: n)
  case (Cons l ls)
  show ?case
  proof (cases "n \<le> length l")
    case True
    then have "take n (joined (l # ls)) = joined [] @ take n l" by simp
    moreover have "joined (l # ls) = take n l @ drop n (joined (l # ls))" using True by simp
    moreover have "newline \<notin> set (take n l)" "0 \<notin> set (take n l)"
      using Cons.prems set_take_subset [of n l] by (auto simp: good_lines_def)
    ultimately show ?thesis using True by (intro exI [of _ "[]"] exI [of _ "l # ls"] exI [of _ "take n l"]) simp
  next
    case False
    define k where "k = n - Suc (length l)"
    obtain as bs p where "ls = as @ bs \<and> take k (joined ls) = joined as @ p \<and> newline \<notin> set p \<and> 0 \<notin> set p \<and>
        joined bs = p @ drop k (joined ls) \<and> (k \<le> length (joined ls) \<or> p = [])"
      using Cons.IH [of k] Cons.prems by (auto simp: good_lines_def)
    moreover have "take n (joined (l # ls)) = l @ newline # take k (joined ls)" "drop n (joined (l # ls)) = drop k (joined ls)"
      using False by (simp_all add: k_def take_Cons' drop_Cons')
    ultimately show ?thesis using False by (intro exI [of _ "l # as"] exI [of _ bs] exI [of _ p]) (auto simp: k_def)
  qed
qed simp

lemma grep_lines_joined:
  "good_lines as \<Longrightarrow> newline \<notin> set p \<Longrightarrow> grep_lines pattern (joined as @ p) = (matching pattern as, p)"
proof (induction as)
  case Nil
  then show ?case by (subst grep_lines.simps) (simp add: next_line_none matching_def)
next
  case (Cons l as)
  then have "next_line (joined (l # as) @ p) = Some (l, joined as @ p)"
    by (simp add: good_lines_def next_line_line)
  then show ?case using Cons by (subst grep_lines.simps) (simp add: good_lines_def matching_def)
qed

lemma grep_loop_joined:
  assumes "good_lines ls" and "joined ls = b @ data" and "newline \<notin> set b" and "\<forall>k \<in> set ks. 1023 \<le> k" and "length data < length ks"
  shows "grep_loop pattern b data ks = matching pattern ls"
  using assms
proof (induction ks arbitrary: ls b data)
  case (Cons k ks)
  show ?case
  proof (cases ls)
    case Nil
    then show ?thesis using Cons.prems by (simp add: matching_def)
  next
    case (Cons l ls')
    define n where "n = 1023 - length b"
    have "newline \<in> set (drop (length b) (joined ls))" "length b \<le> length l"
      using Cons.prems(2,3) Cons unfolding Cons by (auto simp: append_eq_append_conv2 append_eq_Cons_conv Cons_eq_append_conv)
    then have b: "length b < 1023" "data \<noteq> []" using Cons.prems(1,2) Cons by (auto simp: good_lines_def)
    have n: "min k (1023 - length b) = n" using Cons.prems(4) by (auto simp: n_def)
    have buf: "b @ take n data = take 1023 (joined ls)" "drop n data = drop 1023 (joined ls)"
      using Cons.prems(2) b by (simp_all add: n_def)
    obtain as bs p where p: "ls = as @ bs" "take 1023 (joined ls) = joined as @ p" "newline \<notin> set p" "joined bs = p @ drop 1023 (joined ls)"
      using take_joined [OF Cons.prems(1), of 1023] by blast
    have "newline \<in> set (take 1023 (joined ls))"
      using Cons Cons.prems(1) by (simp add: good_lines_def take_Cons')
    then have "as \<noteq> []" using p(2,3) by (metis append_Nil joined_simps(1))
    then have "length p < length (joined as @ p)" by (cases as) auto
    then have turn: "grep_turn pattern b (take n data) = (matching pattern as, p)"
      using grep_lines_joined [of as p pattern] p Cons.prems(1) unfolding grep_turn_def buf by (simp add: good_lines_def)
    have "take n data \<noteq> []" using b by (simp add: n_def)
    moreover have less: "length (drop n data) < length ks"
      using b(1) length_greater_0_conv [THEN iffD2, OF b(2)] Cons.prems(5) unfolding n_def length_drop length_Cons by linarith
    ultimately have "grep_loop pattern b data (k # ks) = matching pattern as @ grep_loop pattern p (drop n data) ks"
      by (simp add: n turn Let_def)
    also have "grep_loop pattern p (drop n data) ks = matching pattern bs"
      using p(1,3,4) Cons.prems(1,4) less by (intro Cons.IH) (auto simp: good_lines_def buf)
    finally show ?thesis by (simp add: p(1) matching_def joined_def)
  qed
qed simp

text \<open>
  C33. grep writes the matching lines: when every call of \<open>read\<close> returns as much as it is asked for and no line is longer than
  the buffer, the output is exactly the lines of the input that match, in their order.
\<close>

theorem grep_filters_lines:
  assumes "good_lines ls" and "\<forall>k \<in> set sizes. 1023 \<le> k" and "length (joined ls) < length sizes"
  shows "grep pattern (joined ls) sizes = matching pattern ls"
  using grep_loop_joined [of ls "[]" "joined ls" sizes] assms by (simp add: grep_def)

theorem grep_filters_lines_witness: "grep [97] (joined [[98], [97, 98]]) (replicate 6 1024) = [97, 98, 10]"
proof -
  have "match [97] [97, 98]" "\<not> match [97] [98]" by (simp_all add: match_def matchhere.simps)
  then show ?thesis using grep_filters_lines [of "[[98], [97, 98]]" "replicate 6 1024" "[97]"]
    by (simp add: good_lines_def matching_def)
qed

text \<open>
  C34. A short read loses input: when what is in the buffer after a \<open>read\<close> contains no newline, grep forgets it. A line that
  arrives in two pieces, as from a pipe or the console, is matched on its last piece only: here the line \<open>ab\<close> arrives as \<open>a\<close> and
  \<open>b\<close>, and grep for \<open>a\<close> writes nothing.
\<close>

theorem grep_loses_partial_line:
  "(newline \<notin> set (b @ d) \<longrightarrow> grep_turn pattern b d = ([], [])) \<and> grep [97] (joined [[97, 98]]) [1, 1023, 1023] = [] \<and>
    matching [97] [[97, 98]] = [97, 98, 10]"
proof (intro conjI impI)
  have m: "match [97] [97, 98]" "\<not> match [97] [98]" by (simp_all add: match_def matchhere.simps)
  show turn: "grep_turn pattern b d = ([], [])" if "newline \<notin> set (b @ d)" for b d pattern
    using next_line_none [OF that] by (simp add: grep_turn_def grep_lines.simps)
  have "grep_lines [97] [98, 10] = ([], [])" using m by (simp add: grep_lines.simps)
  then show "grep [97] (joined [[97, 98]]) [1, 1023, 1023] = []"
    using turn [of "[]" "[97]" "[97]"] by (simp add: grep_def grep_turn_def Let_def)
  show "matching [97] [[97, 98]] = [97, 98, 10]" using m by (simp add: matching_def)
qed

theorem grep_loses_partial_line_witness: "grep_turn [97] [] [97] = ([], [])"
  using grep_loses_partial_line [of "[]" "[97]" "[97]"] by simp

end
