(* ===== verification/Shell.thy ===== *)
theory Shell
  imports Sysfile
begin

text \<open>
  The shell, \<open>src/xv6/sh.c\<close>: its tokens, the recursive-descent parser, \<open>nulterminate\<close>, and \<open>runcmd\<close> as a tree of system calls.
  The command line is a list of bytes that stands before a zero, a pointer into it an index; \<open>es\<close> is its length. A command
  refers to its words by the indices of their beginning and end, as \<open>argv\<close> and \<open>eargv\<close> do.
\<close>

section \<open>Commands\<close>

type_synonym word_t = "nat \<times> nat"

text \<open>The type of the words is a parameter: the parser builds a \<open>word_t cmd\<close>, which stands for a command over byte strings.\<close>

datatype 'w cmd =
    EXEC "'w list"
  | REDIR "'w cmd" 'w u32 nat
  | PIPE "'w cmd" "'w cmd"
  | LIST "'w cmd" "'w cmd"
  | BACK "'w cmd"

definition MAXARGS :: nat where "MAXARGS = 10"

definition O_RDONLY :: u32 where "O_RDONLY = 0"

section \<open>Tokens\<close>

definition whitespace :: "u8 list" where
  "whitespace = [32, 9, 13, 10, 11]"

definition symbols :: "u8 list" where
  "symbols = [60, 124, 62, 38, 59, 40, 41]"

text \<open>\<open>*s\<close> for \<open>s\<close> up to \<open>es\<close>.\<close>

definition chr_at :: "u8 list \<Rightarrow> nat \<Rightarrow> u8" where
  "chr_at b i = (if i < length b then b ! i else 0)"

function skipws :: "u8 list \<Rightarrow> nat \<Rightarrow> nat" where
  "skipws b i = (if i < length b \<and> b ! i \<in> set whitespace then skipws b (Suc i) else i)"
  by pat_completeness auto
termination by (relation "measure (\<lambda>(b, i). length b - i)") auto

function word_end :: "u8 list \<Rightarrow> nat \<Rightarrow> nat" where
  "word_end b i = (if i < length b \<and> b ! i \<notin> set whitespace \<and> b ! i \<notin> set symbols then word_end b (Suc i) else i)"
  by pat_completeness auto
termination by (relation "measure (\<lambda>(b, i). length b - i)") auto

declare skipws.simps [simp del] word_end.simps [simp del]

text \<open>The value of \<open>gettoken\<close>: a zero at the end, 97 for a word, 43 for \<open>>>\<close>, and otherwise the symbol itself.\<close>

definition token_at :: "u8 list \<Rightarrow> nat \<Rightarrow> u8 \<times> nat" where
  "token_at b s =
    (let c = chr_at b s in
     if c = 0 then (0, s)
     else if c = 124 \<or> c = 40 \<or> c = 41 \<or> c = 59 \<or> c = 38 \<or> c = 60 then (c, Suc s)
     else if c = 62 then (if chr_at b (Suc s) = 62 then (43, Suc (Suc s)) else (c, Suc s))
     else (97, word_end b s))"

definition gettoken :: "u8 list \<Rightarrow> nat \<Rightarrow> u8 \<times> word_t \<times> nat" where
  "gettoken b s = (let q = skipws b s; (tok, eq) = token_at b q in (tok, (q, eq), skipws b eq))"

definition peek :: "u8 list \<Rightarrow> nat \<Rightarrow> u8 list \<Rightarrow> bool \<times> nat" where
  "peek b s toks = (let s = skipws b s in (chr_at b s \<noteq> 0 \<and> chr_at b s \<in> set toks, s))"

text \<open>The position after a token that is not looked at.\<close>

definition past :: "u8 list \<Rightarrow> nat \<Rightarrow> nat" where
  "past b s = snd (snd (gettoken b s))"

lemma skipws_ge: "i \<le> skipws b i"
  by (induction b i rule: skipws.induct) (subst skipws.simps, auto)

lemma skipws_le: "i \<le> length b \<Longrightarrow> skipws b i \<le> length b"
  by (induction b i rule: skipws.induct) (subst skipws.simps, auto)

lemma skipws_idem [simp]: "skipws b (skipws b i) = skipws b i"
proof (induction b i rule: skipws.induct)
  case (1 b i)
  show ?case
  proof (cases "i < length b \<and> b ! i \<in> set whitespace")
    case True
    then show ?thesis using 1 by (auto simp: skipws.simps [of b i])
  next
    case False
    then have "skipws b i = i" by (auto simp: skipws.simps [of b i])
    then show ?thesis by simp
  qed
qed

lemma word_end_ge: "i \<le> word_end b i"
  by (induction b i rule: word_end.induct) (subst word_end.simps, auto)

lemma word_end_le: "i \<le> length b \<Longrightarrow> word_end b i \<le> length b"
  by (induction b i rule: word_end.induct) (subst word_end.simps, auto)

lemma chr_at_nonzero: "chr_at b i \<noteq> 0 \<Longrightarrow> i < length b"
  by (simp add: chr_at_def split: if_splits)

lemma chr_at_skipws: "chr_at b (skipws b i) \<notin> set whitespace"
proof (induction b i rule: skipws.induct)
  case (1 b i)
  show ?case
  proof (cases "i < length b \<and> b ! i \<in> set whitespace")
    case False
    then have "skipws b i = i" by (auto simp: skipws.simps [of b i])
    then show ?thesis using False by (auto simp: chr_at_def whitespace_def)
  qed (use 1 in \<open>simp add: skipws.simps [of b i]\<close>)
qed

lemma token_at_advance:
  assumes "chr_at b s \<noteq> 0" and "chr_at b s \<notin> set whitespace"
  shows "s < snd (token_at b s)" and "snd (token_at b s) \<le> length b"
proof -
  have s: "s < length b" using assms(1) by (rule chr_at_nonzero)
  have "s < word_end b s" if "chr_at b s \<notin> set symbols"
    using s that assms(2) word_end_ge [of "Suc s" b] by (auto simp: word_end.simps [of b s] chr_at_def)
  then show "s < snd (token_at b s)" using assms(1)
    by (auto simp: token_at_def Let_def symbols_def)
  show "snd (token_at b s) \<le> length b"
    using s word_end_le [of s b] chr_at_nonzero [of b "Suc s"] by (auto simp: token_at_def Let_def)
qed

lemma gettoken_advance:
  assumes "gettoken b s = (tok, w, t)" and "chr_at b (skipws b s) \<noteq> 0"
  shows "s < t" and "t \<le> length b"
proof -
  have a: "skipws b s < snd (token_at b (skipws b s))" "snd (token_at b (skipws b s)) \<le> length b"
    using token_at_advance [OF assms(2) chr_at_skipws] by auto
  moreover have "t = skipws b (snd (token_at b (skipws b s)))" using assms(1) by (auto simp: gettoken_def Let_def split: prod.splits)
  ultimately show "s < t" "t \<le> length b"
    using skipws_ge [of s b] skipws_ge [of "snd (token_at b (skipws b s))" b] skipws_le by (auto intro: less_le_trans)
qed

lemma peek_advance: "peek b s toks = (True, t) \<Longrightarrow> s \<le> t \<and> t < past b t \<and> past b t \<le> length b"
  using skipws_ge [of s b] gettoken_advance [of b t]
  by (auto simp: peek_def Let_def past_def) (metis gettoken_advance prod.collapse skipws_idem)+

section \<open>The parser\<close>

text \<open>The redirections are collected; \<open>redircmd\<close> wraps the command in them at the end, the first one innermost.\<close>

type_synonym 'w redirs = "('w \<times> u32 \<times> nat) list"

type_synonym redir = "word_t \<times> u32 \<times> nat"

definition redir_of :: "u8 \<Rightarrow> word_t \<Rightarrow> redir" where
  "redir_of tok w = (if tok = 60 then (w, O_RDONLY, 0) else (w, O_WRONLY OR O_CREATE, 1))"

definition wrap :: "'w cmd \<Rightarrow> 'w redirs \<Rightarrow> 'w cmd" where
  "wrap c rs = foldl (\<lambda>c (w, mode, fd). REDIR c w mode fd) c rs"

lemma gettoken_ge: "gettoken b s = (tok, w, t) \<Longrightarrow> s \<le> t \<and> fst w \<le> snd w"
proof -
  assume "gettoken b s = (tok, w, t)"
  then have t: "t = skipws b (snd (token_at b (skipws b s)))" "w = (skipws b s, snd (token_at b (skipws b s)))"
    by (auto simp: gettoken_def Let_def split: prod.splits)
  have "skipws b s \<le> snd (token_at b (skipws b s))"
    using word_end_ge [of "skipws b s" b] by (simp add: token_at_def Let_def)
  then show ?thesis using skipws_ge [of s b] skipws_ge [of "snd (token_at b (skipws b s))" b] t by simp
qed

lemma redir_step:
  assumes "peek b s toks = (True, s1)" and "gettoken b s1 = (tok, w, s2)" and "gettoken b s2 = (t, w', s3)"
  shows "s < s3" and "s < length b"
  using peek_advance [OF assms(1)] gettoken_ge [OF assms(3)] assms(2) by (auto simp: past_def)

function parseredirs :: "u8 list \<Rightarrow> redir list \<Rightarrow> nat \<Rightarrow> (redir list \<times> nat) result" where
  "parseredirs b rs s =
    (case peek b s [60, 62] of (found, s1) \<Rightarrow>
       if \<not> found then Inr (rs, s1)
       else case gettoken b s1 of (tok, _, s2) \<Rightarrow>
            case gettoken b s2 of (t, w, s3) \<Rightarrow>
              if t \<noteq> 97 then Inl (Exit ''missing file for redirection'')
              else parseredirs b (rs @ [redir_of tok w]) s3)"
  by pat_completeness auto
termination
  by (relation "measure (\<lambda>(b, rs, s). length b - s)") (auto dest: redir_step [OF sym sym sym] intro!: diff_less_mono2)

declare parseredirs.simps [simp del]

text \<open>The loop of \<open>parseexec\<close>: the words so far and the redirections.\<close>

function parseargs :: "u8 list \<Rightarrow> word_t list \<Rightarrow> redir list \<Rightarrow> nat \<Rightarrow> (word_t cmd \<times> nat) result" where
  "parseargs b ws rs s =
    (case peek b s [124, 41, 38, 59] of (stop, s1) \<Rightarrow>
       if stop then Inr (wrap (EXEC ws) rs, s1)
       else case gettoken b s1 of (tok, w, s2) \<Rightarrow>
         if tok = 0 then Inr (wrap (EXEC ws) rs, s2)
         else if tok \<noteq> 97 then Inl (Exit ''syntax'')
         else if Suc (length ws) \<ge> MAXARGS then Inl (Exit ''too many args'')
         else case parseredirs b rs s2 of
             Inl e \<Rightarrow> Inl e
           | Inr (rs, s3) \<Rightarrow> parseargs b (ws @ [w]) rs s3)"
  by pat_completeness auto
termination
  by (relation "measure (\<lambda>(b, ws, rs, s). MAXARGS - length ws)") (auto intro!: diff_less_mono2)

declare parseargs.simps [simp del]

text \<open>The loop of \<open>parseline\<close> over ampersands.\<close>

function parseback :: "u8 list \<Rightarrow> word_t cmd \<Rightarrow> nat \<Rightarrow> word_t cmd \<times> nat" where
  "parseback b c s =
    (case peek b s [38] of (found, s) \<Rightarrow> if found then parseback b (BACK c) (past b s) else (c, s))"
  by pat_completeness auto
termination
  by (relation "measure (\<lambda>(b, c, s). length b - s)") (auto dest!: peek_advance [OF sym])

declare parseback.simps [simp del]

text \<open>The four mutually recursive functions. The first argument bounds the depth of the recursion; \<open>parsecmd\<close> starts with enough.\<close>

fun parseline :: "nat \<Rightarrow> u8 list \<Rightarrow> nat \<Rightarrow> (word_t cmd \<times> nat) result"
  and parsepipe :: "nat \<Rightarrow> u8 list \<Rightarrow> nat \<Rightarrow> (word_t cmd \<times> nat) result"
  and parseblock :: "nat \<Rightarrow> u8 list \<Rightarrow> nat \<Rightarrow> (word_t cmd \<times> nat) result"
  and parseexec :: "nat \<Rightarrow> u8 list \<Rightarrow> nat \<Rightarrow> (word_t cmd \<times> nat) result" where
  "parseline 0 b s = Inl Diverge"
| "parseline (Suc n) b s =
    andthen (parsepipe n b s) (\<lambda>(c, s).
      let (c, s) = parseback b c s in
      case peek b s [59] of (found, s) \<Rightarrow>
        if found then andthen (parseline n b (past b s)) (\<lambda>(d, s). Inr (LIST c d, s)) else Inr (c, s))"
| "parsepipe 0 b s = Inl Diverge"
| "parsepipe (Suc n) b s =
    andthen (parseexec n b s) (\<lambda>(c, s).
      case peek b s [124] of (found, s) \<Rightarrow>
        if found then andthen (parsepipe n b (past b s)) (\<lambda>(d, s). Inr (PIPE c d, s)) else Inr (c, s))"
| "parseblock 0 b s = Inl Diverge"
| "parseblock (Suc n) b s =
    (case peek b s [40] of (found, s) \<Rightarrow>
       if \<not> found then Inl (Exit ''parseblock'')
       else andthen (parseline n b (past b s)) (\<lambda>(c, s).
         case peek b s [41] of (found, s) \<Rightarrow>
           if \<not> found then Inl (Exit ''syntax - missing )'')
           else andthen (parseredirs b [] (past b s)) (\<lambda>(rs, s). Inr (wrap c rs, s))))"
| "parseexec 0 b s = Inl Diverge"
| "parseexec (Suc n) b s =
    (case peek b s [40] of (found, s) \<Rightarrow>
       if found then parseblock n b s
       else andthen (parseredirs b [] s) (\<lambda>(rs, s). parseargs b [] rs s))"

definition parse_fuel :: "u8 list \<Rightarrow> nat \<Rightarrow> nat" where
  "parse_fuel b s = 4 * Suc (length b - s)"

text \<open>The words that \<open>nulterminate\<close> ends with a zero, and the buffer afterwards; \<open>es\<close> itself is already zero.\<close>

fun cmd_words :: "word_t cmd \<Rightarrow> word_t list" where
  "cmd_words (EXEC ws) = ws"
| "cmd_words (REDIR c w mode fd) = cmd_words c @ [w]"
| "cmd_words (PIPE c d) = cmd_words c @ cmd_words d"
| "cmd_words (LIST c d) = cmd_words c @ cmd_words d"
| "cmd_words (BACK c) = cmd_words c"

definition nulterminate :: "word_t cmd \<Rightarrow> u8 list \<Rightarrow> u8 list" where
  "nulterminate c b = foldl (\<lambda>b (q, eq). b[eq := 0]) b (cmd_words c)"

definition parsecmd :: "u8 list \<Rightarrow> (word_t cmd \<times> u8 list) result" where
  "parsecmd b =
    andthen (parseline (parse_fuel b 0) b 0) (\<lambda>(c, s).
      if snd (peek b s []) \<noteq> length b then Inl (Exit ''syntax'') else Inr (c, nulterminate c b))"

section \<open>Execution\<close>

text \<open>
  \<open>runcmd\<close> as a tree of system calls: each call continues with its result, \<open>Fork\<close> with the value of \<open>fork\<close> in the parent or the
  child, \<open>Pipe\<close> also with the two descriptors; \<open>Quit\<close> is \<open>exit()\<close>.
\<close>

datatype call = Exec_call "u8 list list" | Open_call "u8 list" u32 | Close_call nat | Dup_call nat | Wait_call | Print_call string "u8 list"

datatype prog = Quit | Call call "int \<Rightarrow> prog" | Fork "int \<Rightarrow> prog" | Pipe "int \<Rightarrow> nat \<Rightarrow> nat \<Rightarrow> prog"

definition word_at_nul :: "u8 list \<Rightarrow> word_t \<Rightarrow> u8 list" where
  "word_at_nul b w = takeWhile (\<lambda>c. c \<noteq> 0) (drop (fst w) b)"

definition sh_panic :: "string \<Rightarrow> prog" where
  "sh_panic s = Call (Print_call s []) (\<lambda>_. Quit)"

definition fork1 :: "prog \<Rightarrow> prog \<Rightarrow> prog" where
  "fork1 child parent = Fork (\<lambda>pid. if pid = - 1 then sh_panic ''fork'' else if pid = 0 then child else parent)"

fun runcmd :: "u8 list \<Rightarrow> word_t cmd \<Rightarrow> prog" where
  "runcmd b (EXEC ws) =
    (if ws = [] then Quit
     else Call (Exec_call (map (word_at_nul b) ws)) (\<lambda>_. Call (Print_call ''exec %s failed'' (word_at_nul b (hd ws))) (\<lambda>_. Quit)))"
| "runcmd b (REDIR c w mode fd) =
    Call (Close_call fd) (\<lambda>_. Call (Open_call (word_at_nul b w) mode) (\<lambda>r.
      if r < 0 then Call (Print_call ''open %s failed'' (word_at_nul b w)) (\<lambda>_. Quit) else runcmd b c))"
| "runcmd b (LIST c d) = fork1 (runcmd b c) (Call Wait_call (\<lambda>_. runcmd b d))"
| "runcmd b (PIPE c d) =
    Pipe (\<lambda>r p0 p1.
      if r < 0 then sh_panic ''pipe''
      else fork1 (Call (Close_call 1) (\<lambda>_. Call (Dup_call p1) (\<lambda>_. Call (Close_call p0) (\<lambda>_. Call (Close_call p1) (\<lambda>_. runcmd b c)))))
        (fork1 (Call (Close_call 0) (\<lambda>_. Call (Dup_call p0) (\<lambda>_. Call (Close_call p0) (\<lambda>_. Call (Close_call p1) (\<lambda>_. runcmd b d)))))
          (Call (Close_call p0) (\<lambda>_. Call (Close_call p1) (\<lambda>_. Call Wait_call (\<lambda>_. Call Wait_call (\<lambda>_. Quit)))))))"
| "runcmd b (BACK c) = fork1 (runcmd b c) Quit"

text \<open>What the loop of \<open>main\<close> does with a line: change the directory itself, or parse and run it in a child.\<close>

datatype line_action = Chdir "u8 list" | Child "prog result"

definition main_line :: "u8 list \<Rightarrow> line_action" where
  "main_line b =
    (if take 3 b = [99, 100, 32] then Chdir (drop 3 (butlast b))
     else Child (andthen (parsecmd b) (\<lambda>(c, b). Inr (runcmd b c))))"

section \<open>Termination\<close>

lemma peek_le: "peek b s toks = (found, t) \<Longrightarrow> s \<le> t \<and> (s \<le> length b \<longrightarrow> t \<le> length b) \<and> t = skipws b s"
  using skipws_ge [of s b] skipws_le [of s b] by (auto simp: peek_def Let_def)

lemma gettoken_le: "gettoken b s = (tok, w, t) \<Longrightarrow> s \<le> length b \<Longrightarrow> t \<le> length b"
proof (cases "chr_at b (skipws b s) = 0")
  case True
  assume g: "gettoken b s = (tok, w, t)" and s: "s \<le> length b"
  have "t = skipws b s" using g True by (auto simp: gettoken_def token_at_def Let_def)
  then show ?thesis using skipws_le [OF s] by simp
next
  case False
  assume "gettoken b s = (tok, w, t)"
  from gettoken_advance(2) [OF this False] show ?thesis .
qed

lemma parseredirs_le:
  "parseredirs b rs s = Inr (rs', t) \<Longrightarrow> s \<le> t \<and> (s \<le> length b \<longrightarrow> t \<le> length b)"
proof (induction b rs s rule: parseredirs.induct)
  case (1 b rs s)
  obtain f s1 where p: "peek b s [60, 62] = (f, s1)" by fastforce
  obtain tok w1 s2 where g1: "gettoken b s1 = (tok, w1, s2)" using prod_cases3 by blast
  obtain k w s3 where g2: "gettoken b s2 = (k, w, s3)" using prod_cases3 by blast
  note bounds = peek_le [OF p] gettoken_ge [OF g1] gettoken_le [OF g1] gettoken_ge [OF g2] gettoken_le [OF g2]
  show ?case
  proof (cases f)
    case False
    then show ?thesis using 1(2) bounds by (auto simp: parseredirs.simps [of b rs s] p)
  next
    case True
    then have "k = 97" "parseredirs b (rs @ [redir_of tok w]) s3 = Inr (rs', t)"
      using 1(2) by (auto simp: parseredirs.simps [of b rs s] p g1 g2 split: if_splits)
    then have "s3 \<le> t \<and> (s3 \<le> length b \<longrightarrow> t \<le> length b)"
      using 1(1) [OF p [symmetric] _ g1 [symmetric] _ g2 [symmetric]] True by (cases w1; cases w) simp
    then show ?thesis using bounds by auto
  qed
qed

definition delimiter :: "u8 \<Rightarrow> bool" where
  "delimiter c \<longleftrightarrow> c \<in> set whitespace \<or> c \<in> set symbols"

text \<open>A word of the buffer: not empty, without delimiters, and ended by one or by the end of the buffer.\<close>

definition is_word :: "u8 list \<Rightarrow> word_t \<Rightarrow> bool" where
  "is_word b w \<longleftrightarrow>
    fst w < snd w \<and> snd w \<le> length b \<and> (\<forall>j. fst w \<le> j \<and> j < snd w \<longrightarrow> \<not> delimiter (b ! j)) \<and>
    (snd w < length b \<longrightarrow> delimiter (b ! snd w))"

lemma word_end_spec:
  "i \<le> length b \<Longrightarrow> (\<forall>j. i \<le> j \<and> j < word_end b i \<longrightarrow> \<not> delimiter (b ! j)) \<and>
    (word_end b i < length b \<longrightarrow> delimiter (b ! word_end b i))"
proof (induction b i rule: word_end.induct)
  case (1 b i)
  show ?case
  proof (cases "i < length b \<and> b ! i \<notin> set whitespace \<and> b ! i \<notin> set symbols")
    case True
    then have e: "word_end b i = word_end b (Suc i)" by (simp add: word_end.simps [of b i])
    have ih: "\<And>j. Suc i \<le> j \<Longrightarrow> j < word_end b (Suc i) \<Longrightarrow> \<not> delimiter (b ! j)"
      "word_end b (Suc i) < length b \<Longrightarrow> delimiter (b ! word_end b (Suc i))" using 1(1) True by auto
    moreover have "\<not> delimiter (b ! i)" using True by (simp add: delimiter_def)
    ultimately show ?thesis unfolding e by (metis le_antisym not_less_eq_eq)
  next
    case False
    then have "word_end b i = i" by (auto simp: word_end.simps [of b i])
    then show ?thesis using False by (auto simp: delimiter_def)
  qed
qed

lemma gettoken_word: "gettoken b s = (97, w, t) \<Longrightarrow> is_word b w"
proof -
  assume g: "gettoken b s = (97, w, t)"
  let ?q = "skipws b s"
  have w: "w = (?q, word_end b ?q)" and nz: "chr_at b ?q \<noteq> 0"
    using g by (auto simp: gettoken_def token_at_def Let_def split: if_splits)
  have "?q < word_end b ?q"
    using token_at_advance(1) [OF nz chr_at_skipws] g by (auto simp: gettoken_def token_at_def Let_def split: if_splits)
  then show ?thesis using w word_end_spec [of ?q b] word_end_le [of ?q b] chr_at_nonzero [OF nz] by (simp add: is_word_def)
qed

definition redirs_ok :: "u8 list \<Rightarrow> redir list \<Rightarrow> bool" where
  "redirs_ok b rs \<longleftrightarrow> list_all (\<lambda>r. is_word b (fst r)) rs"

lemma redir_of_word [simp]: "fst (redir_of tok w) = w"
  by (simp add: redir_of_def)

lemma cmd_words_wrap: "cmd_words (wrap c rs) = cmd_words c @ map fst rs"
  unfolding wrap_def by (induction rs arbitrary: c) auto

lemma parseredirs_ok: "redirs_ok b rs \<Longrightarrow> parseredirs b rs s = Inr (rs', t) \<Longrightarrow> redirs_ok b rs'"
proof (induction b rs s rule: parseredirs.induct)
  case (1 b rs s)
  obtain f s1 where p: "peek b s [60, 62] = (f, s1)" by fastforce
  obtain tok w1 s2 where g1: "gettoken b s1 = (tok, w1, s2)" using prod_cases3 by blast
  obtain k w s3 where g2: "gettoken b s2 = (k, w, s3)" using prod_cases3 by blast
  show ?case
  proof (cases f)
    case False
    then show ?thesis using 1(2,3) by (simp add: parseredirs.simps [of b rs s] p)
  next
    case True
    then have k: "k = 97" "parseredirs b (rs @ [redir_of tok w]) s3 = Inr (rs', t)"
      using 1(3) by (auto simp: parseredirs.simps [of b rs s] p g1 g2 split: if_splits)
    then have "redirs_ok b (rs @ [redir_of tok w])" using 1(2) gettoken_word g2 by (simp add: redirs_ok_def)
    then show ?thesis using 1(1) [OF p [symmetric] _ g1 [symmetric] _ g2 [symmetric]] True k by (cases w1; cases w) simp
  qed
qed

lemma parseredirs_diverge: "parseredirs b rs s \<noteq> Inl Diverge"
proof (induction b rs s rule: parseredirs.induct)
  case (1 b rs s)
  obtain f s1 where p: "peek b s [60, 62] = (f, s1)" by fastforce
  obtain tok w1 s2 where g1: "gettoken b s1 = (tok, w1, s2)" using prod_cases3 by blast
  obtain k w s3 where g2: "gettoken b s2 = (k, w, s3)" using prod_cases3 by blast
  show ?case using 1 [OF p [symmetric] _ g1 [symmetric] _ g2 [symmetric]]
    by (cases w1; cases w) (simp add: parseredirs.simps [of b rs s] p g1 g2)
qed

text \<open>What every parsing function guarantees when it starts at \<open>s\<close>.\<close>

definition fine :: "u8 list \<Rightarrow> nat \<Rightarrow> (word_t cmd \<times> nat) result \<Rightarrow> bool" where
  "fine b s r =
    (case r of Inl e \<Rightarrow> e \<noteq> Diverge | Inr (c, t) \<Rightarrow> s \<le> t \<and> t \<le> length b \<and> list_all (is_word b) (cmd_words c))"

lemma fine_words: "redirs_ok b rs \<Longrightarrow> list_all (is_word b) (cmd_words c) \<Longrightarrow> list_all (is_word b) (cmd_words (wrap c rs))"
  by (auto simp: cmd_words_wrap redirs_ok_def list_all_iff)

lemma parseargs_fine:
  "s \<le> length b \<Longrightarrow> list_all (is_word b) ws \<Longrightarrow> redirs_ok b rs \<Longrightarrow> fine b s (parseargs b ws rs s)"
proof (induction b ws rs s rule: parseargs.induct)
  case (1 b ws rs s)
  obtain f s1 where p: "peek b s [124, 41, 38, 59] = (f, s1)" by fastforce
  obtain tok w s2 where g: "gettoken b s1 = (tok, w, s2)" using prod_cases3 by blast
  have bounds: "s \<le> s1" "s1 \<le> length b" "s1 \<le> s2" "s2 \<le> length b"
    using peek_le [OF p] gettoken_ge [OF g] gettoken_le [OF g] 1(2) by auto
  have stop: "fine b s (Inr (wrap (EXEC ws) rs, t))" if "s \<le> t" "t \<le> length b" for t
    using that 1(3,4) by (simp add: fine_def fine_words)
  show ?case
  proof (cases "f \<or> tok = 0 \<or> tok \<noteq> 97 \<or> Suc (length ws) \<ge> MAXARGS")
    case True
    then show ?thesis using stop bounds 1(2) by (auto simp: parseargs.simps [of b ws rs s] p g) (auto simp: fine_def)
  next
    case False
    show ?thesis
    proof (cases "parseredirs b rs s2")
      case (Inl e)
      then show ?thesis using False parseredirs_diverge [of b rs s2] by (simp add: parseargs.simps [of b ws rs s] p g fine_def)
    next
      case (Inr r)
      obtain rs' s3 where r: "r = (rs', s3)" by fastforce
      have "redirs_ok b rs'" "s2 \<le> s3" "s3 \<le> length b"
        using parseredirs_ok parseredirs_le [of b rs s2 rs' s3] Inr r 1(2,4) bounds by auto
      moreover have "is_word b w" using gettoken_word g False by blast
      ultimately have "fine b s3 (parseargs b (ws @ [w]) rs' s3)"
        using 1(1) [OF p [symmetric] _ g [symmetric] _ _ _ _ Inr] 1(3) False r by (cases w) auto
      then show ?thesis using False Inr r bounds \<open>s2 \<le> s3\<close>
        by (auto simp: parseargs.simps [of b ws rs s] p g fine_def split: sum.splits)
    qed
  qed
qed

lemma parseback_fine:
  "parseback b c s = (d, t) \<Longrightarrow> s \<le> length b \<Longrightarrow> s \<le> t \<and> t \<le> length b \<and> cmd_words d = cmd_words c"
proof (induction b c s rule: parseback.induct)
  case (1 b c s)
  obtain f s1 where p: "peek b s [38] = (f, s1)" by fastforce
  show ?case
  proof (cases f)
    case True
    then have "s \<le> s1 \<and> s1 < past b s1 \<and> past b s1 \<le> length b" using peek_advance [of b s "[38]" s1] p by simp
    then show ?thesis using 1(1) [OF p [symmetric]] 1(2) True p by (auto simp: parseback.simps [of b c s])
  next
    case False
    then show ?thesis using 1(2,3) p peek_le [OF p] by (auto simp: parseback.simps [of b c s])
  qed
qed

lemma fine_InlD: "fine b s (Inl e) \<longleftrightarrow> e \<noteq> Diverge"
  by (simp add: fine_def)

lemma fine_Inr: "fine b s (Inr (c, t)) \<longleftrightarrow> s \<le> t \<and> t \<le> length b \<and> list_all (is_word b) (cmd_words c)"
  by (simp add: fine_def)

lemmas fine_simps = fine_InlD fine_Inr

lemma fine_mono: "fine b t r \<Longrightarrow> s \<le> t \<Longrightarrow> fine b s r"
  by (auto simp: fine_def split: sum.splits)

lemma peek_bounds:
  assumes "peek b s toks = (f, t)" and "s \<le> length b"
  shows "s \<le> t" and "t \<le> length b" and "f \<Longrightarrow> t < past b t" and "f \<Longrightarrow> past b t \<le> length b"
  using peek_le [OF assms(1)] peek_advance [of b s toks t] assms by auto

text \<open>A second command is parsed after a separator.\<close>

lemma fine_second:
  assumes "fine b t r" and "s \<le> t" and "list_all (is_word b) (cmd_words c)"
    and "\<And>d. cmd_words (f d) = cmd_words c @ cmd_words d"
  shows "fine b s (andthen r (\<lambda>(d, t). Inr (f d, t)))"
  using assms by (cases r) (auto simp: fine_def)

lemma fine_line:
  assumes pipe: "fine b s (parsepipe n b s)" and line: "\<And>t. s < t \<Longrightarrow> t \<le> length b \<Longrightarrow> fine b t (parseline n b t)"
  shows "fine b s (parseline (Suc n) b s)"
proof (cases "parsepipe n b s")
  case (Inl e)
  then show ?thesis using pipe by (simp add: fine_simps)
next
  case (Inr r)
  obtain c s1 d s2 f s3 where r: "r = (c, s1)" and k: "parseback b c s1 = (d, s2)" and p: "peek b s2 [59] = (f, s3)" by fastforce
  have 1: "s \<le> s1" "s1 \<le> length b" "list_all (is_word b) (cmd_words c)" using pipe Inr r by (simp_all add: fine_simps)
  then have 2: "s \<le> s2" "s2 \<le> length b" "list_all (is_word b) (cmd_words d)" using parseback_fine [OF k] by auto
  note b = peek_bounds [OF p 2(2)]
  have "parseline (Suc n) b s = (if f then andthen (parseline n b (past b s3)) (\<lambda>(e, s). Inr (LIST d e, s)) else Inr (d, s3))"
    using Inr r k p by simp
  then show ?thesis using b 2 line [of "past b s3"] fine_second [where f = "LIST d" and c = d] by (auto simp: fine_simps)
qed

lemma fine_pipe:
  assumes exec: "fine b s (parseexec n b s)" and pipe: "\<And>t. s < t \<Longrightarrow> t \<le> length b \<Longrightarrow> fine b t (parsepipe n b t)"
  shows "fine b s (parsepipe (Suc n) b s)"
proof (cases "parseexec n b s")
  case (Inl e)
  then show ?thesis using exec by (simp add: fine_simps)
next
  case (Inr r)
  obtain c s1 f s3 where r: "r = (c, s1)" and p: "peek b s1 [124] = (f, s3)" by fastforce
  have 1: "s \<le> s1" "s1 \<le> length b" "list_all (is_word b) (cmd_words c)" using exec Inr r by (simp_all add: fine_simps)
  note b = peek_bounds [OF p 1(2)]
  have "parsepipe (Suc n) b s = (if f then andthen (parsepipe n b (past b s3)) (\<lambda>(e, s). Inr (PIPE c e, s)) else Inr (c, s3))"
    using Inr r p by simp
  then show ?thesis using b 1 pipe [of "past b s3"] fine_second [where f = "PIPE c" and c = c] by (auto simp: fine_simps)
qed

lemma fine_redirs:
  assumes "s \<le> length b" and "s0 \<le> s" and "\<And>rs t. redirs_ok b rs \<Longrightarrow> s \<le> t \<Longrightarrow> t \<le> length b \<Longrightarrow> fine b s0 (g rs t)"
  shows "fine b s0 (andthen (parseredirs b [] s) (\<lambda>(rs, t). g rs t))"
proof (cases "parseredirs b [] s")
  case (Inl e)
  then show ?thesis using parseredirs_diverge [of b "[]" s] by (simp add: fine_simps)
next
  case (Inr r)
  obtain rs t where r: "r = (rs, t)" by fastforce
  then show ?thesis using parseredirs_le [of b "[]" s rs t] parseredirs_ok [of b "[]" s rs t] Inr assms by (simp add: redirs_ok_def)
qed

lemma fine_exec:
  assumes s: "s \<le> length b" and blk: "\<And>t. s \<le> t \<Longrightarrow> t \<le> length b \<Longrightarrow> fine b t (parseblock n b t)"
  shows "fine b s (parseexec (Suc n) b s)"
proof -
  obtain f s1 where p: "peek b s [40] = (f, s1)" by fastforce
  note b = peek_bounds [OF p s]
  have "fine b s (andthen (parseredirs b [] s1) (\<lambda>(rs, t). parseargs b [] rs t))"
    using b s by (intro fine_redirs) (auto intro: fine_mono [OF parseargs_fine])
  then show ?thesis using p b fine_mono [OF blk [of s1]] by auto
qed

lemma fine_block:
  assumes s: "s \<le> length b" and line: "\<And>t. s < t \<Longrightarrow> t \<le> length b \<Longrightarrow> fine b t (parseline n b t)"
  shows "fine b s (parseblock (Suc n) b s)"
proof -
  obtain f s1 where p: "peek b s [40] = (f, s1)" by fastforce
  note b = peek_bounds [OF p s]
  show ?thesis
  proof (cases f)
    case True
    have l: "fine b (past b s1) (parseline n b (past b s1))" using line b True by auto
    show ?thesis
    proof (cases "parseline n b (past b s1)")
      case (Inl e)
      then show ?thesis using l p True by (simp add: fine_simps)
    next
      case (Inr r)
      obtain c s2 g s3 where r: "r = (c, s2)" and q: "peek b s2 [41] = (g, s3)" by fastforce
      have 2: "past b s1 \<le> s2" "s2 \<le> length b" "list_all (is_word b) (cmd_words c)" using l Inr r by (simp_all add: fine_simps)
      note b' = peek_bounds [OF q 2(2)]
      have "fine b s (andthen (parseredirs b [] (past b s3)) (\<lambda>(rs, t). Inr (wrap c rs, t)))" if g
        using b b' 2 True that by (intro fine_redirs) (auto simp: fine_simps intro: fine_words)
      then show ?thesis using p q True Inr r by (simp add: fine_simps)
    qed
  qed (use p in \<open>simp add: fine_simps\<close>)
qed

text \<open>The fuel that each function needs at a position: four for every byte that is left, and its place in the chain of calls.\<close>

lemma parse_fine:
  "s \<le> length b \<Longrightarrow>
    (4 * (length b - s) + 4 \<le> n \<longrightarrow> fine b s (parseline n b s)) \<and>
    (4 * (length b - s) + 3 \<le> n \<longrightarrow> fine b s (parsepipe n b s)) \<and>
    (4 * (length b - s) + 2 \<le> n \<longrightarrow> fine b s (parseexec n b s)) \<and>
    (4 * (length b - s) + 1 \<le> n \<longrightarrow> fine b s (parseblock n b s))"
proof (induction n arbitrary: s)
  case (Suc n)
  have line: "fine b t (parseline n b t)" if "t \<le> length b" "4 * (length b - t) + 4 \<le> n" for t using Suc.IH [of t] that by blast
  have pipe: "fine b t (parsepipe n b t)" if "t \<le> length b" "4 * (length b - t) + 3 \<le> n" for t using Suc.IH [of t] that by blast
  have exec: "fine b t (parseexec n b t)" if "t \<le> length b" "4 * (length b - t) + 2 \<le> n" for t using Suc.IH [of t] that by blast
  have blk: "fine b t (parseblock n b t)" if "t \<le> length b" "4 * (length b - t) + 1 \<le> n" for t using Suc.IH [of t] that by blast
  show ?case using Suc.prems
    by (intro conjI impI fine_line fine_pipe fine_exec fine_block line pipe exec blk) simp_all
qed simp

text \<open>
  C35. The shell parses every command line: the recursion of the parser ends for every input, within the depth that \<open>parsecmd\<close>
  provides, with a command or with one of its error messages, and the words of the command are words of the line.
\<close>

theorem parsecmd_terminates:
  "parsecmd b \<noteq> Inl Diverge \<and> (\<forall>c b'. parsecmd b = Inr (c, b') \<longrightarrow> list_all (is_word b) (cmd_words c))"
proof -
  have "fine b 0 (parseline (parse_fuel b 0) b 0)"
    using parse_fine [of 0 b "parse_fuel b 0"] by (simp add: parse_fuel_def)
  then show ?thesis unfolding parsecmd_def
    by (cases "parseline (parse_fuel b 0) b 0") (auto simp: fine_def split: if_splits)
qed

theorem parsecmd_terminates_witness:
  "parsecmd [97] = Inr (EXEC [(0, 1)], [97]) \<and> list_all (is_word [97]) [(0, 1)]"
proof -
  have "parsecmd [97] = Inr (EXEC [(0, 1)], [97])" by code_simp
  then show ?thesis using parsecmd_terminates [of "[97]"] by simp
qed

end
