(* ===== verification/Shell_Roundtrip.thy ===== *)
theory Shell_Roundtrip
  imports Shell
begin

text \<open>
  The shell reads back what is written in its grammar: command lines as data, their text, and the proof that the parser of
  \<open>src/xv6/sh.c\<close> turns the text into the command that the line means.
\<close>

section \<open>The language of the parser\<close>

text \<open>
  Command lines as the grammar of the parser has them. A redirection is its operator (60, 62 or 43) and the file name; the
  number in a line counts its ampersands.
\<close>

type_synonym srd = "u8 \<times> u8 list"

datatype sline = SLine spipe nat "sline option"
  and spipe = SPipe sexec "spipe option"
  and sexec = SSimple "u8 list list" "srd list" | SBlock sline "srd list"

definition rd_mean :: "srd \<Rightarrow> u8 list \<times> u32 \<times> nat" where
  "rd_mean r = (if fst r = 60 then (snd r, O_RDONLY, 0) else (snd r, O_WRONLY OR O_CREATE, 1))"

text \<open>The command that a line means, over byte strings.\<close>

fun line_cmd :: "sline \<Rightarrow> u8 list cmd" and pipe_cmd :: "spipe \<Rightarrow> u8 list cmd" and exec_cmd :: "sexec \<Rightarrow> u8 list cmd" where
  "line_cmd (SLine p n None) = (BACK ^^ n) (pipe_cmd p)"
| "line_cmd (SLine p n (Some l)) = LIST ((BACK ^^ n) (pipe_cmd p)) (line_cmd l)"
| "pipe_cmd (SPipe e None) = exec_cmd e"
| "pipe_cmd (SPipe e (Some p)) = PIPE (exec_cmd e) (pipe_cmd p)"
| "exec_cmd (SSimple ws rs) = wrap (EXEC ws) (map rd_mean rs)"
| "exec_cmd (SBlock l rs) = wrap (line_cmd l) (map rd_mean rs)"

text \<open>Its tokens, with the words, and its text: every token followed by a blank.\<close>

type_synonym tok = "u8 \<times> u8 list"

definition rd_toks :: "srd list \<Rightarrow> tok list" where
  "rd_toks rs = concat (map (\<lambda>r. [(fst r, []), (97, snd r)]) rs)"

fun line_toks :: "sline \<Rightarrow> tok list" and pipe_toks :: "spipe \<Rightarrow> tok list" and exec_toks :: "sexec \<Rightarrow> tok list" where
  "line_toks (SLine p n None) = pipe_toks p @ replicate n (38, [])"
| "line_toks (SLine p n (Some l)) = pipe_toks p @ replicate n (38, []) @ (59, []) # line_toks l"
| "pipe_toks (SPipe e None) = exec_toks e"
| "pipe_toks (SPipe e (Some p)) = exec_toks e @ (124, []) # pipe_toks p"
| "exec_toks (SSimple ws rs) = map (Pair 97) ws @ rd_toks rs"
| "exec_toks (SBlock l rs) = (40, []) # line_toks l @ (41, []) # rd_toks rs"

definition tok_text :: "tok \<Rightarrow> u8 list" where
  "tok_text t = (if fst t = 97 then snd t else if fst t = 43 then [62, 62] else [fst t]) @ [32]"

definition line_text :: "sline \<Rightarrow> u8 list" where
  "line_text l = concat (map tok_text (line_toks l))"

text \<open>What the parser can read back: words without delimiters, at most nine of them in a command.\<close>

definition good_word :: "u8 list \<Rightarrow> bool" where
  "good_word w \<longleftrightarrow> w \<noteq> [] \<and> (\<forall>c \<in> set w. c \<noteq> 0 \<and> \<not> delimiter c)"

definition good_rd :: "srd \<Rightarrow> bool" where
  "good_rd r \<longleftrightarrow> fst r \<in> {60, 62, 43} \<and> good_word (snd r)"

fun good_line :: "sline \<Rightarrow> bool" and good_pipe :: "spipe \<Rightarrow> bool" and good_exec :: "sexec \<Rightarrow> bool" where
  "good_line (SLine p n None) = good_pipe p"
| "good_line (SLine p n (Some l)) = (good_pipe p \<and> good_line l)"
| "good_pipe (SPipe e None) = good_exec e"
| "good_pipe (SPipe e (Some p)) = (good_exec e \<and> good_pipe p)"
| "good_exec (SSimple ws rs) = (list_all good_word ws \<and> length ws < MAXARGS \<and> list_all good_rd rs)"
| "good_exec (SBlock l rs) = (good_line l \<and> list_all good_rd rs)"

section \<open>Lexing\<close>

definition slice_of :: "u8 list \<Rightarrow> word_t \<Rightarrow> u8 list" where
  "slice_of b w = take (snd w - fst w) (drop (fst w) b)"

text \<open>\<open>lexes b s ts\<close>: from \<open>s\<close> on the buffer holds the tokens \<open>ts\<close>.\<close>

inductive lexes :: "u8 list \<Rightarrow> nat \<Rightarrow> tok list \<Rightarrow> bool" for b where
  lex_end: "skipws b s = length b \<Longrightarrow> lexes b s []"
| lex_tok: "gettoken b s = (k, w, t) \<Longrightarrow> k \<noteq> 0 \<Longrightarrow> x = (if k = 97 then slice_of b w else []) \<Longrightarrow> lexes b t ts
    \<Longrightarrow> lexes b s ((k, x) # ts)"

inductive_cases lexes_Nil: "lexes b s []"
inductive_cases lexes_Cons: "lexes b s (t # ts)"

lemma lexes_ConsD:
  "lexes b s ((k, x) # ts) \<Longrightarrow> \<exists>w t. gettoken b s = (k, w, t) \<and> k \<noteq> 0 \<and> x = (if k = 97 then slice_of b w else []) \<and> lexes b t ts"
  by (erule lexes_Cons) blast

lemma gettoken_skipws [simp]: "gettoken b (skipws b s) = gettoken b s"
  by (simp add: gettoken_def)

lemma past_skipws [simp]: "past b (skipws b s) = past b s"
  by (simp add: past_def)

lemma skipws_length [simp]: "skipws b (length b) = length b"
  by (simp add: skipws.simps [of b "length b"])

lemma lexes_skipws [simp]: "lexes b (skipws b s) ts = lexes b s ts"
  by (rule iffI; cases ts) (auto elim!: lexes_Nil lexes_Cons intro!: lex_end lex_tok)

lemma lexes_past: "lexes b s (t # ts) \<Longrightarrow> lexes b (past b s) ts"
  by (auto elim!: lexes_Cons simp: past_def)

text \<open>The byte with which a token starts; words start with no symbol.\<close>

definition lead :: "tok list \<Rightarrow> u8" where
  "lead ts = (if ts = [] \<or> fst (hd ts) = 97 then 0 else if fst (hd ts) = 43 then 62 else fst (hd ts))"

lemma lead_Nil [simp]: "lead [] = 0"
  by (simp add: lead_def)

lemma lead_Cons [simp]: "lead ((k, x) # ts) = (if k = 97 then 0 else if k = 43 then 62 else k)"
  by (simp add: lead_def)

lemma peek_lexes:
  assumes l: "lexes b s ts" and t: "set toks \<subseteq> set symbols"
  shows "peek b s toks = (lead ts \<in> set toks, skipws b s)"
proof (cases ts)
  case Nil
  then have "skipws b s = length b" using l by (auto elim: lexes_Nil)
  then show ?thesis using Nil t by (auto simp: peek_def Let_def chr_at_def lead_def symbols_def)
next
  case (Cons x xs)
  then obtain w t' where g: "gettoken b s = (fst x, w, t')" "fst x \<noteq> 0" using l by (auto elim!: lexes_Cons)
  have "fst (token_at b (skipws b s)) = fst x" using g by (auto simp: gettoken_def Let_def split: prod.splits)
  then have "chr_at b (skipws b s) \<noteq> 0 \<and> chr_at b (skipws b s) \<in> set toks \<longleftrightarrow> lead ts \<in> set toks"
    using t g(2) Cons by (auto simp: token_at_def Let_def lead_def symbols_def split: if_splits)
  then show ?thesis by (simp add: peek_def Let_def)
qed

definition good_tok :: "tok \<Rightarrow> bool" where
  "good_tok t \<longleftrightarrow> fst t = 97 \<and> good_word (snd t) \<or> snd t = [] \<and> fst t \<in> {60, 62, 43, 124, 38, 59, 40, 41}"

lemma word_end_word:
  "(\<forall>c \<in> set w. \<not> delimiter c) \<Longrightarrow> word_end (pre @ w @ 32 # r) (length pre) = length pre + length w"
proof (induction w arbitrary: pre)
  case Nil
  then show ?case by (simp add: word_end.simps [of _ "length pre"] whitespace_def)
next
  case (Cons c w)
  then have "word_end (pre @ (c # w) @ 32 # r) (length pre) = word_end ((pre @ [c]) @ w @ 32 # r) (length (pre @ [c]))"
    by (simp add: word_end.simps [of _ "length pre"] delimiter_def)
  then show ?case using Cons.IH [of "pre @ [c]"] Cons.prems by simp
qed

lemma chr_at_append: "chr_at (pre @ c # r) (length pre) = c"
  by (simp add: chr_at_def)

lemma skipws_blank: "skipws (pre @ 32 # r) (length pre) = skipws (pre @ 32 # r) (Suc (length pre))"
  by (simp add: skipws.simps [of _ "length pre"] whitespace_def)

lemma skipws_stay: "c \<notin> set whitespace \<Longrightarrow> skipws (pre @ c # r) (length pre) = length pre"
  by (simp add: skipws.simps [of _ "length pre"])

lemma good_tok_gettoken:
  assumes "good_tok t"
  shows "\<exists>w e. gettoken (pre @ tok_text t @ r) (length pre) = (fst t, w, skipws (pre @ tok_text t @ r) e) \<and>
    snd t = (if fst t = 97 then slice_of (pre @ tok_text t @ r) w else []) \<and> Suc e = length (pre @ tok_text t) \<and>
    (pre @ tok_text t @ r) ! e = 32"
proof (cases "fst t = 97")
  case True
  then obtain c w where w: "snd t = c # w" "\<forall>x \<in> set (c # w). x \<noteq> 0 \<and> \<not> delimiter x"
    using assms by (auto simp: good_tok_def good_word_def neq_Nil_conv)
  have b: "pre @ tok_text t @ r = pre @ (c # w) @ 32 # r" using True w by (simp add: tok_text_def)
  have "c \<notin> set whitespace" "c \<notin> set symbols" "c \<noteq> 0" using w by (auto simp: delimiter_def)
  then have "token_at (pre @ (c # w) @ 32 # r) (length pre) = (97, length pre + length (c # w))"
    using word_end_word [of "c # w" pre r] w(2) chr_at_append [of pre c "w @ 32 # r"] by (auto simp: token_at_def Let_def symbols_def)
  moreover have "skipws (pre @ (c # w) @ 32 # r) (length pre) = length pre"
    using skipws_stay [of c pre "w @ 32 # r"] \<open>c \<notin> set whitespace\<close> by simp
  ultimately show ?thesis unfolding b using True w
    by (intro exI [of _ "(length pre, length pre + length (c # w))"] exI [of _ "length pre + length (c # w)"])
      (simp add: gettoken_def Let_def tok_text_def slice_of_def nth_append)
next
  case False
  then obtain c cs where t: "tok_text t = c # cs @ [32]" "snd t = []" "c \<notin> set whitespace"
    "token_at (pre @ (c # cs) @ 32 # r) (length pre) = (fst t, length pre + length (c # cs))"
    using assms chr_at_append [of pre] chr_at_append [of "pre @ [62]"]
    by (fastforce simp: good_tok_def tok_text_def token_at_def Let_def whitespace_def chr_at_def nth_append)
  have b: "pre @ tok_text t @ r = pre @ (c # cs) @ 32 # r" using t by simp
  have "skipws (pre @ (c # cs) @ 32 # r) (length pre) = length pre"
    using skipws_stay [of c pre "cs @ 32 # r"] t(3) by simp
  then show ?thesis unfolding b using False t
    by (intro exI [of _ "(length pre, length pre + length (c # cs))"] exI [of _ "length pre + length (c # cs)"])
      (simp add: gettoken_def Let_def nth_append)
qed

lemma lexes_text: "list_all good_tok ts \<Longrightarrow> lexes (pre @ concat (map tok_text ts)) (length pre) ts"
proof (induction ts arbitrary: pre)
  case Nil
  then show ?case by (auto intro: lex_end)
next
  case (Cons t ts)
  let ?b = "pre @ tok_text t @ concat (map tok_text ts)"
  obtain w e where g: "gettoken ?b (length pre) = (fst t, w, skipws ?b e)"
    "snd t = (if fst t = 97 then slice_of ?b w else [])" "Suc e = length (pre @ tok_text t)" "?b ! e = 32"
    using good_tok_gettoken [of t pre "concat (map tok_text ts)"] Cons.prems by auto
  have "e < length ?b" using g(3) by simp
  then have "skipws ?b e = skipws ?b (Suc e)" using g(4) by (simp add: skipws.simps [of ?b e] whitespace_def)
  moreover have "lexes ?b (Suc e) ts" using Cons.IH [of "pre @ tok_text t"] Cons.prems g(3) by simp
  ultimately have l: "lexes ?b (skipws ?b e) ts" by simp
  have nz: "fst t \<noteq> 0" using Cons.prems by (auto simp: good_tok_def)
  show ?case using lex_tok [OF g(1) nz g(2) l] by simp
qed

section \<open>Parsing what was printed\<close>

lemma rd_toks_simps [simp]: "rd_toks [] = []" "rd_toks (r # rs) = (fst r, []) # (97, snd r) # rd_toks rs"
  by (simp_all add: rd_toks_def)

definition rd_slice :: "u8 list \<Rightarrow> redir \<Rightarrow> u8 list \<times> u32 \<times> nat" where
  "rd_slice b r = (slice_of b (fst r), snd r)"

lemma parseredirs_lexes:
  assumes "lexes b s (rd_toks rs @ rest)" and "list_all good_rd rs" and "lead rest \<notin> {60, 62}"
  shows "\<exists>rs' t. parseredirs b acc s = Inr (acc @ rs', t) \<and> map (rd_slice b) rs' = map rd_mean rs \<and> lexes b t rest"
  using assms
proof (induction rs arbitrary: s acc)
  case Nil
  then have "peek b s [60, 62] = (False, skipws b s)" using peek_lexes [of b s rest "[60, 62]"] by (simp add: symbols_def)
  then have "parseredirs b acc s = Inr (acc @ [], skipws b s)" by (simp add: parseredirs.simps [of b acc s])
  then show ?case using Nil by (intro exI [of _ "[]"] exI [of _ "skipws b s"]) simp
next
  case (Cons r rs)
  have l: "lexes b s ((fst r, []) # (97, snd r) # rd_toks rs @ rest)" using Cons.prems by simp
  obtain w1 s2 where g1: "gettoken b s = (fst r, w1, s2)" and l2: "lexes b s2 ((97, snd r) # rd_toks rs @ rest)"
    using lexes_ConsD [OF l] by blast
  obtain w s3 where g2: "gettoken b s2 = (97, w, s3)" "slice_of b w = snd r" and l3: "lexes b s3 (rd_toks rs @ rest)"
    using lexes_ConsD [OF l2] by auto
  have "peek b s [60, 62] = (True, skipws b s)"
    using peek_lexes [OF l, of "[60, 62]"] Cons.prems(2) by (auto simp: symbols_def lead_def good_rd_def)
  then have p: "parseredirs b acc s = parseredirs b (acc @ [redir_of (fst r) w]) s3"
    using g1 g2 by (simp add: parseredirs.simps [of b acc s])
  obtain rs' t where "parseredirs b (acc @ [redir_of (fst r) w]) s3 = Inr ((acc @ [redir_of (fst r) w]) @ rs', t)"
    "map (rd_slice b) rs' = map rd_mean rs" "lexes b t rest"
    using Cons.IH [OF l3, of "acc @ [redir_of (fst r) w]"] Cons.prems by auto
  moreover have "rd_slice b (redir_of (fst r) w) = rd_mean r" using g2 by (simp add: rd_slice_def redir_of_def rd_mean_def)
  ultimately show ?case using p by (intro exI [of _ "redir_of (fst r) w # rs'"] exI [of _ t]) simp
qed

text \<open>The tokens that may follow a simple command.\<close>

definition stops :: "tok list \<Rightarrow> bool" where
  "stops ts \<longleftrightarrow> ts = [] \<or> lead ts \<in> {124, 41, 38, 59}"

lemma parseargs_lexes:
  assumes "lexes b s (map (Pair 97) ws @ (if ws = [] then [] else rd_toks rs) @ rest)"
    and "list_all good_rd rs" and "length acc + length ws < MAXARGS" and "stops rest"
  shows "\<exists>ws' rs' t. parseargs b acc racc s = Inr (wrap (EXEC (acc @ ws')) (racc @ rs'), t) \<and> map (slice_of b) ws' = ws \<and>
    map (rd_slice b) rs' = (if ws = [] then [] else map rd_mean rs) \<and> lexes b t rest"
  using assms
proof (induction ws arbitrary: s acc racc)
  case Nil
  show ?case
  proof (cases "rest = []")
    case True
    then have "skipws b s = length b" using Nil.prems by (auto elim: lexes_Nil)
    then have "parseargs b acc racc s = Inr (wrap (EXEC acc) racc, length b)"
      by (simp add: parseargs.simps [of b acc racc s] peek_def gettoken_def token_at_def chr_at_def Let_def)
    then show ?thesis using True by (intro exI [of _ "[]"] exI [of _ "length b"]) (simp add: lex_end)
  next
    case False
    then have "peek b s [124, 41, 38, 59] = (True, skipws b s)"
      using Nil.prems peek_lexes [of b s rest "[124, 41, 38, 59]"] by (auto simp: stops_def symbols_def)
    then have "parseargs b acc racc s = Inr (wrap (EXEC acc) racc, skipws b s)" by (simp add: parseargs.simps [of b acc racc s])
    then show ?thesis using Nil.prems by (intro exI [of _ "[]"] exI [of _ "skipws b s"]) simp
  qed
next
  case (Cons x ws)
  obtain w s2 where g: "gettoken b s = (97, w, s2)" "slice_of b w = x" and l2: "lexes b s2 (map (Pair 97) ws @ rd_toks rs @ rest)"
    using lexes_ConsD [of b s 97 x "map (Pair 97) ws @ rd_toks rs @ rest"] Cons.prems(1) by auto
  have "peek b s [124, 41, 38, 59] = (False, skipws b s)"
    using peek_lexes [OF Cons.prems(1), of "[124, 41, 38, 59]"] by (simp add: symbols_def lead_def)
  then have p: "parseargs b acc racc s = (case parseredirs b racc s2 of Inl e \<Rightarrow> Inl e | Inr (rs, s3) \<Rightarrow> parseargs b (acc @ [w]) rs s3)"
    using g Cons.prems(3) by (simp add: parseargs.simps [of b acc racc s])
  have ld: "lead rest \<notin> {60, 62}" using Cons.prems(4) by (auto simp: stops_def)
  have "\<exists>rs1 s3. parseredirs b racc s2 = Inr (racc @ rs1, s3) \<and> map (rd_slice b) rs1 = (if ws = [] then map rd_mean rs else []) \<and>
      lexes b s3 (map (Pair 97) ws @ (if ws = [] then [] else rd_toks rs) @ rest)"
  proof (cases "ws = []")
    case True
    then show ?thesis using parseredirs_lexes [of b s2 rs rest racc] l2 Cons.prems(2) ld by simp
  next
    case False
    then have "lead (map (Pair 97) ws @ rd_toks rs @ rest) = 0" by (cases ws) (simp_all add: lead_def)
    then show ?thesis using parseredirs_lexes [of b s2 "[]" "map (Pair 97) ws @ rd_toks rs @ rest" racc] l2 False by simp
  qed
  then obtain rs1 s3 where r: "parseredirs b racc s2 = Inr (racc @ rs1, s3)" "map (rd_slice b) rs1 = (if ws = [] then map rd_mean rs else [])"
      "lexes b s3 (map (Pair 97) ws @ (if ws = [] then [] else rd_toks rs) @ rest)" by blast
  obtain ws' rs' t where "parseargs b (acc @ [w]) (racc @ rs1) s3 = Inr (wrap (EXEC ((acc @ [w]) @ ws')) ((racc @ rs1) @ rs'), t)"
    "map (slice_of b) ws' = ws" "map (rd_slice b) rs' = (if ws = [] then [] else map rd_mean rs)" "lexes b t rest"
    using Cons.IH [OF r(3), of "acc @ [w]" "racc @ rs1"] Cons.prems by auto
  then show ?case using p r(1,2) g(2) by (intro exI [of _ "w # ws'"] exI [of _ "rs1 @ rs'"] exI [of _ t]) auto
qed

definition yields :: "u8 list \<Rightarrow> (nat \<Rightarrow> (word_t cmd \<times> nat) result) \<Rightarrow> u8 list cmd \<Rightarrow> tok list \<Rightarrow> bool" where
  "yields b P C rest \<longleftrightarrow> (\<exists>c t n0. (\<forall>n \<ge> n0. P n = Inr (c, t)) \<and> map_cmd (slice_of b) c = C \<and> lexes b t rest)"

lemma yieldsI: "(\<And>n. n0 \<le> n \<Longrightarrow> P n = Inr (c, t)) \<Longrightarrow> map_cmd (slice_of b) c = C \<Longrightarrow> lexes b t rest \<Longrightarrow> yields b P C rest"
  unfolding yields_def by blast

lemma map_cmd_wrap: "map_cmd f (wrap c rs) = wrap (map_cmd f c) (map (\<lambda>(w, r). (f w, r)) rs)"
  unfolding wrap_def by (induction rs arbitrary: c) auto

lemma map_cmd_back: "map_cmd f ((BACK ^^ n) c) = (BACK ^^ n) (map_cmd f c)"
  by (induction n) simp_all

lemma rd_slice_eq: "rd_slice b = (\<lambda>(w, r). (slice_of b w, r))"
  by (simp add: fun_eq_iff rd_slice_def)

lemma parseback_lexes:
  "lexes b s (replicate n (38, []) @ rest) \<Longrightarrow> lead rest \<noteq> 38 \<Longrightarrow> \<exists>t. parseback b c s = ((BACK ^^ n) c, t) \<and> lexes b t rest"
proof (induction n arbitrary: c s)
  case 0
  then have "peek b s [38] = (False, skipws b s)" using peek_lexes [of b s rest "[38]"] by (simp add: symbols_def)
  then show ?case using 0 by (simp add: parseback.simps [of b c s])
next
  case (Suc n)
  then have "peek b s [38] = (True, skipws b s)" using peek_lexes [of b s _ "[38]"] by (simp add: symbols_def)
  then have "parseback b c s = parseback b (BACK c) (past b s)" by (simp add: parseback.simps [of b c s])
  moreover have "lexes b (past b s) (replicate n (38, []) @ rest)" using Suc.prems lexes_past by simp
  ultimately show ?case using Suc.IH [of "past b s" "BACK c"] Suc.prems by (simp add: funpow_swap1)
qed

lemma yields_simple:
  assumes "lexes b s (map (Pair 97) ws @ rd_toks rs @ rest)" and "good_exec (SSimple ws rs)" and "stops rest"
  shows "yields b (\<lambda>n. parseexec n b s) (exec_cmd (SSimple ws rs)) rest"
proof -
  have rd: "list_all good_rd rs" and ws: "length ws < MAXARGS" using assms(2) by auto
  have "lead (map (Pair 97) ws @ rd_toks rs @ rest) \<noteq> 40"
  proof (cases ws)
    case Nil
    then show ?thesis using assms(3) rd by (cases rs) (auto simp: stops_def good_rd_def)
  qed simp
  then have p: "peek b s [40] = (False, skipws b s)" using peek_lexes [OF assms(1), of "[40]"] by (simp add: symbols_def)
  have ld: "lead rest \<notin> {60, 62}" using assms(3) by (auto simp: stops_def)
  have "\<exists>rs1 s1. parseredirs b [] (skipws b s) = Inr (rs1, s1) \<and> map (rd_slice b) rs1 = (if ws = [] then map rd_mean rs else []) \<and>
      lexes b s1 (map (Pair 97) ws @ (if ws = [] then [] else rd_toks rs) @ rest)"
  proof (cases ws)
    case Nil
    then show ?thesis using parseredirs_lexes [of b "skipws b s" rs rest "[]"] assms(1) rd ld by auto
  next
    case (Cons w ws')
    then show ?thesis using parseredirs_lexes [of b "skipws b s" "[]" "map (Pair 97) ws @ rd_toks rs @ rest" "[]"] assms(1) by auto
  qed
  then obtain rs1 s1 where r: "parseredirs b [] (skipws b s) = Inr (rs1, s1)" "map (rd_slice b) rs1 = (if ws = [] then map rd_mean rs else [])"
    "lexes b s1 (map (Pair 97) ws @ (if ws = [] then [] else rd_toks rs) @ rest)" by blast
  obtain ws' rs' t where a: "parseargs b [] rs1 s1 = Inr (wrap (EXEC ws') (rs1 @ rs'), t)" "map (slice_of b) ws' = ws"
    "map (rd_slice b) rs' = (if ws = [] then [] else map rd_mean rs)" "lexes b t rest"
    using parseargs_lexes [OF r(3) rd _ assms(3), of "[]" rs1] ws by auto
  have "map (rd_slice b) (rs1 @ rs') = map rd_mean rs" using r(2) a(3) by auto
  then have "map_cmd (slice_of b) (wrap (EXEC ws') (rs1 @ rs')) = exec_cmd (SSimple ws rs)"
    using a(2) by (simp add: map_cmd_wrap flip: rd_slice_eq)
  moreover have "parseexec n b s = Inr (wrap (EXEC ws') (rs1 @ rs'), t)" if "1 \<le> n" for n
    using that p r(1) a(1) by (cases n) auto
  ultimately show ?thesis using a(4) by (intro yieldsI [of 1]) auto
qed

lemma yields_block:
  assumes lex: "lexes b s ((40, []) # line_toks l @ (41, []) # rd_toks rs @ rest)" and rd: "list_all good_rd rs" and "stops rest"
    and line: "\<And>s. lexes b s (line_toks l @ (41, []) # rd_toks rs @ rest) \<Longrightarrow>
      yields b (\<lambda>n. parseline n b s) (line_cmd l) ((41, []) # rd_toks rs @ rest)"
  shows "yields b (\<lambda>n. parseexec n b s) (exec_cmd (SBlock l rs)) rest"
proof -
  have p: "peek b s [40] = (True, skipws b s)" using peek_lexes [OF lex, of "[40]"] by (simp add: symbols_def)
  obtain c t n0 where l: "\<And>n. n \<ge> n0 \<Longrightarrow> parseline n b (past b s) = Inr (c, t)" "map_cmd (slice_of b) c = line_cmd l"
    "lexes b t ((41, []) # rd_toks rs @ rest)"
    using line [OF lexes_past [OF lex]] unfolding yields_def by blast
  have q: "peek b t [41] = (True, skipws b t)" using peek_lexes [OF l(3), of "[41]"] by (simp add: symbols_def)
  have ld: "lead rest \<notin> {60, 62}" using assms(3) by (auto simp: stops_def)
  obtain rs' t' where r: "parseredirs b [] (past b t) = Inr (rs', t')" "map (rd_slice b) rs' = map rd_mean rs" "lexes b t' rest"
    using parseredirs_lexes [OF lexes_past [OF l(3)] rd ld, of "[]"] by auto
  have "parseexec n b s = Inr (wrap c rs', t')" if n: "Suc (Suc n0) \<le> n" for n
  proof -
    obtain m where m: "n = Suc (Suc m)" "n0 \<le> m" using n by (metis Suc_le_D Suc_le_mono)
    have pp: "peek b (skipws b s) [40] = (True, skipws b s)" using p by (simp add: peek_def)
    show ?thesis using p pp q l(1) [OF m(2)] r(1) unfolding m(1) by simp
  qed
  moreover have "map_cmd (slice_of b) (wrap c rs') = exec_cmd (SBlock l rs)"
    using l(2) r(2) by (simp add: map_cmd_wrap flip: rd_slice_eq)
  ultimately show ?thesis using r(3) by (rule yieldsI)
qed

lemma yields_pipe:
  assumes exec: "yields b (\<lambda>n. parseexec n b s) C rest" and "lead rest \<noteq> 124"
  shows "yields b (\<lambda>n. parsepipe n b s) C rest"
proof -
  obtain c t n0 where e: "\<And>n. n \<ge> n0 \<Longrightarrow> parseexec n b s = Inr (c, t)" "map_cmd (slice_of b) c = C" "lexes b t rest"
    using exec unfolding yields_def by blast
  have p: "peek b t [124] = (False, skipws b t)" using peek_lexes [OF e(3), of "[124]"] assms(2) by (simp add: symbols_def)
  have "parsepipe n b s = Inr (c, skipws b t)" if "Suc n0 \<le> n" for n
    using that e(1) p by (cases n) auto
  then show ?thesis by (rule yieldsI) (use e in simp_all)
qed

lemma yields_pipes:
  assumes exec: "yields b (\<lambda>n. parseexec n b s) C ((124, []) # ts)"
    and pipe: "\<And>s. lexes b s ts \<Longrightarrow> yields b (\<lambda>n. parsepipe n b s) D rest"
  shows "yields b (\<lambda>n. parsepipe n b s) (PIPE C D) rest"
proof -
  obtain c t n0 where e: "\<And>n. n \<ge> n0 \<Longrightarrow> parseexec n b s = Inr (c, t)" "map_cmd (slice_of b) c = C" "lexes b t ((124, []) # ts)"
    using exec unfolding yields_def by blast
  have p: "peek b t [124] = (True, skipws b t)" using peek_lexes [OF e(3), of "[124]"] by (simp add: symbols_def)
  obtain d u n1 where d: "\<And>n. n \<ge> n1 \<Longrightarrow> parsepipe n b (past b t) = Inr (d, u)" "map_cmd (slice_of b) d = D" "lexes b u rest"
    using pipe [OF lexes_past [OF e(3)]] unfolding yields_def by blast
  have "parsepipe n b s = Inr (PIPE c d, u)" if "Suc (max n0 n1) \<le> n" for n
    using that e(1) d(1) p by (cases n) auto
  then show ?thesis by (rule yieldsI) (use e d in simp_all)
qed

lemma yields_line:
  assumes pipe: "yields b (\<lambda>n. parsepipe n b s) C (replicate k (38, []) @ rest)" and "lead rest \<notin> {38, 59}"
  shows "yields b (\<lambda>n. parseline n b s) ((BACK ^^ k) C) rest"
proof -
  obtain c t n0 where e: "\<And>n. n \<ge> n0 \<Longrightarrow> parsepipe n b s = Inr (c, t)" "map_cmd (slice_of b) c = C" "lexes b t (replicate k (38, []) @ rest)"
    using pipe unfolding yields_def by blast
  obtain u where u: "parseback b c t = ((BACK ^^ k) c, u)" "lexes b u rest" using parseback_lexes [OF e(3)] assms(2) by blast
  have p: "peek b u [59] = (False, skipws b u)" using peek_lexes [OF u(2), of "[59]"] assms(2) by (simp add: symbols_def)
  have "parseline n b s = Inr ((BACK ^^ k) c, skipws b u)" if "Suc n0 \<le> n" for n
    using that e(1) u(1) p by (cases n) auto
  then show ?thesis by (rule yieldsI) (use e u in \<open>simp_all add: map_cmd_back\<close>)
qed

lemma yields_lines:
  assumes pipe: "yields b (\<lambda>n. parsepipe n b s) C (replicate k (38, []) @ (59, []) # ts)"
    and line: "\<And>s. lexes b s ts \<Longrightarrow> yields b (\<lambda>n. parseline n b s) D rest"
  shows "yields b (\<lambda>n. parseline n b s) (LIST ((BACK ^^ k) C) D) rest"
proof -
  obtain c t n0 where e: "\<And>n. n \<ge> n0 \<Longrightarrow> parsepipe n b s = Inr (c, t)" "map_cmd (slice_of b) c = C"
    "lexes b t (replicate k (38, []) @ (59, []) # ts)"
    using pipe unfolding yields_def by blast
  obtain u where u: "parseback b c t = ((BACK ^^ k) c, u)" "lexes b u ((59, []) # ts)" using parseback_lexes [OF e(3)] by auto
  have p: "peek b u [59] = (True, skipws b u)" using peek_lexes [OF u(2), of "[59]"] by (simp add: symbols_def)
  obtain d v n1 where d: "\<And>n. n \<ge> n1 \<Longrightarrow> parseline n b (past b u) = Inr (d, v)" "map_cmd (slice_of b) d = D" "lexes b v rest"
    using line [OF lexes_past [OF u(2)]] unfolding yields_def by blast
  have "parseline n b s = Inr (LIST ((BACK ^^ k) c) d, v)" if "Suc (max n0 n1) \<le> n" for n
    using that e(1) u(1) d(1) p by (cases n) auto
  then show ?thesis by (rule yieldsI) (use e d in \<open>simp_all add: map_cmd_back\<close>)
qed

lemma parse_yields:
  "good_line l \<Longrightarrow> lexes b s (line_toks l @ rest) \<Longrightarrow> lead rest \<in> {0, 41} \<Longrightarrow> stops rest \<Longrightarrow>
    yields b (\<lambda>n. parseline n b s) (line_cmd l) rest"
  "good_pipe p \<Longrightarrow> lexes b s (pipe_toks p @ rest) \<Longrightarrow> lead rest \<noteq> 124 \<Longrightarrow> stops rest \<Longrightarrow>
    yields b (\<lambda>n. parsepipe n b s) (pipe_cmd p) rest"
  "good_exec e \<Longrightarrow> lexes b s (exec_toks e @ rest) \<Longrightarrow> stops rest \<Longrightarrow> yields b (\<lambda>n. parseexec n b s) (exec_cmd e) rest"
proof (induction l and p and e arbitrary: s rest and s rest and s rest rule: line_cmd_pipe_cmd_exec_cmd.induct)
  case (1 p n)
  have "stops (replicate n (38, []) @ rest)" using 1 by (cases n) (auto simp: stops_def)
  moreover have "lead (replicate n (38, []) @ rest) \<noteq> 124" using 1 by (cases n) auto
  ultimately show ?case using 1 by (auto intro!: yields_line)
next
  case (2 p n l)
  have "stops (replicate n (38, []) @ (59, []) # line_toks l @ rest)" by (cases n) (auto simp: stops_def)
  moreover have "lead (replicate n (38, []) @ (59, []) # line_toks l @ rest) \<noteq> 124" by (cases n) auto
  ultimately show ?case using 2 by (auto intro!: yields_lines)
next
  case (3 e)
  then show ?case by (auto intro!: yields_pipe)
next
  case (4 e p)
  have "stops ((124, []) # pipe_toks p @ rest)" by (simp add: stops_def)
  then show ?case using 4 by (auto intro!: yields_pipes)
next
  case (5 ws rs)
  then show ?case using yields_simple [of b s ws rs rest] by simp
next
  case (6 l rs)
  have "stops ((41, []) # rd_toks rs @ rest)" by (simp add: stops_def)
  then show ?case using 6 yields_block [of b s l rs rest] by auto
qed

section \<open>More fuel changes nothing\<close>

lemma andthen_mono:
  assumes "andthen r f \<noteq> Inl Diverge" and "r \<noteq> Inl Diverge \<Longrightarrow> r' = r" and "\<And>x. r = Inr x \<Longrightarrow> f x \<noteq> Inl Diverge \<Longrightarrow> f' x = f x"
  shows "andthen r' f' = andthen r f"
  using assms by (cases r) auto

lemma parse_mono:
  "(parseline n b s \<noteq> Inl Diverge \<longrightarrow> parseline (Suc n) b s = parseline n b s) \<and>
    (parsepipe n b s \<noteq> Inl Diverge \<longrightarrow> parsepipe (Suc n) b s = parsepipe n b s) \<and>
    (parseblock n b s \<noteq> Inl Diverge \<longrightarrow> parseblock (Suc n) b s = parseblock n b s) \<and>
    (parseexec n b s \<noteq> Inl Diverge \<longrightarrow> parseexec (Suc n) b s = parseexec n b s)"
proof (induction n arbitrary: s)
  case (Suc n)
  have line: "parseline (Suc n) b t = parseline n b t" if "parseline n b t \<noteq> Inl Diverge" for t using Suc that by blast
  have pipe: "parsepipe (Suc n) b t = parsepipe n b t" if "parsepipe n b t \<noteq> Inl Diverge" for t using Suc that by blast
  have block: "parseblock (Suc n) b t = parseblock n b t" if "parseblock n b t \<noteq> Inl Diverge" for t using Suc that by blast
  have exec: "parseexec (Suc n) b t = parseexec n b t" if "parseexec n b t \<noteq> Inl Diverge" for t using Suc that by blast
  have second: "andthen (parseline (Suc n) b t) f = andthen (parseline n b t) f" if "andthen (parseline n b t) f \<noteq> Inl Diverge" for t f
    using that line [of t] by (cases "parseline n b t") auto
  have second': "andthen (parsepipe (Suc n) b t) f = andthen (parsepipe n b t) f" if "andthen (parsepipe n b t) f \<noteq> Inl Diverge" for t f
    using that pipe [of t] by (cases "parsepipe n b t") auto
  show ?case
  proof (intro conjI impI)
    assume a: "parseline (Suc n) b s \<noteq> Inl Diverge"
    show "parseline (Suc (Suc n)) b s = parseline (Suc n) b s"
      unfolding parseline.simps(2) [of "Suc n" b s] parseline.simps(2) [of n b s]
      by (rule andthen_mono [OF a [unfolded parseline.simps(2)] pipe]) (auto split: prod.splits simp: second simp del: parseline.simps parsepipe.simps parseblock.simps parseexec.simps)
  next
    assume a: "parsepipe (Suc n) b s \<noteq> Inl Diverge"
    show "parsepipe (Suc (Suc n)) b s = parsepipe (Suc n) b s"
      unfolding parsepipe.simps(2) [of "Suc n" b s] parsepipe.simps(2) [of n b s]
      by (rule andthen_mono [OF a [unfolded parsepipe.simps(2)] exec]) (auto split: prod.splits simp: second' simp del: parseline.simps parsepipe.simps parseblock.simps parseexec.simps)
  next
    assume a: "parseblock (Suc n) b s \<noteq> Inl Diverge"
    then show "parseblock (Suc (Suc n)) b s = parseblock (Suc n) b s"
      unfolding parseblock.simps(2) [of "Suc n" b s] parseblock.simps(2) [of n b s] by (auto split: prod.splits simp: second simp del: parseline.simps parsepipe.simps parseblock.simps parseexec.simps)
  next
    assume a: "parseexec (Suc n) b s \<noteq> Inl Diverge"
    then show "parseexec (Suc (Suc n)) b s = parseexec (Suc n) b s"
      unfolding parseexec.simps(2) [of "Suc n" b s] parseexec.simps(2) [of n b s] by (auto split: prod.splits simp: block simp del: parseline.simps parsepipe.simps parseblock.simps parseexec.simps)
  qed
qed simp

lemma parseline_mono: "parseline n b s \<noteq> Inl Diverge \<Longrightarrow> n \<le> m \<Longrightarrow> parseline m b s = parseline n b s"
proof (induction m)
  case (Suc m)
  then show ?case using parse_mono [of m b s] by (cases "n = Suc m") auto
qed simp

section \<open>Terminated words\<close>

lemma zeros_length [simp]: "length (foldl (\<lambda>b (q, eq). b[eq := 0]) b ws) = length (b :: u8 list)"
  by (induction ws arbitrary: b) auto

lemma nth_zeros: "j < length b \<Longrightarrow> foldl (\<lambda>b (q, eq). b[eq := 0]) b ws ! j = (if j \<in> snd ` set ws then 0 else (b :: u8 list) ! j)"
  by (induction ws arbitrary: b) (auto simp: nth_list_update image_iff, force)

lemma word_terminated:
  assumes "list_all (is_word b) (cmd_words c)" and "w \<in> set (cmd_words c)" and "0 \<notin> set b"
  shows "word_at_nul (nulterminate c b) w = slice_of b w"
proof -
  let ?b = "nulterminate c b"
  have len: "length ?b = length b" by (simp add: nulterminate_def)
  have w: "is_word b v" if "v \<in> set (cmd_words c)" for v using assms(1) that by (simp add: list_all_iff)
  have keep: "?b ! j = b ! j" if "fst w \<le> j" "j < snd w" for j
  proof -
    have "j \<notin> snd ` set (cmd_words c)"
    proof
      assume "j \<in> snd ` set (cmd_words c)"
      then obtain v where "v \<in> set (cmd_words c)" "j = snd v" by blast
      then show False using w [of v] w [OF assms(2)] that by (auto simp: is_word_def)
    qed
    then show ?thesis using that w [OF assms(2)] by (simp add: nulterminate_def nth_zeros is_word_def)
  qed
  have zero: "?b ! snd w = 0" if "snd w < length b" using that assms(2) by (simp add: nulterminate_def nth_zeros)
  have "word_at_nul ?b w = take (snd w - fst w) (drop (fst w) ?b)" unfolding word_at_nul_def
  proof (rule takeWhile_eq_take_P_nth)
    fix i
    assume "i < snd w - fst w" "i < length (drop (fst w) ?b)"
    then show "drop (fst w) ?b ! i \<noteq> 0" using keep [of "fst w + i"] assms(3) len by (auto simp: in_set_conv_nth)
  next
    assume "snd w - fst w < length (drop (fst w) ?b)"
    then show "\<not> drop (fst w) ?b ! (snd w - fst w) \<noteq> 0" using zero w [OF assms(2)] len by (simp add: is_word_def)
  qed
  also have "\<dots> = slice_of b w" unfolding slice_of_def
    by (rule nth_equalityI) (use keep len w [OF assms(2)] in \<open>auto simp: is_word_def\<close>)
  finally show ?thesis .
qed

lemma set_cmd_words: "set_cmd c = set (cmd_words c)"
  by (induction c) auto

lemma good_rd_toks: "list_all good_rd rs \<Longrightarrow> list_all good_tok (rd_toks rs)"
  by (induction rs) (auto simp: good_rd_def good_tok_def)

lemma good_tok_symbols: "good_tok (38, [])" "good_tok (59, [])" "good_tok (124, [])" "good_tok (40, [])" "good_tok (41, [])"
  by (simp_all add: good_tok_def)

lemma good_tok_words: "list_all good_tok (map (Pair 97) ws) \<longleftrightarrow> list_all good_word ws"
  by (induction ws) (simp_all add: good_tok_def)

lemma list_all_replicate: "list_all P (replicate n x) \<longleftrightarrow> n = 0 \<or> P x"
  by (induction n) auto

lemma good_toks:
  "good_line l \<Longrightarrow> list_all good_tok (line_toks l)" "good_pipe p \<Longrightarrow> list_all good_tok (pipe_toks p)"
  "good_exec e \<Longrightarrow> list_all good_tok (exec_toks e)"
  by (induction l and p and e rule: line_cmd_pipe_cmd_exec_cmd.induct)
    (simp_all add: good_tok_symbols good_tok_words good_rd_toks list_all_replicate)

lemma good_text: "list_all good_tok ts \<Longrightarrow> 0 \<notin> set (concat (map tok_text ts))"
  by (induction ts) (auto simp: tok_text_def good_tok_def good_word_def)

text \<open>
  C13. The shell understands what it is meant to: every command line of its grammar (lists, pipelines, background commands, blocks
  in parentheses, at most nine words in a simple command, redirections), written out with blanks between the tokens, is parsed to
  the command it means, and after \<open>nulterminate\<close> the words of that command are the words that were written.
\<close>

theorem parse_printed:
  assumes "good_line l"
  shows "\<exists>c b. parsecmd (line_text l) = Inr (c, b) \<and> map_cmd (word_at_nul b) c = line_cmd l"
proof -
  let ?b = "line_text l"
  have toks: "list_all good_tok (line_toks l)" using assms good_toks(1) by blast
  have "lexes ?b 0 (line_toks l @ [])" using lexes_text [OF toks, of "[]"] by (simp add: line_text_def)
  then obtain c t n0 where c: "\<And>n. n \<ge> n0 \<Longrightarrow> parseline n ?b 0 = Inr (c, t)" "map_cmd (slice_of ?b) c = line_cmd l" "lexes ?b t []"
    using parse_yields(1) [OF assms, of ?b 0 "[]"] by (auto simp: stops_def yields_def)
  have f: "fine ?b 0 (parseline (parse_fuel ?b 0) ?b 0)"
    using parse_fine [of 0 ?b "parse_fuel ?b 0"] by (simp add: parse_fuel_def)
  then have "parseline (parse_fuel ?b 0) ?b 0 \<noteq> Inl Diverge" by (auto simp: fine_def)
  then have r: "parseline (parse_fuel ?b 0) ?b 0 = Inr (c, t)"
    using parseline_mono [of "parse_fuel ?b 0" ?b 0 "max n0 (parse_fuel ?b 0)"] c(1) [of "max n0 (parse_fuel ?b 0)"] by simp
  have "skipws ?b t = length ?b" using c(3) by (auto elim: lexes_Nil)
  then have p: "parsecmd ?b = Inr (c, nulterminate c ?b)" using r by (simp add: parsecmd_def peek_def)
  have "list_all (is_word ?b) (cmd_words c)" using f r by (simp add: fine_def)
  then have "map_cmd (word_at_nul (nulterminate c ?b)) c = map_cmd (slice_of ?b) c"
    using word_terminated good_text [OF toks] by (auto intro!: cmd.map_cong0 simp: set_cmd_words line_text_def)
  then show ?thesis using p c(2) by auto
qed

text \<open>\<open>( a | b > c & ) ; d\<close>.\<close>

theorem parse_printed_witness:
  "\<exists>c b. parsecmd (line_text (SLine (SPipe (SBlock (SLine (SPipe (SSimple [[97]] []) (Some (SPipe (SSimple [[98]] [(62, [99])]) None))) 1 None) []) None) 0
      (Some (SLine (SPipe (SSimple [[100]] []) None) 0 None)))) = Inr (c, b) \<and>
    map_cmd (word_at_nul b) c = LIST (BACK (PIPE (EXEC [[97]]) (REDIR (EXEC [[98]]) [99] (O_WRONLY OR O_CREATE) 1))) (EXEC [[100]])"
proof -
  let ?l = "SLine (SPipe (SBlock (SLine (SPipe (SSimple [[97]] []) (Some (SPipe (SSimple [[98]] [(62, [99])]) None))) 1 None) []) None) 0
      (Some (SLine (SPipe (SSimple [[100]] []) None) 0 None))"
  have "good_line ?l" by (simp add: good_rd_def good_word_def delimiter_def whitespace_def symbols_def MAXARGS_def)
  moreover have "line_cmd ?l = LIST (BACK (PIPE (EXEC [[97]]) (REDIR (EXEC [[98]]) [99] (O_WRONLY OR O_CREATE) 1))) (EXEC [[100]])"
    by (simp add: wrap_def rd_mean_def)
  ultimately show ?thesis using parse_printed [of ?l] by simp
qed

end
