(* ===== verification/Umalloc.thy ===== *)
theory Umalloc
  imports Prelude Linked
begin

text \<open>
  The allocator of the user library, \<open>src/xv6/umalloc.c\<close>: a circular list of free blocks in the order of their addresses, first
  fit, with neighbours joined by \<open>free\<close>. Addresses are counted in units of \<open>sizeof(Header)\<close> = 8 bytes, the unit of the
  pointer arithmetic of the code; 0 is the null pointer. The break is a multiple of the page size and grows by whole units.
\<close>

section \<open>State and operations\<close>

text \<open>\<open>a_ptr\<close> and \<open>a_size\<close> are the fields of the header at an address, \<open>a_base\<close> the address of the variable \<open>base\<close>.\<close>

record arena =
  a_ptr :: "nat \<Rightarrow> nat"
  a_size :: "nat \<Rightarrow> nat"
  freep :: nat
  brk :: nat
  a_base :: nat

text \<open>The loop of \<open>free\<close> that looks for the place of the block.\<close>

partial_function (option) free_find :: "arena \<Rightarrow> nat \<Rightarrow> nat \<Rightarrow> nat option" where
  "free_find s bp p =
    (if p < bp \<and> bp < a_ptr s p then Some p
     else if a_ptr s p \<le> p \<and> (p < bp \<or> bp < a_ptr s p) then Some p
     else free_find s bp (a_ptr s p))"

definition join_next :: "nat \<Rightarrow> nat \<Rightarrow> arena \<Rightarrow> arena" where
  "join_next bp p s =
    (if bp + a_size s bp = a_ptr s p
     then s\<lparr>a_size := (a_size s)(bp := a_size s bp + a_size s (a_ptr s p)), a_ptr := (a_ptr s)(bp := a_ptr s (a_ptr s p))\<rparr>
     else s\<lparr>a_ptr := (a_ptr s)(bp := a_ptr s p)\<rparr>)"

definition join_prev :: "nat \<Rightarrow> nat \<Rightarrow> arena \<Rightarrow> arena" where
  "join_prev bp p s =
    (if p + a_size s p = bp
     then s\<lparr>a_size := (a_size s)(p := a_size s p + a_size s bp), a_ptr := (a_ptr s)(p := a_ptr s bp)\<rparr>
     else s\<lparr>a_ptr := (a_ptr s)(p := bp)\<rparr>)"

definition free :: "nat \<Rightarrow> arena \<Rightarrow> arena option" where
  "free ap s =
    (let bp = ap - 1 in
     case free_find s bp (freep s) of
       None \<Rightarrow> None
     | Some p \<Rightarrow> Some ((join_prev bp p (join_next bp p s))\<lparr>freep := p\<rparr>))"

text \<open>
  \<open>grow b n\<close> says whether \<open>sbrk\<close> can move the break up by \<open>n\<close> units; it returns the old break. A size of 2 GB and more is a negative
  argument of \<open>sbrk\<close>.
\<close>

definition morecore :: "(nat \<Rightarrow> nat \<Rightarrow> bool) \<Rightarrow> nat \<Rightarrow> arena \<Rightarrow> (nat \<times> arena) result option" where
  "morecore grow nu s =
    (let nu = (if nu < 4096 then 4096 else nu) in
     if 2 ^ 28 \<le> nu then Some (Inl (Undefined ''sbrk''))
     else if \<not> grow (brk s) nu then Some (Inr (0, s))
     else
       let hp = brk s; s = s\<lparr>brk := brk s + nu, a_size := (a_size s)(hp := nu)\<rparr> in
       case free (hp + 1) s of None \<Rightarrow> None | Some s \<Rightarrow> Some (Inr (freep s, s)))"

definition malloc_cut :: "nat \<Rightarrow> nat \<Rightarrow> nat \<Rightarrow> arena \<Rightarrow> nat \<times> arena" where
  "malloc_cut n prevp p s =
    (if a_size s p = n then (p + 1, s\<lparr>a_ptr := (a_ptr s)(prevp := a_ptr s p), freep := prevp\<rparr>)
     else
       let sz = a_size s p - n; q = p + sz
       in (q + 1, s\<lparr>a_size := (a_size s)(p := sz, q := n), freep := prevp\<rparr>))"

partial_function (option) malloc_loop :: "(nat \<Rightarrow> nat \<Rightarrow> bool) \<Rightarrow> nat \<Rightarrow> nat \<Rightarrow> nat \<Rightarrow> arena \<Rightarrow> (nat \<times> arena) result option" where
  "malloc_loop grow n prevp p s =
    (if n \<le> a_size s p then Some (Inr (malloc_cut n prevp p s))
     else if p = freep s then
       (case morecore grow n s of
          None \<Rightarrow> None
        | Some (Inl e) \<Rightarrow> Some (Inl e)
        | Some (Inr (q, s')) \<Rightarrow> if q = 0 then Some (Inr (0, s')) else malloc_loop grow n q (a_ptr s' q) s')
     else malloc_loop grow n p (a_ptr s p) s)"

definition nunits :: "u32 \<Rightarrow> nat" where
  "nunits nbytes = unat ((nbytes + 8 - 1) div 8 + 1)"

definition malloc_init :: "arena \<Rightarrow> arena" where
  "malloc_init s =
    (if freep s = 0
     then s\<lparr>a_ptr := (a_ptr s)(a_base s := a_base s), freep := a_base s, a_size := (a_size s)(a_base s := 0)\<rparr> else s)"

definition malloc :: "(nat \<Rightarrow> nat \<Rightarrow> bool) \<Rightarrow> u32 \<Rightarrow> arena \<Rightarrow> (nat \<times> arena) result option" where
  "malloc grow nbytes s =
    (let n = nunits nbytes; s = malloc_init s in malloc_loop grow n (freep s) (a_ptr s (freep s)) s)"

section \<open>The invariant\<close>

definition apart :: "(nat \<Rightarrow> nat) \<Rightarrow> nat \<Rightarrow> nat \<Rightarrow> bool" where
  "apart sz a b \<longleftrightarrow> a < b \<and> a + sz a \<le> b"

text \<open>\<open>ys\<close> are the addresses of the list in ascending order; the variable \<open>base\<close> is the first.\<close>

definition arena_ok :: "arena \<Rightarrow> nat list \<Rightarrow> bool" where
  "arena_ok s ys \<longleftrightarrow>
    0 < a_base s \<and> ys \<noteq> [] \<and> hd ys = a_base s \<and> a_size s (a_base s) = 0 \<and> (\<forall>a \<in> set (tl ys). 0 < a_size s a) \<and>
    sorted_wrt (apart (a_size s)) ys \<and> linked (a_ptr s) (ys @ [a_base s]) \<and> freep s \<in> set ys \<and>
    (\<forall>a \<in> set ys. a + a_size s a \<le> brk s) \<and> a_base s < brk s"

definition block :: "arena \<Rightarrow> nat \<Rightarrow> nat set" where
  "block s a = {a..<a + a_size s a}"

definition units :: "arena \<Rightarrow> nat list \<Rightarrow> nat set" where
  "units s ys = (\<Union>a \<in> set ys. block s a)"

section \<open>free\<close>

lemma linked_ConsI: "linked f (x # ys) \<longleftrightarrow> (ys = [] \<or> f x = hd ys) \<and> linked f ys"
  by (cases ys) auto

lemma linked_suffix: "linked f (ws @ xs) \<Longrightarrow> linked f xs"
  by (induction ws) (auto simp: linked_ConsI)

lemma linked_prefix: "linked f (xs @ ws) \<Longrightarrow> linked f xs"
  by (induction xs) (auto simp: linked_ConsI hd_append split: if_splits)

lemma free_find_before:
  assumes "linked (a_ptr s) (xs @ p # vs @ [a_base s])" and "sorted_wrt (<) (xs @ [p])" and "p < bp" and "\<forall>v \<in> set vs. bp < v"
    and "a_base s \<le> p"
  shows "free_find s bp (hd (xs @ [p])) = Some p"
  using assms
proof (induction xs)
  case Nil
  then have "a_ptr s p = hd (vs @ [a_base s])" by (simp add: linked_ConsI)
  then show ?case using Nil by (cases vs) (auto simp: free_find.simps [of s bp p])
next
  case (Cons x xs)
  have n: "a_ptr s x = hd (xs @ [p])" using Cons.prems(1) by (cases xs) (auto simp: linked_ConsI)
  have "x < hd (xs @ [p])" "hd (xs @ [p]) \<le> p" using Cons.prems(2) by (cases xs; auto)+
  then have "free_find s bp x = free_find s bp (hd (xs @ [p]))"
    using n Cons.prems(3) by (subst free_find.simps) auto
  moreover have "linked (a_ptr s) (xs @ p # vs @ [a_base s])" using Cons.prems(1) by (simp add: linked_ConsI)
  ultimately show ?case using Cons by simp
qed

lemma free_find_after:
  assumes "linked (a_ptr s) (vs @ [a_base s])" and "sorted_wrt (<) vs" and "vs \<noteq> []" and "\<forall>v \<in> set vs. bp < v" and "a_base s < bp"
  shows "free_find s bp (hd vs) = free_find s bp (a_base s)"
  using assms
proof (induction vs)
  case (Cons v vs)
  show ?case
  proof (cases "vs = []")
    case True
    then have "a_ptr s v = a_base s" using Cons.prems by simp
    then show ?thesis using Cons.prems by (simp, subst free_find.simps) auto
  next
    case False
    then have "a_ptr s v = hd vs" "v < hd vs" using Cons.prems by (auto simp: linked_ConsI)
    then have "free_find s bp v = free_find s bp (hd vs)" using Cons.prems by (subst free_find.simps) auto
    moreover have "linked (a_ptr s) (vs @ [a_base s])" using Cons.prems(1) by (simp add: linked_ConsI)
    ultimately show ?thesis using Cons False by simp
  qed
qed simp

lemma apart_less: "sorted_wrt (apart sz) ys \<Longrightarrow> sorted_wrt (<) ys"
  by (rule sorted_wrt_mono_rel) (auto simp: apart_def)

lemma split_at:
  assumes "sorted_wrt (<) ys" and "ys \<noteq> []" and "hd ys < (bp :: nat)" and "bp \<notin> set ys"
  shows "\<exists>us p vs. ys = us @ p # vs \<and> p < bp \<and> (\<forall>v \<in> set vs. bp < v)"
  using assms
proof (induction ys)
  case (Cons y ys)
  show ?case
  proof (cases "ys = [] \<or> bp < hd ys")
    case True
    then have "\<forall>v \<in> set ys. bp < v" using Cons.prems by (cases ys) auto
    then show ?thesis using Cons.prems by (intro exI [of _ "[]"] exI [of _ y] exI [of _ ys]) simp
  next
    case False
    then have "hd ys < bp" using Cons.prems by (cases ys) auto
    then obtain us p vs where "ys = us @ p # vs \<and> p < bp \<and> (\<forall>v \<in> set vs. bp < v)" using Cons False by auto
    then show ?thesis by (intro exI [of _ "y # us"] exI [of _ p] exI [of _ vs]) simp
  qed
qed simp

text \<open>The loop ends at the block before the new one, wherever in the list it starts.\<close>

lemma free_find_place:
  assumes ok: "arena_ok s ys" and bp: "a_base s < bp" "bp \<notin> set ys"
  shows "\<exists>us p vs. ys = us @ p # vs \<and> p < bp \<and> (\<forall>v \<in> set vs. bp < v) \<and> free_find s bp (freep s) = Some p"
proof -
  have ys: "sorted_wrt (<) ys" "ys \<noteq> []" "hd ys = a_base s" "linked (a_ptr s) (ys @ [a_base s])" "freep s \<in> set ys"
    using ok apart_less by (auto simp: arena_ok_def)
  obtain us p vs where p: "ys = us @ p # vs" "p < bp" "\<forall>v \<in> set vs. bp < v" using split_at [of ys bp] ys bp by auto
  have "a_base s \<le> p" using ys p(1) by (cases us) auto
  have start: "free_find s bp (hd (xs @ [p])) = Some p" if "us = ws @ xs" for ws xs
  proof (rule free_find_before)
    show "linked (a_ptr s) (xs @ p # vs @ [a_base s])"
      using linked_suffix [of "a_ptr s" ws "xs @ p # vs @ [a_base s]"] ys(4) unfolding p(1) that by simp
    show "sorted_wrt (<) (xs @ [p])" using ys(1) unfolding p(1) that by (simp add: sorted_wrt_append)
  qed (use p(2,3) \<open>a_base s \<le> p\<close> in simp_all)
  have base: "free_find s bp (a_base s) = Some p" using start [of "[]" us] ys(3) p(1) by (cases us) auto
  consider "freep s \<in> set (us @ [p])" | "freep s \<in> set vs" using ys(5) p(1) by auto
  then have "free_find s bp (freep s) = Some p"
  proof cases
    case 1
    then obtain ws xs where "us @ [p] = ws @ freep s # xs" by (meson split_list)
    then have "us = ws @ butlast (freep s # xs)" "hd (butlast (freep s # xs) @ [p]) = freep s"
      by (metis butlast_append butlast_snoc list.distinct(1), metis append_butlast_last_id last_append last_snoc list.distinct(1) list.sel(1))
    then show ?thesis using start by metis
  next
    case 2
    then obtain ws xs where v: "vs = ws @ freep s # xs" by (meson split_list)
    have "free_find s bp (hd (freep s # xs)) = free_find s bp (a_base s)"
    proof (rule free_find_after)
      show "linked (a_ptr s) ((freep s # xs) @ [a_base s])"
        using linked_suffix [of "a_ptr s" "us @ p # ws" "(freep s # xs) @ [a_base s]"] ys(4) unfolding p(1) v by simp
      show "sorted_wrt (<) (freep s # xs)" using ys(1) unfolding p(1) v by (simp add: sorted_wrt_append)
      show "\<forall>v \<in> set (freep s # xs). bp < v" using p(3) unfolding v by simp
    qed (use bp in auto)
    then show ?thesis using base by simp
  qed
  then show ?thesis using p by blast
qed

lemma sorted_apart_cong: "(\<And>a. a \<in> set ys \<Longrightarrow> sz' a = sz a) \<Longrightarrow> sorted_wrt (apart sz') ys = sorted_wrt (apart sz) ys"
  by (induction ys) (auto simp: apart_def)

lemma arena_sizes: "arena_ok s ys \<Longrightarrow> a \<in> set ys \<Longrightarrow> a \<noteq> a_base s \<Longrightarrow> 0 < a_size s a"
  by (cases ys) (auto simp: arena_ok_def)

lemma arena_base_in: "arena_ok s ys \<Longrightarrow> a_base s \<in> set ys"
  using hd_in_set [of ys] by (simp add: arena_ok_def)

lemma arena_pos: "arena_ok s ys \<Longrightarrow> a \<in> set ys \<Longrightarrow> 0 < a"
  using apart_less [of "a_size s" ys] by (cases ys) (auto simp: arena_ok_def)

lemma arena_distinct: "arena_ok s ys \<Longrightarrow> distinct ys"
  using apart_less strict_sorted_iff by (auto simp: arena_ok_def)

text \<open>A new block lies between its neighbours.\<close>

lemma block_fits:
  assumes ok: "arena_ok s (us @ p # vs)" and bp: "p < bp" "\<forall>v \<in> set vs. bp < v" "0 < a_size s bp"
    and dis: "block s bp \<inter> units s (us @ p # vs) = {}"
  shows "p + a_size s p \<le> bp" and "v \<in> set vs \<Longrightarrow> bp + a_size s bp \<le> v" and "x \<in> set us \<Longrightarrow> x < p \<and> x + a_size s x \<le> p"
proof -
  have "bp \<in> block s bp" using bp(3) by (simp add: block_def)
  then have "bp \<notin> block s p" using dis by (auto simp: units_def)
  then show "p + a_size s p \<le> bp" using bp(1) by (auto simp: block_def)
  show "bp + a_size s bp \<le> v" if "v \<in> set vs"
  proof -
    have "hd (us @ p # vs) = a_base s" "sorted_wrt (<) (us @ p # vs)" using ok apart_less by (auto simp: arena_ok_def)
    then have "v \<noteq> a_base s" using that bp by (cases us) (auto simp: sorted_wrt_append)
    then have "v \<in> block s v" using arena_sizes [OF ok, of v] that by (simp add: block_def)
    then have "v \<notin> block s bp" using dis that by (auto simp: units_def)
    then show ?thesis using bp(2) that by (auto simp: block_def)
  qed
  show "x < p \<and> x + a_size s x \<le> p" if "x \<in> set us"
    using ok that by (auto simp: arena_ok_def sorted_wrt_append apart_def)
qed

definition set_hdr :: "nat \<Rightarrow> nat \<Rightarrow> nat \<Rightarrow> arena \<Rightarrow> arena" where
  "set_hdr a sz nx s = s\<lparr>a_size := (a_size s)(a := sz), a_ptr := (a_ptr s)(a := nx)\<rparr>"

lemma set_hdr_simps [simp]:
  "a_size (set_hdr a sz nx s) = (a_size s)(a := sz)" "a_ptr (set_hdr a sz nx s) = (a_ptr s)(a := nx)"
  "freep (set_hdr a sz nx s) = freep s" "brk (set_hdr a sz nx s) = brk s" "a_base (set_hdr a sz nx s) = a_base s"
  by (simp_all add: set_hdr_def)

lemma join_next_eq:
  assumes "a_ptr s p = hd (vs @ [a_base s])" and "\<forall>v \<in> set vs. bp < v" and "a_base s < bp"
    and "linked (a_ptr s) (vs @ [a_base s])"
  shows "\<exists>z ws. join_next bp p s = set_hdr bp z (hd (ws @ [a_base s])) s \<and>
    (ws = vs \<and> z = a_size s bp \<or> (\<exists>v. vs = v # ws \<and> bp + a_size s bp = v \<and> z = a_size s bp + a_size s v))"
proof (cases "bp + a_size s bp = a_ptr s p")
  case True
  then obtain v ws where v: "vs = v # ws" using assms by (cases vs) auto
  then have "a_ptr s v = hd (ws @ [a_base s])" using assms(4) by (simp add: linked_ConsI)
  then show ?thesis using True assms v
    by (intro exI [of _ "a_size s bp + a_size s v"] exI [of _ ws]) (simp add: join_next_def set_hdr_def)
next
  case False
  then show ?thesis using assms
    by (intro exI [of _ "a_size s bp"] exI [of _ vs]) (simp add: join_next_def set_hdr_def)
qed

lemma linked_upd2: "x \<notin> set ws \<Longrightarrow> y \<notin> set ws \<Longrightarrow> linked (f(x := a, y := b)) (ws @ [e]) = linked f (ws @ [e])"
  by (rule linked_cong) auto

text \<open>Inserting a block with its neighbours joined, in the four cases.\<close>

lemma insert_ok:
  assumes ok: "arena_ok s (us @ p # vs)" and bp: "p < bp" "\<forall>v \<in> set vs. bp < v" "0 < a_size s bp" "bp + a_size s bp \<le> brk s"
    and dis: "block s bp \<inter> units s (us @ p # vs) = {}"
    and ws: "ws = vs \<and> z = a_size s bp \<or> (\<exists>v. vs = v # ws \<and> bp + a_size s bp = v \<and> z = a_size s bp + a_size s v)"
  shows "arena_ok ((set_hdr p (a_size s p) bp (set_hdr bp z (hd (ws @ [a_base s])) s))\<lparr>freep := p\<rparr>) (us @ p # bp # ws)"
proof -
  let ?s = "(set_hdr p (a_size s p) bp (set_hdr bp z (hd (ws @ [a_base s])) s))\<lparr>freep := p\<rparr>"
  note fits = block_fits [OF ok bp(1,2,3) dis]
  have old: "sorted_wrt (apart (a_size s)) (us @ p # vs)" "linked (a_ptr s) (us @ p # vs @ [a_base s])" "distinct (us @ p # vs)"
    using ok arena_distinct [OF ok] by (auto simp: arena_ok_def)
  have wv: "set ws \<subseteq> set vs" using ws by auto
  have nin: "bp \<notin> set (us @ p # vs)" using bp(1,2) fits(3) by force
  have pn: "p \<notin> set ws" "bp \<notin> set ws" "p \<notin> set us" "bp \<notin> set us" using old(3) nin wv by auto
  have bw: "w \<in> set ws \<Longrightarrow> bp < w" for w using bp(2) wv by blast
  have z: "bp + z \<le> w" if "w \<in> set ws" for w
    using ws that fits(2) old(1) by (auto simp: sorted_wrt_append apart_def add.assoc)
  have "linked (a_ptr s) (ws @ [a_base s])"
    using ws old(2) linked_suffix [of "a_ptr s" "us @ [p]" "vs @ [a_base s]"] by (auto simp: linked_ConsI)
  then have "linked (a_ptr ?s) (ws @ [a_base s])"
    by (simp add: linked_upd2 pn)
  moreover have "linked (a_ptr s) (us @ [p])" using old(2) linked_prefix [of "a_ptr s" "us @ [p]" "vs @ [a_base s]"] by simp
  then have "linked (a_ptr ?s) (us @ [p])"
    by (simp add: linked_upd2 pn)
  ultimately have lk: "linked (a_ptr ?s) ((us @ p # bp # ws) @ [a_base s])"
    using linked_append [of "a_ptr ?s" us p "bp # ws @ [a_base s]"] nin by (auto simp: linked_ConsI [of _ p] linked_ConsI [of _ bp])
  have "sorted_wrt (apart (a_size ?s)) (us @ p # bp # ws)"
  proof -
    have "sorted_wrt (apart (a_size s)) us" "sorted_wrt (apart (a_size s)) ws" using old(1) ws by (auto simp: sorted_wrt_append)
    then have "sorted_wrt (apart (a_size ?s)) us" "sorted_wrt (apart (a_size ?s)) ws"
      using old(3) nin wv by (subst sorted_apart_cong [of _ _ "a_size s"]; auto)+
    moreover have "apart (a_size ?s) x y" if "x \<in> set us" "y \<in> {p, bp} \<union> set ws" for x y
      using that fits(3) [of x] bp(1) bw [of y] pn by (auto simp: apart_def)
    moreover have "apart (a_size ?s) p y" if "y \<in> insert bp (set ws)" for y
      using that fits(1) bp(1) bw [of y] pn by (auto simp: apart_def)
    moreover have "apart (a_size ?s) bp w" if "w \<in> set ws" for w
      using that z bp(1) bw [of w] by (auto simp: apart_def)
    ultimately show ?thesis by (auto simp: sorted_wrt_append)
  qed
  moreover have "hd (us @ p # bp # ws) = a_base s" using ok by (cases us) (auto simp: arena_ok_def)
  moreover have "a_size s (a_base s) = 0" "0 < a_base s" "a_base s < brk s" using ok by (auto simp: arena_ok_def)
  moreover have "a_base s \<noteq> bp" using ok nin by (cases us) (auto simp: arena_ok_def)
  moreover have "\<forall>a \<in> set (tl (us @ p # bp # ws)). 0 < a_size ?s a"
  proof -
    have "set (tl (us @ p # bp # ws)) \<subseteq> insert bp (set (tl (us @ p # vs)))" using wv by (cases us) auto
    moreover have "\<forall>a \<in> set (tl (us @ p # vs)). 0 < a_size s a" using ok by (simp add: arena_ok_def)
    moreover have "0 < z" using ws bp(3) by auto
    ultimately show ?thesis using bp(1) by auto
  qed
  moreover have "\<forall>a \<in> set (us @ p # bp # ws). a + a_size ?s a \<le> brk ?s"
  proof -
    have b: "\<forall>a \<in> set (us @ p # vs). a + a_size s a \<le> brk s" using ok by (simp add: arena_ok_def)
    then have "bp + z \<le> brk s" using ws bp(4) by (auto simp: add.assoc)
    then show ?thesis using b wv by auto
  qed
  ultimately show ?thesis using lk by (auto simp: arena_ok_def)
qed

lemma units_simps [simp]: "units s [] = {}" "units s (a # ys) = block s a \<union> units s ys" "units s (xs @ ys) = units s xs \<union> units s ys"
  by (auto simp: units_def)

lemma units_cong: "(\<And>a. a \<in> set ys \<Longrightarrow> a_size s' a = a_size s a) \<Longrightarrow> units s' ys = units s ys"
  by (simp add: units_def block_def)

text \<open>Taking a block out of the list and giving its units to the block before it.\<close>

lemma merge_ok:
  assumes ok: "arena_ok s (us @ p # bp # ws)" and adj: "p + a_size s p = bp" and f: "freep s = p"
  shows "arena_ok (set_hdr p (a_size s p + a_size s bp) (a_ptr s bp) s) (us @ p # ws)"
    and "units (set_hdr p (a_size s p + a_size s bp) (a_ptr s bp) s) (us @ p # ws) = units s (us @ p # bp # ws)"
proof -
  let ?s = "set_hdr p (a_size s p + a_size s bp) (a_ptr s bp) s"
  have old: "sorted_wrt (apart (a_size s)) (us @ p # bp # ws)" "linked (a_ptr s) (us @ p # bp # ws @ [a_base s])"
    "distinct (us @ p # bp # ws)" using ok arena_distinct [OF ok] by (auto simp: arena_ok_def)
  have "p < bp" using old(1) by (simp add: sorted_wrt_append apart_def)
  then have pb: "p \<noteq> a_base s" using adj ok by (auto simp: arena_ok_def)
  have pn: "p \<notin> set ws" "p \<notin> set us" "bp \<notin> set ws" "bp \<notin> set us" "p \<noteq> bp" using old(3) by auto
  have "linked (a_ptr s) (bp # ws @ [a_base s])" "linked (a_ptr s) (us @ [p])"
    using linked_suffix [of "a_ptr s" "us @ [p]" "bp # ws @ [a_base s]"] linked_prefix [of "a_ptr s" "us @ [p]" "bp # ws @ [a_base s]"] old(2) by auto
  then have "linked (a_ptr ?s) (ws @ [a_base s])" "linked (a_ptr ?s) (us @ [p])" "a_ptr s bp = hd (ws @ [a_base s])"
    using pn linked_upd2 [of p ws p] linked_upd2 [of p us p] by (simp_all add: linked_ConsI [of _ bp])
  then have "linked (a_ptr ?s) ((us @ p # ws) @ [a_base s])"
    using linked_append [of "a_ptr ?s" us p "ws @ [a_base s]"] by (simp add: linked_ConsI [of _ p])
  moreover have "sorted_wrt (apart (a_size ?s)) (us @ p # ws)"
  proof -
    have "sorted_wrt (apart (a_size ?s)) us" "sorted_wrt (apart (a_size ?s)) ws"
      using old(1) pn by (subst sorted_apart_cong [of _ _ "a_size s"]; auto simp: sorted_wrt_append)+
    moreover have "apart (a_size ?s) x y" if "x \<in> set us" "y \<in> insert p (set ws)" for x y
      using that old(1) pn by (auto simp: apart_def sorted_wrt_append)
    moreover have "apart (a_size ?s) p w" if "w \<in> set ws" for w
      using that old(1) adj by (auto simp: apart_def sorted_wrt_append)
    ultimately show ?thesis by (auto simp: sorted_wrt_append)
  qed
  moreover have "hd (us @ p # ws) = a_base s" "us \<noteq> []" using ok pb by (cases us; auto simp: arena_ok_def)+
  moreover have "\<forall>a \<in> set (us @ p # ws). a + a_size ?s a \<le> brk s" using ok adj by (auto simp: arena_ok_def)
  ultimately show "arena_ok ?s (us @ p # ws)" using ok pb f by (auto simp: arena_ok_def)
  have "block ?s p = block s p \<union> block s bp" using adj by (auto simp: block_def)
  moreover have "units ?s us = units s us" "units ?s ws = units s ws" using pn by (auto intro!: units_cong)
  ultimately show "units ?s (us @ p # ws) = units s (us @ p # bp # ws)" by auto
qed

text \<open>
  The effect of \<open>free\<close>: it ends, the list is well formed again, its units are those of before and those of the block, and
  no header outside of them is written.
\<close>

lemma free_ok:
  assumes ok: "arena_ok s ys" and bp: "a_base s < bp" "0 < a_size s bp" "bp + a_size s bp \<le> brk s" and dis: "block s bp \<inter> units s ys = {}"
  shows "\<exists>s' ys'. free (bp + 1) s = Some s' \<and> arena_ok s' ys' \<and> units s' ys' = units s ys \<union> block s bp \<and>
    brk s' = brk s \<and> a_base s' = a_base s \<and> (\<forall>a. a \<notin> units s ys \<union> block s bp \<longrightarrow> a_size s' a = a_size s a) \<and>
    (\<exists>z \<in> set ys'. a_size s bp \<le> a_size s' z)"
proof -
  have self: "bp \<in> block s bp" using bp(2) by (simp add: block_def)
  have "bp \<notin> set ys"
  proof
    assume "bp \<in> set ys"
    then have "bp \<in> units s ys" using bp(2) by (auto simp: units_def block_def)
    then show False using dis self by auto
  qed
  then obtain us p vs where p: "ys = us @ p # vs" "p < bp" "\<forall>v \<in> set vs. bp < v" "free_find s bp (freep s) = Some p"
    using free_find_place [OF ok bp(1)] by blast
  note ok = ok [unfolded p(1)] and dis = dis [unfolded p(1)]
  have lk: "linked (a_ptr s) (us @ p # vs @ [a_base s])" using ok by (simp add: arena_ok_def)
  have "linked (a_ptr s) (p # vs @ [a_base s])" using linked_suffix [OF lk] .
  then obtain z ws where n: "join_next bp p s = set_hdr bp z (hd (ws @ [a_base s])) s"
    and ws: "ws = vs \<and> z = a_size s bp \<or> (\<exists>v. vs = v # ws \<and> bp + a_size s bp = v \<and> z = a_size s bp + a_size s v)"
    using join_next_eq [of s p vs bp] p(3) bp(1) by (auto simp: linked_ConsI)
  let ?s1 = "(set_hdr p (a_size s p) bp (set_hdr bp z (hd (ws @ [a_base s])) s))\<lparr>freep := p\<rparr>"
  have ok1: "arena_ok ?s1 (us @ p # bp # ws)" by (rule insert_ok [OF ok p(2,3) bp(2,3) dis ws])
  have nin: "bp \<notin> set us" "bp \<notin> set ws" "p \<noteq> bp" using arena_distinct [OF ok1] by auto
  have u1: "units ?s1 (us @ p # bp # ws) = units s (us @ p # vs) \<union> block s bp"
  proof -
    have "units ?s1 us = units s us" "units ?s1 ws = units s ws" "block ?s1 p = block s p"
      using nin by (auto intro!: units_cong simp: block_def)
    moreover have "block ?s1 bp \<union> units s ws = block s bp \<union> units s vs" using ws nin(3) by (auto simp: block_def)
    ultimately show ?thesis by auto
  qed
  have fr1: "a_size ?s1 a = a_size s a" if "a \<noteq> bp" for a using that nin(3) by auto
  have big: "a_size s bp \<le> a_size ?s1 bp" using ws nin(3) by auto
  show ?thesis
  proof (cases "p + a_size s p = bp")
    case True
    let ?s2 = "set_hdr p (a_size ?s1 p + a_size ?s1 bp) (a_ptr ?s1 bp) ?s1"
    have "free (bp + 1) s = Some ?s2"
      using p(4) n True nin(3) by (simp add: free_def join_prev_def set_hdr_def fun_upd_twist)
    moreover have adj: "p + a_size ?s1 p = bp" using True nin(3) by simp
    have "a \<noteq> p" if "a \<notin> units s (us @ p # vs) \<union> block s bp" for a
    proof -
      have "p \<in> block s p" using True p(2) by (auto simp: block_def)
      then show ?thesis using that by auto
    qed
    moreover have "a_size s bp \<le> a_size ?s2 p" using big by simp
    ultimately show ?thesis using merge_ok [OF ok1 adj] u1 self fr1 unfolding p(1)
      by (intro exI [of _ ?s2] exI [of _ "us @ p # ws"]) auto
  next
    case False
    have "((a_size s)(bp := z))(p := a_size s p) = (a_size s)(bp := z)" using nin(3) by (auto simp: fun_eq_iff)
    then have "free (bp + 1) s = Some ?s1"
      using p(4) n False nin(3) by (simp add: free_def join_prev_def set_hdr_def)
    then show ?thesis using ok1 u1 self fr1 big unfolding p(1)
      by (intro exI [of _ ?s1] exI [of _ "us @ p # bp # ws"]) auto
  qed
qed

section \<open>malloc\<close>

lemma linked_map: "linked f (ys @ [b]) \<Longrightarrow> map f ys = tl (ys @ [b])"
proof (induction ys)
  case (Cons y ys)
  then show ?case by (cases ys) auto
qed simp

lemma arena_ptr_inj: "arena_ok s ys \<Longrightarrow> inj_on (a_ptr s) (set ys)"
proof -
  assume ok: "arena_ok s ys"
  then have "map (a_ptr s) ys = tl ys @ [hd ys]" using linked_map [of "a_ptr s" ys "a_base s"] by (auto simp: arena_ok_def)
  moreover have "distinct (tl ys @ [hd ys])" using arena_distinct [OF ok] ok by (cases ys) (auto simp: arena_ok_def)
  ultimately show ?thesis by (metis distinct_map)
qed

text \<open>The list as the search goes through it: from the block after \<open>freep\<close> round to \<open>freep\<close>.\<close>

lemma ring_rotate:
  assumes "arena_ok s ys"
  shows "\<exists>zs. set zs = set ys \<and> distinct zs \<and> zs \<noteq> [] \<and> last zs = freep s \<and> linked (a_ptr s) (freep s # zs)"
proof -
  obtain us vs where ys: "ys = us @ freep s # vs" using assms by (auto simp: arena_ok_def in_set_conv_decomp)
  have lk: "linked (a_ptr s) (us @ freep s # vs @ [a_base s])" using assms ys by (simp add: arena_ok_def)
  have "linked (a_ptr s) (freep s # vs @ us @ [freep s])"
  proof (cases us)
    case Nil
    then show ?thesis using lk assms ys by (simp add: arena_ok_def)
  next
    case (Cons u us')
    then have "u = a_base s" using assms ys by (simp add: arena_ok_def)
    then show ?thesis
      using linked_suffix [OF lk] linked_prefix [of "a_ptr s" "us @ [freep s]"] lk Cons
        linked_append [of "a_ptr s" "freep s # vs" "a_base s" "us' @ [freep s]"] by simp
  qed
  then show ?thesis using arena_distinct [OF assms] ys by (intro exI [of _ "vs @ us @ [freep s]"]) auto
qed

definition retry :: "(nat \<Rightarrow> nat \<Rightarrow> bool) \<Rightarrow> nat \<Rightarrow> arena \<Rightarrow> (nat \<times> arena) result option" where
  "retry grow n s =
    (case morecore grow n s of
       None \<Rightarrow> None
     | Some (Inl e) \<Rightarrow> Some (Inl e)
     | Some (Inr (q, s')) \<Rightarrow> if q = 0 then Some (Inr (0, s')) else malloc_loop grow n q (a_ptr s' q) s')"

lemma malloc_loop_scan:
  assumes "linked (a_ptr s) (q # zs)" and "zs \<noteq> []" and "last zs = freep s" and "freep s \<notin> set (butlast zs)"
  shows "(\<exists>xs z ws. zs = xs @ z # ws \<and> n \<le> a_size s z \<and>
      malloc_loop grow n q (hd zs) s = Some (Inr (malloc_cut n (last (q # xs)) z s))) \<or>
    (\<forall>z \<in> set zs. a_size s z < n) \<and> malloc_loop grow n q (hd zs) s = retry grow n s"
  using assms
proof (induction zs arbitrary: q)
  case (Cons z zs)
  show ?case
  proof (cases "n \<le> a_size s z")
    case True
    then show ?thesis by (intro disjI1 exI [of _ "[]"] exI [of _ z] exI [of _ zs]) (simp add: malloc_loop.simps [of grow n q z s])
  next
    case False
    show ?thesis
    proof (cases "zs = []")
      case True
      then have "z = freep s" using Cons.prems by simp
      then have "malloc_loop grow n q z s = retry grow n s" using False by (subst malloc_loop.simps) (simp add: retry_def)
      then show ?thesis using True False by simp
    next
      case zs: False
      then have "z \<noteq> freep s" "a_ptr s z = hd zs" "linked (a_ptr s) (z # zs)" using Cons.prems by (auto simp: linked_ConsI)
      then have step: "malloc_loop grow n q z s = malloc_loop grow n z (hd zs) s"
        using False by (subst malloc_loop.simps) simp
      have "last zs = freep s" "freep s \<notin> set (butlast zs)" using Cons.prems zs by auto
      from Cons.IH [OF \<open>linked (a_ptr s) (z # zs)\<close> zs this] show ?thesis
      proof (elim disjE exE conjE)
        fix xs y ws
        assume "zs = xs @ y # ws" "n \<le> a_size s y" "malloc_loop grow n z (hd zs) s = Some (Inr (malloc_cut n (last (z # xs)) y s))"
        then show ?thesis using step by (intro disjI1 exI [of _ "z # xs"] exI [of _ y] exI [of _ ws]) simp
      qed (use step False in auto)
    qed
  qed
qed simp

lemma units_disjoint:
  assumes "arena_ok s (us @ z # vs)"
  shows "block s z \<inter> (units s us \<union> units s vs) = {}"
proof -
  have "sorted_wrt (apart (a_size s)) (us @ z # vs)" using assms by (simp add: arena_ok_def)
  then have "\<forall>x \<in> set us. x + a_size s x \<le> z" "\<forall>v \<in> set vs. z + a_size s z \<le> v" by (auto simp: sorted_wrt_append apart_def)
  then show ?thesis by (force simp: units_def block_def)
qed

definition cut_spec :: "nat \<Rightarrow> arena \<Rightarrow> nat list \<Rightarrow> nat \<times> arena \<Rightarrow> bool" where
  "cut_spec n s ys rs \<longleftrightarrow>
    (case rs of (r, s') \<Rightarrow> 1 < r \<and> a_size s' (r - 1) = n \<and> block s' (r - 1) \<subseteq> units s ys \<and> brk s' = brk s \<and> a_base s' = a_base s \<and>
      (\<exists>ys'. arena_ok s' ys' \<and> units s' ys' = units s ys - block s' (r - 1)) \<and> (\<forall>a. a \<notin> units s ys \<longrightarrow> a_size s' a = a_size s a))"

lemma linked_last: "linked f (us @ [z]) \<Longrightarrow> us \<noteq> [] \<Longrightarrow> f (last us) = z"
  by (induction us) (auto simp: linked_ConsI)

lemma malloc_cut_exact:
  assumes ok: "arena_ok s ys" and z: "z \<in> set ys" "a_size s z = n" "0 < n" and q: "q \<in> set ys" "a_ptr s q = z" "q \<noteq> z"
  shows "cut_spec n s ys (malloc_cut n q z s)"
proof -
  obtain us vs where ys: "ys = us @ z # vs" using z(1) by (auto simp: in_set_conv_decomp)
  have zb: "z \<noteq> a_base s" using ok z by (auto simp: arena_ok_def)
  then obtain as where us: "us = a_base s # as" using ok ys by (cases us) (auto simp: arena_ok_def)
  have dist: "distinct ys" using arena_distinct [OF ok] .
  have lk: "linked (a_ptr s) (a_base s # as @ z # vs @ [a_base s])" using ok ys us by (simp add: arena_ok_def)
  have "a_ptr s (last us) = z"
    using linked_prefix [of "a_ptr s" "us @ [z]" "vs @ [a_base s]"] lk us linked_last [of "a_ptr s" us z] by auto
  then have q': "q = last us" using arena_ptr_inj [OF ok] q ys us by (auto simp: inj_on_def)
  have nz: "a_ptr s z = hd (vs @ [a_base s])"
    using linked_suffix [of "a_ptr s" "a_base s # as" "z # vs @ [a_base s]"] lk by (simp add: linked_ConsI)
  let ?s = "s\<lparr>a_ptr := (a_ptr s)(q := a_ptr s z), freep := q\<rparr>"
  have "linked (a_ptr ?s) ((us @ vs) @ [a_base s])"
    using linked_unlink [OF lk] dist ys us q' nz by auto
  moreover have "q \<in> set (us @ vs)" using q' us by simp
  moreover have "sorted_wrt (apart (a_size s)) (us @ vs)" using ok ys by (auto simp: arena_ok_def sorted_wrt_append)
  ultimately have "arena_ok ?s (us @ vs)" using ok ys us by (auto simp: arena_ok_def)
  moreover have "units ?s (us @ vs) = units s ys - block s z"
    using units_disjoint [of s us z vs] ok ys by (auto simp: units_def block_def)
  moreover have "malloc_cut n q z s = (z + 1, ?s)" using z(2) by (simp add: malloc_cut_def)
  moreover have "0 < z" using ok ys us by (auto simp: arena_ok_def apart_def)
  ultimately show ?thesis using z ys unfolding cut_spec_def by (auto simp: block_def)
qed

lemma malloc_cut_split:
  assumes ok: "arena_ok s ys" and z: "z \<in> set ys" "n < a_size s z" "0 < n" and q: "q \<in> set ys"
  shows "cut_spec n s ys (malloc_cut n q z s)"
proof -
  obtain us vs where ys: "ys = us @ z # vs" using z(1) by (auto simp: in_set_conv_decomp)
  have zb: "z \<noteq> a_base s" using ok z by (auto simp: arena_ok_def)
  let ?d = "a_size s z - n"
  let ?c = "z + ?d"
  let ?s = "s\<lparr>a_size := (a_size s)(z := ?d, ?c := n), freep := q\<rparr>"
  have srt: "sorted_wrt (apart (a_size s)) (us @ z # vs)" using ok ys by (simp add: arena_ok_def)
  have "?c \<in> block s z" "?c \<noteq> z" using z by (auto simp: block_def)
  have side: "x < z" "x + a_size s x \<le> z" if "x \<in> set us" for x using srt that by (auto simp: sorted_wrt_append apart_def)
  have side': "z + a_size s z \<le> v" if "v \<in> set vs" for v using srt that by (auto simp: sorted_wrt_append apart_def)
  have keep: "a_size ?s x = a_size s x" if "x \<in> set us \<union> set vs" for x
    using that side [of x] side' [of x] z by auto
  have c: "?c \<notin> set ys" using side side' z \<open>?c \<noteq> z\<close> by (force simp: ys)
  have "sorted_wrt (apart (a_size ?s)) ys"
  proof -
    have "sorted_wrt (apart (a_size ?s)) us" "sorted_wrt (apart (a_size ?s)) vs"
      using srt keep by (subst sorted_apart_cong [of _ _ "a_size s"]; auto simp: sorted_wrt_append)+
    moreover have "apart (a_size ?s) x y" if "x \<in> set us" "y \<in> insert z (set vs)" for x y
      using that srt keep [of x] by (auto simp: apart_def sorted_wrt_append)
    moreover have "apart (a_size ?s) z v" if "v \<in> set vs" for v
      using that side' [of v] z by (auto simp: apart_def)
    ultimately show ?thesis unfolding ys by (auto simp: sorted_wrt_append)
  qed
  moreover have "a_size ?s a = (if a = z then ?d else a_size s a)" if "a \<in> set ys" for a using that c by auto
  moreover have "a_base s \<in> set ys" "\<And>a. a \<in> set (tl ys) \<Longrightarrow> a \<in> set ys" by (rule arena_base_in [OF ok]) (metis list.set_sel(2) tl_Nil)
  ultimately have "arena_ok ?s ys" using ok z zb q by (auto simp: arena_ok_def)
  moreover have "units ?s ys = units s ys - block ?s ?c"
  proof -
    have "units ?s us = units s us" "units ?s vs = units s vs" using keep by (auto intro!: units_cong)
    moreover have "block ?s z = block s z - block ?s ?c" "block ?s ?c \<subseteq> block s z" using z by (auto simp: block_def)
    ultimately show ?thesis using units_disjoint [of s us z vs] ok ys by auto
  qed
  moreover have "block ?s ?c \<subseteq> units s ys" using z ys by (auto simp: block_def)
  moreover have "a \<notin> units s ys \<Longrightarrow> a_size ?s a = a_size s a" for a
  proof -
    have "z \<in> block s z" using z by (simp add: block_def)
    then show "a \<notin> units s ys \<Longrightarrow> a_size ?s a = a_size s a" using \<open>?c \<in> block s z\<close> ys by auto
  qed
  moreover have "malloc_cut n q z s = (?c + 1, ?s)" using z by (simp add: malloc_cut_def Let_def)
  ultimately show ?thesis using z unfolding cut_spec_def by auto
qed

text \<open>The search: it takes a block that is large enough, when there is one, and asks for more memory otherwise.\<close>

lemma search_ok:
  assumes ok: "arena_ok s ys" and n: "0 < n"
  shows "(\<exists>rs. malloc_loop grow n (freep s) (a_ptr s (freep s)) s = Some (Inr rs) \<and> cut_spec n s ys rs) \<or>
    (\<forall>z \<in> set ys. a_size s z < n) \<and> malloc_loop grow n (freep s) (a_ptr s (freep s)) s = retry grow n s"
proof -
  obtain zs where zs: "set zs = set ys" "distinct zs" "zs \<noteq> []" "last zs = freep s" "linked (a_ptr s) (freep s # zs)"
    using ring_rotate [OF ok] by blast
  have hd: "hd zs = a_ptr s (freep s)" using zs(3,5) by (cases zs) auto
  have nb: "freep s \<notin> set (butlast zs)" using zs(2,3,4) by (cases zs rule: rev_cases) auto
  from malloc_loop_scan [OF zs(5,3,4) nb, of n grow] show ?thesis unfolding hd
  proof (elim disjE exE conjE)
    fix xs z ws
    assume x: "zs = xs @ z # ws" "n \<le> a_size s z"
      "malloc_loop grow n (freep s) (a_ptr s (freep s)) s = Some (Inr (malloc_cut n (last (freep s # xs)) z s))"
    let ?q = "last (freep s # xs)"
    have z: "z \<in> set ys" using x(1) zs(1) by auto
    have "linked (a_ptr s) ((freep s # xs) @ [z])" using linked_prefix [of "a_ptr s" "(freep s # xs) @ [z]" ws] zs(5) x(1) by simp
    then have q: "a_ptr s ?q = z" using linked_last [of "a_ptr s" "freep s # xs" z] by simp
    have "freep s \<in> set ys" using ok by (simp add: arena_ok_def)
    then have "?q \<in> set ys" using x(1) zs(1) by (cases xs rule: rev_cases) auto
    moreover have "?q \<noteq> z"
    proof
      assume e: "?q = z"
      then have "xs = []" using x(1) zs(2) by (cases xs rule: rev_cases) auto
      then have "zs = [z]" using e x(1) zs(4) nb by (cases ws rule: rev_cases) auto
      then have "set ys = {z}" using zs(1) by simp
      then have "z = a_base s" using arena_base_in [OF ok] by simp
      then show False using ok x(2) n by (simp add: arena_ok_def)
    qed
    ultimately have "cut_spec n s ys (malloc_cut n ?q z s)"
      using malloc_cut_exact [OF ok z] malloc_cut_split [OF ok z] x(2) n q by (cases "a_size s z = n") auto
    then show ?thesis using x(3) by blast
  qed (use zs(1) in auto)
qed

lemma morecore_ok:
  assumes ok: "arena_ok s ys" and nu: "n < 2 ^ 28" and g: "grow (brk s) (max n 4096)"
  shows "\<exists>s' ys'. morecore grow n s = Some (Inr (freep s', s')) \<and> arena_ok s' ys' \<and> brk s' = brk s + max n 4096 \<and> a_base s' = a_base s \<and>
    units s' ys' = units s ys \<union> {brk s..<brk s'} \<and> (\<exists>z \<in> set ys'. n \<le> a_size s' z) \<and>
    (\<forall>a. a \<notin> units s ys \<and> a < brk s \<longrightarrow> a_size s' a = a_size s a)"
proof -
  let ?nu = "max n 4096"
  let ?s = "s\<lparr>brk := brk s + ?nu, a_size := (a_size s)(brk s := ?nu)\<rparr>"
  have top: "a < brk s" if "a \<in> set ys" for a
  proof (cases "a = a_base s")
    case False
    then show ?thesis using arena_sizes [OF ok that] ok that by (fastforce simp: arena_ok_def)
  qed (use ok in \<open>simp add: arena_ok_def\<close>)
  have eq: "a_size ?s a = a_size s a" if "a \<in> set ys" for a using top [OF that] by simp
  have u: "units ?s ys = units s ys" using eq by (rule units_cong)
  have "sorted_wrt (apart (a_size ?s)) ys" using ok eq sorted_apart_cong [of ys "a_size ?s" "a_size s"] by (simp add: arena_ok_def)
  moreover have "a_base s \<in> set ys" "\<And>a. a \<in> set (tl ys) \<Longrightarrow> a \<in> set ys" by (rule arena_base_in [OF ok]) (metis list.set_sel(2) tl_Nil)
  ultimately have ok': "arena_ok ?s ys" using ok eq by (fastforce simp: arena_ok_def)
  have "units s ys \<subseteq> {..<brk s}" using ok by (fastforce simp: arena_ok_def units_def block_def)
  then have dis: "block ?s (brk s) \<inter> units ?s ys = {}" unfolding u by (auto simp: block_def)
  have "a_base ?s < brk s" "0 < a_size ?s (brk s)" "brk s + a_size ?s (brk s) \<le> brk ?s" using ok by (auto simp: arena_ok_def)
  from free_ok [OF ok' this dis] obtain s' ys' where f: "free (brk s + 1) ?s = Some s'" "arena_ok s' ys'"
    "units s' ys' = units s ys \<union> block ?s (brk s)" "brk s' = brk s + ?nu" "a_base s' = a_base s"
    "\<forall>a. a \<notin> units s ys \<union> block ?s (brk s) \<longrightarrow> a_size s' a = a_size ?s a" "\<exists>z \<in> set ys'. ?nu \<le> a_size s' z" unfolding u by auto
  then have big: "\<exists>z \<in> set ys'. n \<le> a_size s' z" by auto
  have "morecore grow n s = Some (Inr (freep s', s'))"
    using nu g f(1) by (auto simp: morecore_def Let_def max_def split: if_splits)
  moreover have "block ?s (brk s) = {brk s..<brk s'}" using f(4) by (simp add: block_def)
  ultimately show ?thesis using f big by (intro exI [of _ s'] exI [of _ ys']) auto
qed

lemma arena_units_bounds: "arena_ok s ys \<Longrightarrow> units s ys \<subseteq> {a_base s<..<brk s}"
proof
  fix x
  assume ok: "arena_ok s ys" and "x \<in> units s ys"
  then obtain a where a: "a \<in> set ys" "a \<le> x" "x < a + a_size s a" by (auto simp: units_def block_def)
  then have "a \<noteq> a_base s" using ok by (auto simp: arena_ok_def)
  then have "a_base s < a" using a(1) ok apart_less [of "a_size s" ys] by (cases ys) (auto simp: arena_ok_def)
  moreover have "a + a_size s a \<le> brk s" using ok a(1) by (simp add: arena_ok_def)
  ultimately show "x \<in> {a_base s<..<brk s}" using a by simp
qed

lemma retry_refused: "\<not> grow (brk s) (max n 4096) \<Longrightarrow> n < 2 ^ 28 \<Longrightarrow> retry grow n s = Some (Inr (0, s))"
  by (auto simp: retry_def morecore_def Let_def max_def split: if_splits)

text \<open>What a call of \<open>malloc\<close> for \<open>n\<close> units may do to the list \<open>ys\<close> of the state \<open>s\<close>.\<close>

definition malloc_result :: "(nat \<Rightarrow> nat \<Rightarrow> bool) \<Rightarrow> nat \<Rightarrow> arena \<Rightarrow> nat list \<Rightarrow> nat \<Rightarrow> arena \<Rightarrow> nat list \<Rightarrow> bool" where
  "malloc_result grow n s ys r s' ys' \<longleftrightarrow>
    arena_ok s' ys' \<and> a_base s' = a_base s \<and> brk s \<le> brk s' \<and>
    (\<forall>a. a \<notin> units s ys \<and> a < brk s \<longrightarrow> a_size s' a = a_size s a) \<and>
    (if r = 0 then s' = s \<and> ys' = ys \<and> (\<forall>a \<in> set ys. a_size s a < n) \<and> \<not> grow (brk s) (max n 4096)
     else a_size s' (r - 1) = n \<and> 1 < r \<and> block s' (r - 1) \<subseteq> units s ys \<union> {brk s..<brk s'} \<and>
       units s' ys' = units s ys \<union> {brk s..<brk s'} - block s' (r - 1))"

lemma cut_result:
  assumes "cut_spec n s ys (r, s')"
  shows "\<exists>ys'. malloc_result grow n s ys r s' ys'"
proof -
  obtain ys' where c: "1 < r" "a_size s' (r - 1) = n" "block s' (r - 1) \<subseteq> units s ys" "brk s' = brk s" "a_base s' = a_base s"
    "arena_ok s' ys'" "units s' ys' = units s ys - block s' (r - 1)" "\<forall>a. a \<notin> units s ys \<longrightarrow> a_size s' a = a_size s a"
    using assms by (auto simp: cut_spec_def)
  then have "malloc_result grow n s ys r s' ys'" by (simp add: malloc_result_def)
  then show ?thesis ..
qed

lemma malloc_loop_ok:
  assumes ok: "arena_ok s ys" and n: "0 < n" "n < 2 ^ 28"
  shows "\<exists>r s' ys'. malloc_loop grow n (freep s) (a_ptr s (freep s)) s = Some (Inr (r, s')) \<and> malloc_result grow n s ys r s' ys'"
proof (cases "\<exists>rs. malloc_loop grow n (freep s) (a_ptr s (freep s)) s = Some (Inr rs) \<and> cut_spec n s ys rs")
  case True
  then show ?thesis using cut_result by fast
next
  case False
  then have small: "\<forall>z \<in> set ys. a_size s z < n" and loop: "malloc_loop grow n (freep s) (a_ptr s (freep s)) s = retry grow n s"
    using search_ok [OF ok n(1), of grow] by auto
  show ?thesis
  proof (cases "grow (brk s) (max n 4096)")
    case False
    then show ?thesis using retry_refused [of grow s n] loop ok n(2) small
      by (intro exI [of _ 0] exI [of _ s] exI [of _ ys]) (simp add: malloc_result_def)
  next
    case True
    from morecore_ok [where grow = grow, OF ok n(2) True] obtain t zs where m: "morecore grow n s = Some (Inr (freep t, t))" "arena_ok t zs"
      "brk t = brk s + max n 4096" "a_base t = a_base s" "units t zs = units s ys \<union> {brk s..<brk t}"
      "\<exists>z \<in> set zs. n \<le> a_size t z" "\<forall>a. a \<notin> units s ys \<and> a < brk s \<longrightarrow> a_size t a = a_size s a" by blast
    have "freep t \<noteq> 0" using arena_pos [OF m(2)] m(2) by (auto simp: arena_ok_def)
    then have "retry grow n s = malloc_loop grow n (freep t) (a_ptr t (freep t)) t" using m(1) by (simp add: retry_def)
    moreover obtain r s' where r: "malloc_loop grow n (freep t) (a_ptr t (freep t)) t = Some (Inr (r, s'))" "cut_spec n t zs (r, s')"
      using search_ok [OF m(2) n(1), of grow] m(6) by (auto simp: not_less [symmetric])
    moreover obtain ys' where "malloc_result grow n t zs r s' ys'" using cut_result [OF r(2)] by blast
    then have "malloc_result grow n s ys r s' ys'"
      using r(2) m(3,4,5,7) by (auto simp: malloc_result_def cut_spec_def)
    ultimately show ?thesis using loop by auto
  qed
qed

lemma nunits_eq: "unat nbytes \<le> 0xFFFFFFF8 \<Longrightarrow> nunits nbytes = (unat nbytes + 7) div 8 + 1"
proof -
  assume b: "unat nbytes \<le> 0xFFFFFFF8"
  have 1: "unat (nbytes + 8 - 1) = unat nbytes + 7"
  proof -
    have "nbytes + 8 - 1 = nbytes + 7" by simp
    moreover have "unat (nbytes + 7) = unat nbytes + 7" using b by (simp add: unat_word_ariths)
    ultimately show ?thesis by metis
  qed
  have "unat ((nbytes + 8 - 1) div 8) = (unat nbytes + 7) div 8" using 1 by (simp add: unat_div)
  moreover have "(unat nbytes + 7) div 8 + 1 < 2 ^ 32" using b by simp
  ultimately show ?thesis by (simp add: nunits_def unat_word_ariths)
qed

section \<open>Properties\<close>

text \<open>
  C14. \<open>malloc\<close> implements a pool of free units: from a well-formed list it ends for every request below 2 GB. It returns a
  null pointer, with nothing changed, only when no free block is large enough and \<open>sbrk\<close> refuses; otherwise the block it
  returns has the units asked for, all of them free or new from \<open>sbrk\<close>, it is taken out of the pool, the list is well formed
  again, and the header of no block in use is written.
\<close>

theorem malloc_refines_pool:
  assumes "arena_ok (malloc_init s) ys" and "unat nbytes \<le> 0x7FFFFFF0"
  shows "\<exists>r s' ys'. malloc grow nbytes s = Some (Inr (r, s')) \<and> malloc_result grow (nunits nbytes) (malloc_init s) ys r s' ys'"
proof -
  have "0 < nunits nbytes" "nunits nbytes < 2 ^ 28" using nunits_eq [of nbytes] assms(2) by auto
  from malloc_loop_ok [OF assms(1) this] show ?thesis by (simp add: malloc_def Let_def)
qed

definition fresh_arena :: arena where
  "fresh_arena = \<lparr>a_ptr = (\<lambda>_. 0), a_size = (\<lambda>_. 0), freep = 0, brk = 8192, a_base = 64\<rparr>"

lemma fresh_ok: "arena_ok (malloc_init fresh_arena) [64]"
  by (simp add: arena_ok_def malloc_init_def fresh_arena_def)

theorem malloc_refines_pool_witness:
  "\<exists>r s' ys'. malloc (\<lambda>_ _. True) 100 fresh_arena = Some (Inr (r, s')) \<and> 1 < r \<and> a_size s' (r - 1) = 14 \<and>
    8192 \<le> r - 1 \<and> arena_ok s' ys'"
proof -
  have i: "nunits 100 = 14" "units (malloc_init fresh_arena) [64] = {}" "brk (malloc_init fresh_arena) = 8192"
    by (simp_all add: nunits_eq block_def malloc_init_def fresh_arena_def)
  obtain r s' ys' where m: "malloc (\<lambda>_ _. True) 100 fresh_arena = Some (Inr (r, s'))"
    "malloc_result (\<lambda>_ _. True) 14 (malloc_init fresh_arena) [64] r s' ys'"
    using malloc_refines_pool [OF fresh_ok, of 100 "\<lambda>_ _. True"] unfolding i by auto
  then have "arena_ok s' ys'" "a_size s' (r - 1) = 14" "1 < r" "block s' (r - 1) \<subseteq> {8192..<brk s'}"
    unfolding malloc_result_def i by (auto split: if_splits)
  moreover from this have "r - 1 \<in> block s' (r - 1)" by (simp add: block_def)
  ultimately show ?thesis using m(1) by auto
qed

text \<open>
  C36. \<open>free\<close> gives back what \<open>malloc\<close> gave: freeing the block right after its allocation ends, and the pool is the one before with the
  units that \<open>sbrk\<close> added.
\<close>

theorem malloc_free_roundtrip:
  assumes "arena_ok (malloc_init s) ys" and "unat nbytes \<le> 0x7FFFFFF0" and "malloc grow nbytes s = Some (Inr (r, s'))" and "r \<noteq> 0"
  shows "\<exists>s'' zs. free r s' = Some s'' \<and> arena_ok s'' zs \<and> units s'' zs = units (malloc_init s) ys \<union> {brk (malloc_init s)..<brk s'}"
proof -
  let ?s = "malloc_init s"
  have n: "0 < nunits nbytes" "nunits nbytes < 2 ^ 28" using nunits_eq [of nbytes] assms(2) by auto
  from malloc_loop_ok [OF assms(1) n, of grow] assms(3) obtain ys' where m: "malloc_result grow (nunits nbytes) ?s ys r s' ys'"
    by (auto simp: malloc_def Let_def)
  let ?F = "units ?s ys \<union> {brk ?s..<brk s'}"
  have m': "arena_ok s' ys'" "a_size s' (r - 1) = nunits nbytes" "1 < r" "block s' (r - 1) \<subseteq> ?F" "units s' ys' = ?F - block s' (r - 1)"
    "a_base s' = a_base ?s" "brk ?s \<le> brk s'" using m assms(4) by (auto simp: malloc_result_def)
  have "a_base ?s < brk ?s" using assms(1) by (simp add: arena_ok_def)
  then have F: "?F \<subseteq> {a_base s'<..<brk s'}" using arena_units_bounds [OF assms(1)] m'(6,7) by auto
  have "r - 1 \<in> block s' (r - 1)" "r - 1 + a_size s' (r - 1) - 1 \<in> block s' (r - 1)" using m'(2) n(1) by (auto simp: block_def)
  then have "r - 1 \<in> {a_base s'<..<brk s'}" "r - 1 + a_size s' (r - 1) - 1 \<in> {a_base s'<..<brk s'}" using m'(4) F by blast+
  then have "a_base s' < r - 1" "r - 1 + a_size s' (r - 1) - 1 < brk s'" by simp_all
  moreover have z: "0 < a_size s' (r - 1)" "block s' (r - 1) \<inter> units s' ys' = {}" using m' n by auto
  ultimately have "a_base s' < r - 1" "r - 1 + a_size s' (r - 1) \<le> brk s'" by linarith+
  then obtain s'' zs where "free (r - 1 + 1) s' = Some s''" "arena_ok s'' zs" "units s'' zs = units s' ys' \<union> block s' (r - 1)"
    using free_ok [OF m'(1) _ z(1) _ z(2)] by blast
  moreover have "r - 1 + 1 = r" using m'(3) by simp
  moreover have "units s' ys' \<union> block s' (r - 1) = ?F" using m'(4,5) by auto
  ultimately show ?thesis by metis
qed

theorem malloc_free_roundtrip_witness:
  "\<exists>r s' s'' zs. malloc (\<lambda>_ _. True) 100 fresh_arena = Some (Inr (r, s')) \<and> free r s' = Some s'' \<and> arena_ok s'' zs \<and>
    units s'' zs = {8192..<brk s'}"
proof -
  have i: "units (malloc_init fresh_arena) [64] = {}" "brk (malloc_init fresh_arena) = 8192"
    by (simp_all add: block_def malloc_init_def fresh_arena_def)
  obtain r s' ys' where m: "malloc (\<lambda>_ _. True) 100 fresh_arena = Some (Inr (r, s'))"
    "malloc_result (\<lambda>_ _. True) (nunits 100) (malloc_init fresh_arena) [64] r s' ys'"
    using malloc_loop_ok [OF fresh_ok, of "nunits 100" "\<lambda>_ _. True"] by (auto simp: malloc_def Let_def nunits_eq)
  then have "r \<noteq> 0" by (auto simp: malloc_result_def split: if_splits)
  then show ?thesis using malloc_free_roundtrip [OF fresh_ok _ m(1)] m(1) unfolding i by auto
qed

text \<open>
  C37. The size of a request in units: up to 0xFFFFFFF8 bytes the block has room for the bytes and wastes less than one unit.
  Above, the rounding wraps: a request of 0xFFFFFFFF bytes is taken for one unit, the header alone, and gets a block without
  any byte in it.
\<close>

theorem nunits_bounds:
  "(unat nbytes \<le> 0xFFFFFFF8 \<longrightarrow> unat nbytes \<le> 8 * (nunits nbytes - 1) \<and> 8 * (nunits nbytes - 1) < unat nbytes + 8) \<and>
    nunits 0xFFFFFFFF = 1"
proof (intro conjI impI)
  assume b: "unat nbytes \<le> 0xFFFFFFF8"
  show "unat nbytes \<le> 8 * (nunits nbytes - 1)" using nunits_eq [OF b] by simp
  show "8 * (nunits nbytes - 1) < unat nbytes + 8" using nunits_eq [OF b] by simp
qed (simp add: nunits_def)

theorem nunits_bounds_witness: "100 \<le> 8 * (nunits 100 - 1) \<and> 8 * (nunits 100 - 1) < 108"
  using nunits_bounds [of 100] by simp

end
