(* ===== verification/Uthread.thy ===== *)
theory Uthread
  imports Memory
begin

text \<open>
  User threads: \<open>src/xv6/uthread_switch.S\<close> and the three thread packages that are linked with it, \<open>uthread1.c\<close>,
  \<open>uthread3.c\<close> and \<open>uthread4.c\<close>. The assembly works on the saved stack pointer at offset 0 of the thread, so the
  model is at the level of memory: a thread is an address, its fields are words at the offsets that the structure
  gives them, and \<open>machine\<close> has the registers, the memory and the global variables. An operation that calls
  \<open>thread_schedule\<close> has as its first argument the address the call of \<open>thread_switch\<close> returns to. What is printed is
  not modelled.
\<close>

section \<open>The machine and thread\_switch\<close>

record machine =
  eax :: u32
  ecx :: u32
  edx :: u32
  ebx :: u32
  ebp :: u32
  esi :: u32
  edi :: u32
  esp :: u32
  eip :: u32
  ram :: mem
  current_thread :: u32
  next_thread :: u32

definition push :: "u32 \<Rightarrow> machine \<Rightarrow> machine" where
  "push v m = m\<lparr>esp := esp m - 4, ram := store32 (esp m - 4) v (ram m)\<rparr>"

definition pop :: "machine \<Rightarrow> u32 \<times> machine" where
  "pop m = (load32 (ram m) (esp m), m\<lparr>esp := esp m + 4\<rparr>)"

definition pushal :: "machine \<Rightarrow> machine" where
  "pushal m = fold push [eax m, ecx m, edx m, ebx m, esp m, ebp m, esi m, edi m] m"

definition popal :: "machine \<Rightarrow> machine" where
  "popal m =
    (let (v, m) = pop m; m = m\<lparr>edi := v\<rparr>; (v, m) = pop m; m = m\<lparr>esi := v\<rparr>; (v, m) = pop m; m = m\<lparr>ebp := v\<rparr>;
         (v, m) = pop m; (v, m) = pop m; m = m\<lparr>ebx := v\<rparr>; (v, m) = pop m; m = m\<lparr>edx := v\<rparr>;
         (v, m) = pop m; m = m\<lparr>ecx := v\<rparr>; (v, m) = pop m in m\<lparr>eax := v\<rparr>)"

text \<open>The routine from its entry, with the return address on the stack, to its return.\<close>

definition thread_switch :: "machine \<Rightarrow> machine" where
  "thread_switch m =
    (let m = pushal m;
         m = m\<lparr>eax := current_thread m\<rparr>; m = m\<lparr>ram := store32 (eax m) (esp m) (ram m)\<rparr>;
         m = m\<lparr>eax := next_thread m\<rparr>; m = m\<lparr>esp := load32 (ram m) (eax m)\<rparr>;
         m = m\<lparr>current_thread := eax m\<rparr>;
         (ret, m) = pop (popal m)
     in m\<lparr>eip := ret\<rparr>)"

section \<open>Threads in memory\<close>

text \<open>The offsets of the fields of \<open>struct thread\<close>, its size and the length of the table.\<close>

record layout =
  at_sp :: u32
  at_stack :: u32
  at_state :: u32
  sizeof_thread :: u32
  max_thread :: nat

definition STACK_SIZE :: u32 where "STACK_SIZE = 8192"

definition layout1 :: layout where
  "layout1 = \<lparr>at_sp = 0, at_stack = 4, at_state = 4 + STACK_SIZE, sizeof_thread = 8 + STACK_SIZE, max_thread = 4\<rparr>"

definition layout3 :: layout where
  "layout3 = \<lparr>at_sp = 4, at_stack = 8, at_state = 8 + STACK_SIZE, sizeof_thread = 12 + STACK_SIZE, max_thread = 10\<rparr>"

definition layout4 :: layout where
  "layout4 = \<lparr>at_sp = 8, at_stack = 12, at_state = 12 + STACK_SIZE, sizeof_thread = 16 + STACK_SIZE, max_thread = 10\<rparr>"

definition FREE :: u32 where "FREE = 0"

definition RUNNING :: u32 where "RUNNING = 1"

definition RUNNABLE :: u32 where "RUNNABLE = 2"

definition WAIT :: u32 where "WAIT = 3"

definition thread_at :: "layout \<Rightarrow> u32 \<Rightarrow> nat \<Rightarrow> u32" where
  "thread_at l all_thread i = all_thread + of_nat i * sizeof_thread l"

definition all_threads :: "layout \<Rightarrow> u32 \<Rightarrow> u32 list" where
  "all_threads l all_thread = map (thread_at l all_thread) [0..<max_thread l]"

definition state :: "layout \<Rightarrow> machine \<Rightarrow> u32 \<Rightarrow> u32" where
  "state l m t = load32 (ram m) (t + at_state l)"

definition set_field :: "u32 \<Rightarrow> u32 \<Rightarrow> u32 \<Rightarrow> machine \<Rightarrow> machine" where
  "set_field off v t m = m\<lparr>ram := store32 (t + off) v (ram m)\<rparr>"

definition set_state :: "layout \<Rightarrow> u32 \<Rightarrow> u32 \<Rightarrow> machine \<Rightarrow> machine" where
  "set_state l s t m = set_field (at_state l) s t m"

text \<open>The search for another runnable thread, and what is left in \<open>next_thread\<close> after it (\<open>None\<close> is 0).\<close>

definition runnable_other :: "layout \<Rightarrow> u32 \<Rightarrow> machine \<Rightarrow> u32 option" where
  "runnable_other l a m = find (\<lambda>t. state l m t = RUNNABLE \<and> t \<noteq> current_thread m) (all_threads l a)"

definition choose_next :: "layout \<Rightarrow> u32 \<Rightarrow> machine \<Rightarrow> u32 option" where
  "choose_next l a m =
    (case runnable_other l a m of
       Some t \<Rightarrow> Some t
     | None \<Rightarrow> if state l m (current_thread m) = RUNNABLE then Some (current_thread m) else None)"

definition no_runnable :: halt where
  "no_runnable = Exit ''thread_schedule: no runnable threads''"

text \<open>The search for a free thread.\<close>

definition free_thread :: "layout \<Rightarrow> u32 \<Rightarrow> machine \<Rightarrow> nat option" where
  "free_thread l a m = scan (\<lambda>t. state l m t = FREE) (all_threads l a)"

text \<open>The stack of a new thread: \<open>func\<close> as the return address below the top, and room for the registers.\<close>

definition new_stack :: "layout \<Rightarrow> u32 \<Rightarrow> u32 \<Rightarrow> machine \<Rightarrow> machine" where
  "new_stack l func t m =
    (let sp = t + at_stack l + STACK_SIZE - 4
     in set_field (at_sp l) (sp - 32) t (m\<lparr>ram := store32 sp func (ram m)\<rparr>))"

section \<open>uthread1\<close>

definition thread_schedule1 :: "u32 \<Rightarrow> u32 \<Rightarrow> machine \<Rightarrow> machine result" where
  "thread_schedule1 ret a m =
    (case choose_next layout1 a m of
       None \<Rightarrow> Inl no_runnable
     | Some t \<Rightarrow>
         if current_thread m \<noteq> t then
           Inr (thread_switch (push ret (set_state layout1 RUNNING t (m\<lparr>next_thread := t\<rparr>))))
         else Inr (m\<lparr>next_thread := 0\<rparr>))"

definition thread_yield1 :: "u32 \<Rightarrow> u32 \<Rightarrow> machine \<Rightarrow> machine result" where
  "thread_yield1 ret a m = thread_schedule1 ret a (set_state layout1 RUNNABLE (current_thread m) m)"

definition thread_exit1 :: "u32 \<Rightarrow> u32 \<Rightarrow> machine \<Rightarrow> machine result" where
  "thread_exit1 ret a m = thread_schedule1 ret a (set_state layout1 FREE (current_thread m) m)"

text \<open>\<open>thread_init\<close> also hands the address of \<open>thread_yield\<close> to the kernel, by the system call \<open>uthread_init\<close>.\<close>

definition thread_init1 :: "u32 \<Rightarrow> machine \<Rightarrow> machine" where
  "thread_init1 a m = set_state layout1 RUNNING a (m\<lparr>current_thread := a\<rparr>)"

text \<open>With no free thread the code uses the entry after the table.\<close>

definition thread_create1 :: "u32 \<Rightarrow> u32 \<Rightarrow> machine \<Rightarrow> machine result" where
  "thread_create1 func a m =
    (case free_thread layout1 a m of
       None \<Rightarrow> Inl (Undefined ''all_thread'')
     | Some i \<Rightarrow> let t = thread_at layout1 a i in Inr (set_state layout1 RUNNABLE t (new_stack layout1 func t m)))"

section \<open>uthread3\<close>

text \<open>The first field of a thread is its \<open>tid\<close>; \<open>global_tid\<close> is the number of the next thread.\<close>

definition tid :: "machine \<Rightarrow> u32 \<Rightarrow> u32" where
  "tid m t = load32 (ram m) t"

definition thread_schedule3 :: "u32 \<Rightarrow> u32 \<Rightarrow> machine \<Rightarrow> machine result" where
  "thread_schedule3 ret a m =
    (case choose_next layout3 a m of
       None \<Rightarrow> Inl no_runnable
     | Some t \<Rightarrow>
         if current_thread m \<noteq> t then
           Inr (thread_switch (push ret (set_state layout3 RUNNABLE (current_thread m)
             (set_state layout3 RUNNING t (m\<lparr>next_thread := t\<rparr>)))))
         else Inr (m\<lparr>next_thread := 0\<rparr>))"

definition thread_yield3 :: "u32 \<Rightarrow> u32 \<Rightarrow> machine \<Rightarrow> machine result" where
  "thread_yield3 ret a m = thread_schedule3 ret a (set_state layout3 RUNNABLE (current_thread m) m)"

definition thread_exit3 :: "u32 \<Rightarrow> u32 \<Rightarrow> machine \<Rightarrow> machine result" where
  "thread_exit3 ret a m = thread_schedule3 ret a (set_state layout3 FREE (current_thread m) m)"

definition thread_init3 :: "u32 \<Rightarrow> machine \<Rightarrow> machine" where
  "thread_init3 a m = set_field 0 0 a (set_state layout3 RUNNING a (m\<lparr>current_thread := a\<rparr>))"

definition thread_create3 :: "u32 \<Rightarrow> u32 \<Rightarrow> u32 \<times> machine \<Rightarrow> u32 \<times> (u32 \<times> machine)" where
  "thread_create3 func a = (\<lambda>(global_tid, m).
    case free_thread layout3 a m of
      None \<Rightarrow> (- 1, global_tid, m)
    | Some i \<Rightarrow>
        let t = thread_at layout3 a i
        in (global_tid, global_tid + 1, set_state layout3 RUNNABLE t (set_field 0 global_tid t (new_stack layout3 func t m))))"

definition find_tid :: "layout \<Rightarrow> u32 \<Rightarrow> u32 \<Rightarrow> machine \<Rightarrow> u32 option" where
  "find_tid l n a m = find (\<lambda>t. tid m t = n) (all_threads l a)"

definition thread_suspend :: "u32 \<Rightarrow> u32 \<Rightarrow> machine \<Rightarrow> machine" where
  "thread_suspend n a m =
    (case find_tid layout3 n a m of
       None \<Rightarrow> m
     | Some t \<Rightarrow>
         if state layout3 m t = RUNNABLE \<or> state layout3 m t = RUNNING then set_state layout3 WAIT t m else m)"

definition thread_resume :: "u32 \<Rightarrow> u32 \<Rightarrow> machine \<Rightarrow> machine" where
  "thread_resume n a m =
    (case find_tid layout3 n a m of
       None \<Rightarrow> m
     | Some t \<Rightarrow> if state layout3 m t = WAIT then set_state layout3 RUNNABLE t m else m)"

section \<open>uthread4\<close>

definition thread_schedule4 :: "u32 \<Rightarrow> u32 \<Rightarrow> machine \<Rightarrow> machine result" where
  "thread_schedule4 ret a m =
    (case choose_next layout4 a m of
       None \<Rightarrow> Inl no_runnable
     | Some t \<Rightarrow>
         if current_thread m \<noteq> t then
           Inr (thread_switch (push ret (set_state layout4 RUNNABLE (current_thread m)
             (set_state layout4 RUNNING t (m\<lparr>next_thread := t\<rparr>)))))
         else Inr (m\<lparr>next_thread := 0\<rparr>))"

definition thread_yield4 :: "u32 \<Rightarrow> u32 \<Rightarrow> machine \<Rightarrow> machine result" where
  "thread_yield4 ret a m = thread_schedule4 ret a (set_state layout4 RUNNABLE (current_thread m) m)"

definition thread_init4 :: "u32 \<Rightarrow> machine \<Rightarrow> machine" where
  "thread_init4 a m = set_field 4 0 a (set_field 0 0 a (set_state layout4 RUNNING a (m\<lparr>current_thread := a\<rparr>)))"

text \<open>The registers of the new stack are cleared; \<open>ptid\<close> is the second field.\<close>

definition thread_create4 :: "u32 \<Rightarrow> u32 \<Rightarrow> machine \<Rightarrow> (u32 \<times> machine) result" where
  "thread_create4 func a m =
    (case free_thread layout4 a m of
       None \<Rightarrow> Inl (Undefined ''all_thread'')
     | Some i \<Rightarrow>
         let t = thread_at layout4 a i;
             m = set_field 0 (of_nat i) t m;
             m = set_field 4 (tid m (current_thread m)) t m;
             m = new_stack layout4 func t m;
             m = m\<lparr>ram := store_bytes (load32 (ram m) (t + at_sp layout4)) (replicate 32 0) (ram m)\<rparr>
         in Inr (tid m t, set_state layout4 RUNNABLE t m))"

text \<open>
  One turn of the loop of \<open>thread_join\<close>; \<open>found\<close> is the variable that is not reset between turns. The turn returns to
  the caller, with \<open>Joined\<close> or \<open>NoThread\<close>, or ends in \<open>thread_schedule\<close> and the loop goes on when the thread runs again.
\<close>

datatype join = NoThread | Joined | Waiting machine

definition thread_join_turn :: "u32 \<Rightarrow> u32 \<Rightarrow> bool \<Rightarrow> u32 \<Rightarrow> machine \<Rightarrow> join result" where
  "thread_join_turn ret n found a m =
    (case find_tid layout4 n a m of
       None \<Rightarrow> if found then Inl (Undefined ''all_thread'') else Inr NoThread
     | Some t \<Rightarrow>
         if state layout4 m t = FREE then Inr Joined
         else andthen (thread_schedule4 ret a m) (\<lambda>m. Inr (Waiting m)))"

text \<open>Two ranges of the address space with no byte in common.\<close>

definition apart :: "u32 \<Rightarrow> nat \<Rightarrow> u32 \<Rightarrow> nat \<Rightarrow> bool" where
  "apart a n b k \<longleftrightarrow> n \<le> unat (b - a) \<and> k \<le> unat (a - b)"

lemma apart_sym: "apart a n b k \<longleftrightarrow> apart b k a n"
  by (auto simp: apart_def)

lemma apart_sum:
  assumes "apart a n b k" "0 < k"
  shows "unat (b - a) + unat (a - b) = 2 ^ 32"
proof -
  have "unat (a - b) \<noteq> 0" using assms by (auto simp: apart_def)
  moreover have "(unat (b - a) + unat (a - b)) mod 2 ^ 32 = 0"
    using unat_word_ariths(1) [of "b - a" "a - b"] by simp
  moreover have "unat (b - a) < 2 ^ 32" "unat (a - b) < 2 ^ 32"
    using unsigned_less [of "b - a"] unsigned_less [of "a - b"] by simp_all
  ultimately show ?thesis by (auto simp: mod_if split: if_splits)
qed

lemma apart_sub:
  assumes "apart a n b k" "unat i + n' \<le> n" "unat j + k' \<le> k" "0 < n'" "0 < k'"
  shows "apart (a + i) n' (b + j) k'"
proof -
  have sum: "unat (b - a) + unat (a - b) = 2 ^ 32" using apart_sum assms by auto
  have "unat ((b - a) + j) = unat (b - a) + unat j" "unat ((a - b) + i) = unat (a - b) + unat i"
    using assms sum by (simp_all add: apart_def unat_word_ariths)
  then have "unat ((b - a) + j - i) = unat (b - a) + unat j - unat i" "unat ((a - b) + i - j) = unat (a - b) + unat i - unat j"
    using assms by (simp_all add: apart_def unat_sub word_le_nat_alt)
  moreover have "b + j - (a + i) = (b - a) + j - i" "a + i - (b + j) = (a - b) + i - j" by simp_all
  ultimately have "unat (b + j - (a + i)) = unat (b - a) + unat j - unat i"
    "unat (a + i - (b + j)) = unat (a - b) + unat i - unat j" by (simp_all only:)
  then show ?thesis
    using assms unfolding apart_def by linarith
qed

lemma apart_in_range:
  assumes "apart a n b k" "in_range a n x" "0 < k"
  shows "\<not> in_range b k x"
proof
  assume "in_range b k x"
  note apart_sum [OF assms(1,3)]
  moreover have "unat (x - a) = (unat (x - b) + unat (b - a)) mod 2 ^ 32"
  proof -
    show ?thesis using unat_word_ariths(1) [of "x - b" "b - a"] by simp
  qed
  ultimately show False
    using assms \<open>in_range b k x\<close> by (auto simp: apart_def in_range_def mod_if split: if_splits)
qed

lemma load32_cong: "(\<And>x. in_range a 4 x \<Longrightarrow> m x = m' x) \<Longrightarrow> load32 m a = load32 m' a"
  by (simp add: load32_def in_range_def)

lemma load32_apart: "apart a 4 b 4 \<Longrightarrow> load32 (store32 a v m) b = load32 m b"
  by (metis apart_in_range apart_sym load32_cong store32_other zero_less_numeral)

text \<open>The memory after a call of \<open>thread_switch\<close> has saved the current thread, and what the call then restores.\<close>

definition save_ram :: "u32 \<Rightarrow> machine \<Rightarrow> mem" where
  "save_ram ret m = store32 (current_thread m) (esp m - 36) (ram (pushal (push ret m)))"

lemma switch_restores:
  "thread_switch (push ret m) =
    (let r = save_ram ret m; s = load32 r (next_thread m)
     in m\<lparr>edi := load32 r s, esi := load32 r (s + 4), ebp := load32 r (s + 8), ebx := load32 r (s + 16),
          edx := load32 r (s + 20), ecx := load32 r (s + 24), eax := load32 r (s + 28), esp := s + 36,
          eip := load32 r (s + 32), ram := r, current_thread := next_thread m\<rparr>)"
  by (rule machine.equality) (simp_all add: thread_switch_def save_ram_def pushal_def popal_def push_def pop_def Let_def add.commute)

lemma pushal_ram:
  "ram (pushal (push ret m)) =
    (let e = esp m in store32 (e - 36) (edi m) (store32 (e - 32) (esi m) (store32 (e - 28) (ebp m) (store32 (e - 24) (e - 4)
     (store32 (e - 20) (ebx m) (store32 (e - 16) (edx m) (store32 (e - 12) (ecx m) (store32 (e - 8) (eax m)
     (store32 (e - 4) ret (ram m))))))))))"
  by (simp add: pushal_def push_def Let_def)

lemma pushal_other: "\<not> in_range (esp m - 36) 36 x \<Longrightarrow> ram (pushal (push ret m)) x = ram m x"
proof -
  assume out: "\<not> in_range (esp m - 36) 36 x"
  have "\<not> in_range (esp m - k) 4 x" if k: "4 \<le> k" "k \<le> 36" for k
  proof
    assume "in_range (esp m - k) 4 x"
    define d where "d = x - (esp m - k)"
    have "unat d < 4" using \<open>in_range (esp m - k) 4 x\<close> by (simp add: in_range_def d_def)
    moreover have "unat (36 - k) \<le> 32" using k by (simp add: unat_sub word_le_nat_alt)
    ultimately have "unat (d + (36 - k)) < 36" by (simp add: unat_word_ariths)
    moreover have "d + (36 - k) = x - (esp m - 36)" by (simp add: d_def)
    ultimately show False using out unfolding in_range_def by simp
  qed
  then show ?thesis by (simp add: pushal_ram Let_def store32_other)
qed

lemma pushal_frame:
  "load32 (ram (pushal (push ret m))) (esp m - 36) = edi m"
  "load32 (ram (pushal (push ret m))) (esp m - 32) = esi m"
  "load32 (ram (pushal (push ret m))) (esp m - 28) = ebp m"
  "load32 (ram (pushal (push ret m))) (esp m - 20) = ebx m"
  "load32 (ram (pushal (push ret m))) (esp m - 16) = edx m"
  "load32 (ram (pushal (push ret m))) (esp m - 12) = ecx m"
  "load32 (ram (pushal (push ret m))) (esp m - 8) = eax m"
  "load32 (ram (pushal (push ret m))) (esp m - 4) = ret"
  by (simp_all add: pushal_ram Let_def load32_store32_same load32_apart apart_def)

lemma load32_in:
  assumes "\<And>x. in_range b n x \<Longrightarrow> r x = r' x" "unat (a - b) + 4 \<le> n" "n \<le> 2 ^ 31"
  shows "load32 r a = load32 r' a"
proof (rule load32_cong)
  fix x assume "in_range a 4 x"
  then have "(unat (x - a) + unat (a - b)) mod 2 ^ 32 < n" using assms(2,3) by (simp add: in_range_def)
  then have "unat ((x - a) + (a - b)) < n" unfolding unat_word_ariths by simp
  then show "r x = r' x" using assms(1) by (simp add: in_range_def)
qed

text \<open>What a later switch, made on another stack, leaves of a saved thread.\<close>

lemma save_ram_other:
  assumes "apart (current_thread m) 4 b n" "apart (esp m - 36) 36 b n" "in_range b n x" "0 < n"
  shows "save_ram ret m x = ram m x"
  using assms apart_in_range [of b n "current_thread m" 4 x] apart_in_range [of b n "esp m - 36" 36 x]
  by (simp add: save_ram_def store32_other pushal_other apart_sym)

lemma save_ram_frame:
  assumes "apart (current_thread m) 4 (esp m - 36) 36" "in_range (esp m - 36) 36 x"
  shows "save_ram ret m x = ram (pushal (push ret m)) x"
  using assms apart_in_range [of "esp m - 36" 36 "current_thread m" 4 x]
  by (simp add: save_ram_def store32_other apart_sym)

text \<open>
  C18. A switch saves all of a thread. Let the current thread call \<open>thread_switch\<close>, and let later another thread,
  whose stack and structure are elsewhere, switch back to it while its saved frame and its saved stack pointer are
  as they were left. Then the thread continues after its call with all its registers and its stack pointer as they
  were at the call.
\<close>

theorem thread_switch_resumes:
  assumes "apart (current_thread m) 4 (esp m - 36) 36"
    and "\<forall>x. in_range (esp m - 36) 36 x \<or> in_range (current_thread m) 4 x \<longrightarrow> ram m2 x = ram (thread_switch (push ret m)) x"
    and "next_thread m2 = current_thread m"
    and "apart (current_thread m2) 4 (esp m - 36) 36" and "apart (esp m2 - 36) 36 (esp m - 36) 36"
    and "apart (current_thread m2) 4 (current_thread m) 4" and "apart (esp m2 - 36) 36 (current_thread m) 4"
  shows "let m3 = thread_switch (push ret2 m2) in
    eip m3 = ret \<and> esp m3 = esp m \<and> current_thread m3 = current_thread m \<and> eax m3 = eax m \<and> ebx m3 = ebx m \<and>
    ecx m3 = ecx m \<and> edx m3 = edx m \<and> ebp m3 = ebp m \<and> esi m3 = esi m \<and> edi m3 = edi m"
proof -
  let ?s = "esp m - 36"
  have m1: "ram (thread_switch (push ret m)) = save_ram ret m" by (simp add: switch_restores Let_def)
  have "load32 (save_ram ret2 m2) (current_thread m) = load32 (save_ram ret m) (current_thread m)"
    using assms(2,6,7) m1 by (intro load32_cong) (simp add: save_ram_other [of m2 "current_thread m" 4])
  then have sp: "load32 (save_ram ret2 m2) (current_thread m) = ?s"
    by (simp add: save_ram_def load32_store32_same)
  have "save_ram ret2 m2 x = ram (pushal (push ret m)) x" if "in_range ?s 36 x" for x
    using that assms(1,2,4,5) m1 by (simp add: save_ram_other [of m2 ?s 36] save_ram_frame)
  then have "load32 (save_ram ret2 m2) (?s + k) = load32 (ram (pushal (push ret m))) (?s + k)" if "k \<le> 32" for k
    using that by (intro load32_in [of ?s 36]) (simp_all add: word_le_nat_alt)
  note frame = this
  from frame [of 0] frame [of 4] frame [of 8] frame [of 16] frame [of 20] frame [of 24] frame [of 28] frame [of 32]
  show ?thesis
    by (simp add: switch_restores Let_def assms(3) sp pushal_frame)
qed

theorem thread_switch_resumes_witness:
  "let m = \<lparr>eax = 1, ecx = 2, edx = 3, ebx = 4, ebp = 5, esi = 6, edi = 7, esp = 5000, eip = 0, ram = (\<lambda>_. 0),
      current_thread = 1000, next_thread = 20000\<rparr>;
     m2 = (thread_switch (push 123 m))\<lparr>eax := 0, edi := 0, esp := 25000, next_thread := 1000\<rparr>;
     m3 = thread_switch (push 456 m2)
   in eip m3 = 123 \<and> esp m3 = 5000 \<and> eax m3 = 1 \<and> edi m3 = 7"
proof -
  let ?m = "\<lparr>eax = 1, ecx = 2, edx = 3, ebx = 4, ebp = 5, esi = 6, edi = 7, esp = 5000, eip = 0, ram = (\<lambda>_. 0),
      current_thread = 1000, next_thread = 20000\<rparr> :: machine"
  let ?m2 = "(thread_switch (push 123 ?m))\<lparr>eax := 0, edi := 0, esp := 25000, next_thread := 1000\<rparr>"
  have "current_thread ?m2 = 20000" by (simp add: switch_restores Let_def)
  then show ?thesis
    using thread_switch_resumes [of ?m ?m2 123 456] by (simp add: Let_def apart_def)
qed

lemmas uthread_states = FREE_def RUNNING_def RUNNABLE_def WAIT_def STACK_SIZE_def

lemma choose_other: "choose_next l a m = Some t \<Longrightarrow> t \<noteq> current_thread m \<Longrightarrow> state l m t = RUNNABLE"
  by (auto simp: choose_next_def runnable_other_def find_Some_iff split: option.splits if_splits)

text \<open>A switch to a thread at \<open>t\<close>, when what it saves is apart from the bytes of \<open>t\<close>.\<close>

lemma switch_to:
  assumes "next_thread m = t" "apart (current_thread m) 4 t n" "apart (esp m - 36) 36 t n" "4 \<le> n"
    and "unat d + 36 \<le> n" "n \<le> 2 ^ 31" "load32 (ram m) t = t + d"
  shows "let m' = thread_switch (push ret m) in
    eip m' = load32 (ram m) (t + (d + 32)) \<and> esp m' = t + (d + 36) \<and> current_thread m' = t"
proof -
  have same: "load32 (save_ram ret m) b = load32 (ram m) b" if "unat (b - t) + 4 \<le> n" for b
    using that assms by (intro load32_in [of t n]) (auto simp: save_ram_other)
  have "unat (d + 32) = unat d + 32" using assms(5,6) by (simp add: unat_word_ariths)
  then show ?thesis using assms same by (simp add: switch_restores Let_def add.assoc)
qed

lemma layout_fields [simp]:
  "at_sp layout1 = 0" "at_stack layout1 = 4" "at_state layout1 = 8196"
  "at_sp layout4 = 8" "at_stack layout4 = 12" "at_state layout4 = 8204"
  by (simp_all add: layout1_def layout4_def STACK_SIZE_def)

lemma thread_create1_eq:
  assumes "free_thread layout1 a m = Some i" "t = thread_at layout1 a i"
  shows "thread_create1 func a m =
    Inr (m\<lparr>ram := store32 (t + 8196) RUNNABLE (store32 t (t + 8160) (store32 (t + 8192) func (ram m)))\<rparr>)"
  using assms
  by (simp add: thread_create1_def new_stack_def set_state_def set_field_def Let_def STACK_SIZE_def add.commute)

text \<open>
  C38. In uthread1 a created thread starts as it should. When the scheduler chooses the thread that was just created,
  whose structure is apart from the stack and the saved stack pointer of the running thread, the processor runs
  \<open>func\<close> with an empty stack: the stack pointer is at the end of the stack of the new thread, which is RUNNING and the
  current thread.
\<close>

theorem thread_create1_starts:
  assumes "free_thread layout1 a m = Some i" and "t = thread_at layout1 a i"
    and "thread_create1 func a m = Inr m1" and "choose_next layout1 a m1 = Some t"
    and "apart (current_thread m) 4 t 8200" and "apart (esp m - 36) 36 t 8200"
  shows "\<exists>m2. thread_schedule1 ret a m1 = Inr m2 \<and> eip m2 = func \<and> esp m2 = t + at_stack layout1 + STACK_SIZE \<and>
    current_thread m2 = t \<and> state layout1 m2 t = RUNNING"
proof -
  let ?r = "store32 (t + 8196) RUNNING (store32 (t + 8196) RUNNABLE (store32 t (t + 8160) (store32 (t + 8192) func (ram m))))"
  let ?m = "m\<lparr>next_thread := t, ram := ?r\<rparr>"
  have other: "current_thread m \<noteq> t" using assms(5) by (auto simp: apart_def)
  have m1: "m1 = m\<lparr>ram := store32 (t + 8196) RUNNABLE (store32 t (t + 8160) (store32 (t + 8192) func (ram m)))\<rparr>"
    using assms(3) thread_create1_eq [OF assms(1,2)] by simp
  then have step: "thread_schedule1 ret a m1 = Inr (thread_switch (push ret ?m))"
    using assms(4) other by (simp add: thread_schedule1_def set_state_def set_field_def STACK_SIZE_def)
  have ram: "load32 ?r t = t + 8160" "load32 ?r (t + 8192) = func"
    by (simp_all add: load32_store32_same load32_apart apart_def)
  have "load32 (save_ram ret ?m) (t + 8196) = load32 ?r (t + 8196)"
    using assms(5,6) by (intro load32_in [of t 8200]) (simp_all add: save_ram_other [of ?m t 8200])
  then have "state layout1 (thread_switch (push ret ?m)) t = RUNNING"
    by (simp add: state_def STACK_SIZE_def switch_restores Let_def load32_store32_same)
  then show ?thesis
    using step switch_to [of ?m t 8200 8160 ret] assms(5,6) ram
    by (simp add: Let_def STACK_SIZE_def)
qed

theorem thread_create1_starts_witness:
  "let m = thread_init1 4096 \<lparr>eax = 0, ecx = 0, edx = 0, ebx = 0, ebp = 0, esi = 0, edi = 0, esp = 80000, eip = 0,
      ram = (\<lambda>_. 0), current_thread = 0, next_thread = 0\<rparr>
   in \<exists>m1 m2. thread_create1 7 4096 m = Inr m1 \<and> thread_schedule1 9 4096 m1 = Inr m2 \<and> eip m2 = 7 \<and> esp m2 = 20492"
proof -
  let ?m = "thread_init1 4096 \<lparr>eax = 0, ecx = 0, edx = 0, ebx = 0, ebp = 0, esi = 0, edi = 0, esp = 80000, eip = 0,
      ram = (\<lambda>_. 0), current_thread = 0, next_thread = 0\<rparr>"
  have "free_thread layout1 4096 ?m = Some 1" "12296 = thread_at layout1 4096 1" by code_simp+
  moreover obtain m1 where "thread_create1 7 4096 ?m = Inr m1" and "m1 = projr (thread_create1 7 4096 ?m)"
    using thread_create1_eq [OF calculation] by simp
  moreover have "choose_next layout1 4096 (projr (thread_create1 7 4096 ?m)) = Some 12296" by code_simp
  moreover have "current_thread ?m = 4096" "esp ?m = 80000"
    by (simp_all add: thread_init1_def set_state_def set_field_def)
  ultimately show ?thesis
    using thread_create1_starts [of 4096 ?m 1 12296 7 m1 9] by (auto simp: apart_def STACK_SIZE_def Let_def)
qed

lemma load32_store_bytes:
  assumes "apart a (length bs) b 4" "bs \<noteq> []"
  shows "load32 (store_bytes a bs m) b = load32 m b"
proof (rule load32_cong)
  fix x assume "in_range b 4 x"
  then have "\<not> in_range a (length bs) x"
    using assms apart_in_range [of b 4 a "length bs" x] by (simp add: apart_sym)
  then show "store_bytes a bs m x = m x" by (simp add: store_bytes_def in_range_def)
qed

lemma thread_create4_eq:
  assumes "free_thread layout4 a m = Some i" "t = thread_at layout4 a i"
    and "p = tid (set_field 0 (of_nat i) t m) (current_thread m)"
  shows "thread_create4 func a m = Inr (of_nat i, m\<lparr>ram := store32 (t + 8204) RUNNABLE (store_bytes (t + 8168) (replicate 32 0)
      (store32 (t + 8) (t + 8168) (store32 (t + 8200) func (store32 (t + 4) p (store32 t (of_nat i) (ram m))))))\<rparr>)"
proof -
  let ?r = "store32 (t + 8) (t + 8168) (store32 (t + 8200) func (store32 (t + 4) p (store32 t (of_nat i) (ram m))))"
  have "new_stack layout4 func t (m\<lparr>ram := store32 (t + 4) p (store32 t (of_nat i) (ram m))\<rparr>) = m\<lparr>ram := ?r\<rparr>"
    by (simp add: new_stack_def set_field_def Let_def STACK_SIZE_def add.commute)
  moreover have "load32 ?r (t + 8) = t + 8168" by (rule load32_store32_same)
  moreover have "load32 (store_bytes (t + 8168) (replicate 32 0) ?r) t = of_nat i"
    by (simp add: load32_store32_same load32_apart load32_store_bytes apart_def)
  ultimately show ?thesis
    using assms by (simp add: thread_create4_def set_state_def set_field_def tid_def Let_def)
qed

text \<open>
  C39. In uthread4 a created thread does not start. The structure of a thread begins with its number, and
  \<open>thread_switch\<close> takes the stack pointer from the beginning of the structure: when the scheduler chooses the
  thread that was just created, with number \<open>i\<close>, the stack pointer becomes \<open>i\<close> plus the 36 bytes that are popped,
  and execution goes on at the word that lies at address \<open>i\<close> + 32, wherever \<open>func\<close> is. The number of the thread that
  made the switch is replaced by its stack pointer.
\<close>

theorem thread_switch4_takes_tid:
  assumes "free_thread layout4 a m = Some i" and "t = thread_at layout4 a i"
    and "thread_create4 func a m = Inr (n, m1)" and "choose_next layout4 a m1 = Some t"
    and "apart (current_thread m) 8208 t 8208" and "apart (esp m - 36) 36 t 8208"
  shows "\<exists>m2. thread_schedule4 ret a m1 = Inr m2 \<and> n = of_nat i \<and> esp m2 = of_nat i + 36 \<and>
    eip m2 = load32 (ram m2) (of_nat i + 32) \<and> tid m2 (current_thread m) = esp m - 36"
proof -
  define p where "p = tid (set_field 0 (of_nat i) t m) (current_thread m)"
  have n: "n = of_nat i" and m1: "m1 = m\<lparr>ram := store32 (t + 8204) RUNNABLE (store_bytes (t + 8168) (replicate 32 0)
      (store32 (t + 8) (t + 8168) (store32 (t + 8200) func (store32 (t + 4) p (store32 t (of_nat i) (ram m))))))\<rparr>"
    using thread_create4_eq [OF assms(1,2) p_def, of func] assms(3) by simp_all
  let ?c = "current_thread m"
  let ?r = "store32 (?c + 8204) RUNNABLE (store32 (t + 8204) RUNNING (ram m1))"
  let ?m = "m\<lparr>next_thread := t, ram := ?r\<rparr>"
  have other: "?c \<noteq> t" using assms(5) by (auto simp: apart_def)
  have step: "thread_schedule4 ret a m1 = Inr (thread_switch (push ret ?m))"
    using assms(4) other m1 by (simp add: thread_schedule4_def set_state_def set_field_def)
  have "apart (?c + 8204) 4 (t + 0) 4" "apart (?c + 0) 4 (t + 0) 8208" using assms(5) by (rule apart_sub; simp)+
  then have "load32 ?r t = of_nat i" and "apart ?c 4 t 8208"
    by (simp_all add: m1 load32_store32_same load32_apart load32_store_bytes apart_def)
  moreover from this have "load32 (save_ram ret ?m) t = load32 ?r t"
    using assms(6) by (intro load32_in [of t 8208]) (simp_all add: save_ram_other [of ?m t 8208])
  ultimately have "load32 (save_ram ret ?m) t = of_nat i" by simp
  then show ?thesis
    using step n by (simp add: switch_restores Let_def tid_def save_ram_def load32_store32_same)
qed

theorem thread_switch4_takes_tid_witness:
  "let m = thread_init4 4096 \<lparr>eax = 0, ecx = 0, edx = 0, ebx = 0, ebp = 0, esi = 0, edi = 0, esp = 200000, eip = 0,
      ram = (\<lambda>_. 0), current_thread = 0, next_thread = 0\<rparr>
   in \<exists>m1 m2. thread_create4 7 4096 m = Inr (1, m1) \<and> thread_schedule4 9 4096 m1 = Inr m2 \<and> esp m2 = 37 \<and>
    tid m2 4096 = 199964"
proof -
  let ?m = "thread_init4 4096 \<lparr>eax = 0, ecx = 0, edx = 0, ebx = 0, ebp = 0, esi = 0, edi = 0, esp = 200000, eip = 0,
      ram = (\<lambda>_. 0), current_thread = 0, next_thread = 0\<rparr>"
  have "free_thread layout4 4096 ?m = Some 1" "12304 = thread_at layout4 4096 1" by code_simp+
  moreover from this obtain p m1 where create: "thread_create4 7 4096 ?m = Inr (1, m1)"
    and m1: "ram m1 = store32 20508 RUNNABLE (store_bytes 20472 (replicate 32 0) (store32 12312 20472 (store32 20504 7
      (store32 12308 p (store32 12304 1 (ram ?m))))))" "current_thread m1 = current_thread ?m"
    using thread_create4_eq [OF _ _ refl, of 4096 ?m 1 12304 7] by simp
  moreover have "state layout4 m1 12304 = RUNNABLE" "state layout4 m1 4096 = RUNNING" "12304 \<noteq> current_thread m1"
    by (simp_all add: state_def m1 load32_store32_same load32_apart load32_store_bytes apart_def thread_init4_def
      set_state_def set_field_def)
  then have "choose_next layout4 4096 m1 = Some 12304"
    by (simp add: choose_next_def runnable_other_def all_threads_def thread_at_def layout4_def uthread_states upt_rec)
  moreover have "current_thread ?m = 4096" "esp ?m = 200000"
    by (simp_all add: thread_init4_def set_state_def set_field_def)
  ultimately show ?thesis
    using thread_switch4_takes_tid [of 4096 ?m 1 12304 7 1 m1 9] by (auto simp: apart_def Let_def)
qed

end
