(* ===== verification/Mp.thy ===== *)
theory Mp
  imports Memory Mmu Param
begin

text \<open>
  Detection of the processors, \<open>src/xv6/mp_uefi.c\<close>: the table MADT that the firmware leaves in memory is read entry by
  entry. The loop need not end, so it is a partial function; \<open>None\<close> says that it does not.
\<close>

definition BOOTPARAM :: u32 where "BOOTPARAM = 0x50000"

text \<open>The variables that \<open>mpinit_uefi\<close> sets: \<open>cpus[i].apicid\<close>, \<open>ncpu\<close>, \<open>ioapicid\<close> and \<open>lapic\<close>.\<close>

record mp =
  apicids :: "u8 list"
  ncpu :: nat
  ioapicid :: u8
  lapic :: u32

definition add_cpu :: "u8 \<Rightarrow> mp \<Rightarrow> mp" where
  "add_cpu lapic_id s =
    (if ncpu s < NCPU then s\<lparr>apicids := (apicids s)[ncpu s := lapic_id], ncpu := ncpu s + 1\<rparr> else s)"

partial_function (option) mpinit_loop :: "mem \<Rightarrow> u32 \<Rightarrow> u32 \<Rightarrow> mp \<Rightarrow> mp option" where
  "mpinit_loop m madt i s =
    (if i < load32 m (madt + 4) then
       let entry_type = madt + i; record_len = ucast (m (entry_type + 1)) in
       if m entry_type = 0 then mpinit_loop m madt (i + record_len) (add_cpu (m (entry_type + 3)) s)
       else if m entry_type = 1 then mpinit_loop m madt (i + record_len) (s\<lparr>ioapicid := m (entry_type + 2)\<rparr>)
       else if m entry_type = 2 then mpinit_loop m madt (i + record_len) s
       else if m entry_type = 4 then mpinit_loop m madt (i + record_len) s
       else if m entry_type = 5 then mpinit_loop m madt (i + 0xC) s
       else mpinit_loop m madt i s
     else Some s)"

text \<open>The address of the table is the word at offset 8 of \<open>struct boot_param\<close>; the table has a header of 44 bytes.\<close>

definition mpinit_uefi :: "mem \<Rightarrow> mp \<Rightarrow> mp option" where
  "mpinit_uefi m s =
    (let boot_param = P2V BOOTPARAM; madt = P2V (load32 m (boot_param + 8))
     in mpinit_loop m madt 44 (s\<lparr>lapic := load32 m (madt + 36), ncpu := 0\<rparr>))"

section \<open>Tables\<close>

text \<open>A table as the firmware specification has it: entries one after the other, each with its length.\<close>

fun laid_out :: "mem \<Rightarrow> u32 \<Rightarrow> u8 list list \<Rightarrow> bool" where
  "laid_out m a [] \<longleftrightarrow> True"
| "laid_out m a (e # es) \<longleftrightarrow> load_bytes m a (length e) = e \<and> laid_out m (a + of_nat (length e)) es"

definition entry_ok :: "u8 list \<Rightarrow> bool" where
  "entry_ok e \<longleftrightarrow> 4 \<le> length e \<and> length e < 256 \<and>
    ((e ! 0 = 0 \<or> e ! 0 = 1 \<or> e ! 0 = 2 \<or> e ! 0 = 4) \<and> unat (e ! 1) = length e \<or> e ! 0 = 5 \<and> length e = 12)"

text \<open>What one entry does, and the sum of the lengths.\<close>

definition apply_entry :: "u8 list \<Rightarrow> mp \<Rightarrow> mp" where
  "apply_entry e s = (if e ! 0 = 0 then add_cpu (e ! 3) s else if e ! 0 = 1 then s\<lparr>ioapicid := e ! 2\<rparr> else s)"

definition cpu_ids :: "u8 list list \<Rightarrow> u8 list" where
  "cpu_ids es = map (\<lambda>e. e ! 3) (filter (\<lambda>e. e ! 0 = 0) es)"

definition total :: "u8 list list \<Rightarrow> nat" where
  "total es = sum_list (map length es)"

lemma load_bytes_nth: "load_bytes m a n = e \<Longrightarrow> i < n \<Longrightarrow> m (a + of_nat i) = e ! i"
  by (auto simp: load_bytes_def)

lemma mpinit_step:
  assumes "entry_ok e" "load_bytes m (madt + i) (length e) = e" "i < load32 m (madt + 4)"
  shows "mpinit_loop m madt i s = mpinit_loop m madt (i + of_nat (length e)) (apply_entry e s)"
proof -
  have len: "4 \<le> length e" using assms(1) by (simp add: entry_ok_def)
  then have ne: "e \<noteq> []" by auto
  note b = load_bytes_nth [OF assms(2)]
  have bytes: "m (madt + i) = e ! 0" "m (madt + i + 1) = e ! 1" "m (madt + i + 2) = e ! 2" "m (madt + i + 3) = e ! 3"
    using b [of 0] b [of 1] b [of 2] b [of 3] len ne by simp_all
  have "ucast (e ! 1) = (of_nat (length e) :: u32)" if "unat (e ! 1) = length e"
    using that by (metis of_nat_unat)
  moreover have "(0xC :: u32) = of_nat (length e)" if "length e = 12" using that by simp
  ultimately show ?thesis
    using assms(1,3) by (subst mpinit_loop.simps) (auto simp: bytes Let_def entry_ok_def apply_entry_def)
qed

lemma mpinit_entries:
  assumes "laid_out m (madt + i) es" "list_all entry_ok es" "unat i + total es \<le> unat (load32 m (madt + 4))"
  shows "mpinit_loop m madt i s = mpinit_loop m madt (i + of_nat (total es)) (fold apply_entry es s)"
  using assms
proof (induction es arbitrary: i s)
  case (Cons e es)
  have e: "entry_ok e" "load_bytes m (madt + i) (length e) = e" using Cons.prems by simp_all
  have len: "4 \<le> length e" "unat i + length e + total es \<le> unat (load32 m (madt + 4))"
    using e(1) Cons.prems(3) by (simp_all add: entry_ok_def total_def)
  then have lt: "i < load32 m (madt + 4)" by (simp add: word_less_nat_alt)
  have "unat (i + of_nat (length e)) = unat i + length e"
    using len unsigned_less [of "load32 m (madt + 4)", where 'a = nat] by (simp add: unat_word_ariths unat_of_nat)
  then show ?case
    using Cons.IH [of "i + of_nat (length e)" "apply_entry e s"] Cons.prems len mpinit_step [OF e lt]
    by (simp add: total_def add.assoc)
qed (simp add: total_def)

lemma mpinit_ends: "\<not> i < load32 m (madt + 4) \<Longrightarrow> mpinit_loop m madt i s = Some s"
  by (simp add: mpinit_loop.simps)

definition known :: "u8 \<Rightarrow> bool" where
  "known t \<longleftrightarrow> t = 0 \<or> t = 1 \<or> t = 2 \<or> t = 4 \<or> t = 5"

lemma mpinit_stuck:
  assumes "i < load32 m (madt + 4)" "\<not> known (m (madt + i))"
  shows "mpinit_loop m madt i s = None"
proof (rule ccontr)
  assume "mpinit_loop m madt i s \<noteq> None"
  then obtain y where y: "mpinit_loop m madt i s = Some y" by blast
  have "\<not> (i < load32 m (madt + 4) \<and> \<not> known (m (madt + i)))"
    by (rule mpinit_loop.raw_induct [where P = "\<lambda>m madt i s y. \<not> (i < load32 m (madt + 4) \<and> \<not> known (m (madt + i)))", OF _ y])
      (simp only: known_def Let_def split: if_splits; blast)
  then show False using assms by blast
qed

lemma fold_apply:
  assumes "ncpu s \<le> NCPU" "length (apicids s) = NCPU"
  shows "let s' = fold apply_entry es s in ncpu s' = min NCPU (ncpu s + length (cpu_ids es)) \<and>
    take (ncpu s') (apicids s') = take NCPU (take (ncpu s) (apicids s) @ cpu_ids es) \<and>
    lapic s' = lapic s \<and> ioapicid s' = last (ioapicid s # map (\<lambda>e. e ! 2) (filter (\<lambda>e. e ! 0 = 1) es))"
  using assms
proof (induction es arbitrary: s)
  case (Cons e es)
  have a: "ncpu (apply_entry e s) \<le> NCPU" "length (apicids (apply_entry e s)) = NCPU" "lapic (apply_entry e s) = lapic s"
    using Cons.prems by (simp_all add: apply_entry_def add_cpu_def)
  have "take NCPU (take (ncpu (apply_entry e s)) (apicids (apply_entry e s)) @ xs) =
      take NCPU (take (ncpu s) (apicids s) @ cpu_ids [e] @ xs)"
    "min NCPU (ncpu (apply_entry e s) + k) = min NCPU (ncpu s + length (cpu_ids [e]) + k)" for xs k
    using Cons.prems by (auto simp: apply_entry_def add_cpu_def cpu_ids_def take_Suc_conv_app_nth not_less)
  moreover have "last (ioapicid (apply_entry e s) # map (\<lambda>e. e ! 2) (filter (\<lambda>e. e ! 0 = 1) es)) =
      last (ioapicid s # map (\<lambda>e. e ! 2) (filter (\<lambda>e. e ! 0 = 1) (e # es)))"
    by (simp add: apply_entry_def add_cpu_def)
  moreover have "cpu_ids (e # es) = cpu_ids [e] @ cpu_ids es" by (simp add: cpu_ids_def)
  ultimately show ?case using Cons.IH [OF a(1,2)] a(3) unfolding Let_def fold_simps by (simp only: length_append add.assoc) metis
qed (simp add: cpu_ids_def Let_def min_def)

text \<open>
  C40. Detection of the processors ends on every table whose entries have the five types the loop knows, with the
  identifiers of the first NCPU processors of the table in order, the identifier of the last I/O interrupt controller
  and the address of the local one. When an entry of another type follows, the loop never ends.
\<close>

theorem mpinit_reads_table:
  assumes "madt = P2V (load32 m (P2V BOOTPARAM + 8))" and "laid_out m (madt + 44) es" and "list_all entry_ok es"
    and "length (apicids s) = NCPU" and "44 + total es \<le> unat (load32 m (madt + 4))"
  shows "(44 + total es = unat (load32 m (madt + 4)) \<longrightarrow> (\<exists>s'. mpinit_uefi m s = Some s' \<and>
      ncpu s' = min NCPU (length (cpu_ids es)) \<and> take (ncpu s') (apicids s') = take NCPU (cpu_ids es) \<and>
      ioapicid s' = last (ioapicid s # map (\<lambda>e. e ! 2) (filter (\<lambda>e. e ! 0 = 1) es)) \<and> lapic s' = load32 m (madt + 36))) \<and>
    (44 + total es < unat (load32 m (madt + 4)) \<and> \<not> known (m (madt + 44 + of_nat (total es))) \<longrightarrow> mpinit_uefi m s = None)"
proof -
  let ?s = "s\<lparr>lapic := load32 m (madt + 36), ncpu := 0\<rparr>" and ?i = "44 + of_nat (total es) :: u32"
  have run: "mpinit_uefi m s = mpinit_loop m madt ?i (fold apply_entry es ?s)"
    using mpinit_entries [of m madt 44 es ?s] assms by (simp add: mpinit_uefi_def Let_def)
  have i: "unat ?i = 44 + total es"
    using assms(5) unsigned_less [of "load32 m (madt + 4)", where 'a = nat] by (simp add: unat_word_ariths unat_of_nat)
  have "mpinit_uefi m s = Some (fold apply_entry es ?s)" if "44 + total es = unat (load32 m (madt + 4))"
    unfolding run using that i by (intro mpinit_ends) (simp add: word_less_nat_alt)
  moreover have "mpinit_uefi m s = None"
    if "44 + total es < unat (load32 m (madt + 4))" "\<not> known (m (madt + 44 + of_nat (total es)))"
    unfolding run using that i by (intro mpinit_stuck) (simp_all add: word_less_nat_alt add.assoc)
  ultimately show ?thesis using fold_apply [of ?s es] assms(4) by (auto simp: Let_def)
qed

theorem mpinit_reads_table_witness:
  "let es = [[0, 8, 0, 5, 1, 0, 0, 0], [1, 12, 3, 0, 0, 0, 0xC0, 0xFE, 0, 0, 0, 0], [0, 8, 1, 6, 1, 0, 0, 0]] :: u8 list list;
     m = store32 0x80050008 0x1000 (store32 0x80001004 72 (store_bytes 0x8000102C (concat es) (\<lambda>_. 0)));
     s = \<lparr>apicids = [0, 0, 0, 0], ncpu = 0, ioapicid = 0, lapic = 0\<rparr>
   in \<exists>s'. mpinit_uefi m s = Some s' \<and> ncpu s' = 2 \<and> take 2 (apicids s') = [5, 6] \<and> ioapicid s' = 3"
proof -
  let ?es = "[[0, 8, 0, 5, 1, 0, 0, 0], [1, 12, 3, 0, 0, 0, 0xC0, 0xFE, 0, 0, 0, 0], [0, 8, 1, 6, 1, 0, 0, 0]] :: u8 list list"
  let ?m = "store32 0x80050008 0x1000 (store32 0x80001004 72 (store_bytes 0x8000102C (concat ?es) (\<lambda>_. 0)))"
  let ?s = "\<lparr>apicids = [0, 0, 0, 0], ncpu = 0, ioapicid = 0, lapic = 0\<rparr>"
  have "0x80001000 = P2V (load32 ?m (P2V BOOTPARAM + 8))" "load32 ?m (0x80001000 + 4) = 72" by code_simp+
  moreover have "laid_out ?m (0x80001000 + 44) ?es" by code_simp
  moreover have "list_all entry_ok ?es" "total ?es = 28" "cpu_ids ?es = [5, 6]" by code_simp+
  ultimately have "\<exists>s'. mpinit_uefi ?m ?s = Some s' \<and> ncpu s' = Suc (Suc 0) \<and> take (ncpu s') (apicids s') = [5, 6] \<and> ioapicid s' = 3"
    using mpinit_reads_table [of "0x80001000" ?m ?es ?s] by (simp add: NCPU_def) blast
  then show ?thesis unfolding Let_def numeral_2_eq_2 by metis
qed

end
