(* ===== verification/Contents.thy ===== *)
theory Contents
  imports Inode
begin

text \<open>
  Files as byte arrays: \<open>readi\<close> and \<open>writei\<close> of \<open>src/xv6/fs.c\<close> against the bytes that the blocks of a file hold. The
  theory adds no code to the model; it states when the blocks of a file are mapped and shows that the two loops
  refine copies out of and into a list of bytes.
\<close>

section \<open>Blocks in a transaction\<close>

text \<open>The state of a file system call between two block operations: inside a transaction, with no buffer held.\<close>

definition in_txn :: "'z log_scheme \<Rightarrow> bool" where
  "in_txn s \<longleftrightarrow> txn_ok s \<and> 1 \<le> l_outstanding s \<and> held s = (\<lambda>_. None)"

text \<open>From \<open>s\<close> to \<open>s'\<close> the blocks become \<open>v\<close>, with at most \<open>k\<close> more blocks in the log, and all else is kept.\<close>

definition moved :: "nat \<Rightarrow> (u32 \<Rightarrow> u8 list) \<Rightarrow> 'z log_scheme \<Rightarrow> 'z log_scheme \<Rightarrow> bool" where
  "moved k v s s' \<longleftrightarrow> in_txn s' \<and> bview s' = v \<and> lrest s' = lrest s \<and> disksize s' = disksize s \<and>
     length (logged s') \<le> length (logged s) + k"

lemma moved_trans: "moved k v s s' \<Longrightarrow> moved l w s' s'' \<Longrightarrow> moved (k + l) w s s''"
  by (simp add: moved_def)

lemma moved_refl: "in_txn s \<Longrightarrow> moved 0 (bview s) s s"
  by (simp add: moved_def)

lemma moved_log:
  assumes "moved k v s s'"
  shows "l_size s' = l_size s" "log_region s' = log_region s" "l_outstanding s' = l_outstanding s"
  using assms by (simp_all add: moved_def lrest_def log_region_def)

lemma lrest_fs:
  fixes s :: "('d, 'z) fs_scheme"
  assumes "lrest s' = lrest s"
  shows "icache s' = icache s" "fs_sb s' = fs_sb s" "fs_devsw s' = fs_devsw s" "fs_dev s' = fs_dev s"
  using assms by (cases s; cases s'; simp add: lrest_def)+

lemma lh_n_logged: "txn_ok s \<Longrightarrow> lh_n s = int (length (logged s))"
  by (auto simp: txn_ok_def log_ok_def log_geom_def logged_def)

lemma in_txn_readable:
  assumes "in_txn s" "blk < disksize s"
  shows "st_readable blk (babs s)"
proof -
  have "card (set (logged s)) < NBUF" "dirty s = set (logged s)"
    using assms(1) card_logged [of s] by (simp_all add: in_txn_def txn_ok_def log_ok_def)
  then show ?thesis using assms by (simp add: st_readable_def in_txn_def dom_def)
qed

lemma txn_read:
  assumes "in_txn s" "blk < disksize s"
  shows "\<exists>b s1 s'. bread 1 blk s = Inr (b, s1) \<and> bdata s1 b = bview s blk \<and> lrest s1 = lrest s \<and> brelse b s1 = Inr s' \<and>
    moved 0 (bview s) s s'"
proof -
  have t: "txn_ok s" and c: "cache_ok s" using assms(1) by (simp_all add: in_txn_def txn_ok_def log_ok_def)
  from bc.read_only [OF c in_txn_readable [OF assms]] obtain b s1 s' where r: "bread 1 blk s = Inr (b, s1)"
    "bdata s1 b = st_view (babs s) blk" "brest s1 = brest s" "brelse b s1 = Inr s'" "cache_ok s'" "babs s' = babs s"
    "brest s' = brest s" by blast
  have "bview s' = bview s" "held s' = held s" "disksize s' = disksize s"
    using arg_cong [OF r(6), of st_view] arg_cong [OF r(6), of st_held] arg_cong [OF r(6), of st_size] by simp_all
  moreover have "txn_ok s'" using txn_cong [OF r(6,7,5) t] .
  moreover have "logged s' = logged s" using log_rest [OF r(7)] by (simp add: logged_def)
  ultimately show ?thesis
    using r assms(1) brest_lrest [OF r(3)] brest_lrest [OF r(7)] log_rest [OF r(7)]
    by (auto simp: moved_def in_txn_def)
qed

lemma txn_update:
  assumes "in_txn s" "blk < disksize s" "blk \<notin> log_region s" "length (logged s) + 1 < nat (l_size s)"
  shows "\<exists>b s1. bread 1 blk s = Inr (b, s1) \<and> bdata s1 b = bview s blk \<and> lrest s1 = lrest s \<and>
    (\<forall>d. length d = BSIZE \<longrightarrow> (\<exists>s2 s'. log_write b (set_data b d s1) = Inr s2 \<and> brelse b s2 = Inr s' \<and>
      moved 1 ((bview s)(blk := d)) s s'))"
proof -
  have t: "txn_ok s" and o1: "1 \<le> l_outstanding s" and h: "held s = (\<lambda>_. None)" using assms(1) by (simp_all add: in_txn_def)
  have room: "lh_n s < l_size s - 1" using assms(4) lh_n_logged [OF t] by linarith
  from log_update [OF t in_txn_readable [OF assms(1,2)] assms(3) room o1] obtain b s1 where
    b: "bread 1 blk s = Inr (b, s1)" "bdata s1 b = bview s blk" "lrest s1 = lrest s"
    and d: "\<And>d. length d = BSIZE \<Longrightarrow> \<exists>s2 s3. log_write b (set_data b d s1) = Inr s2 \<and> brelse b s2 = Inr s3 \<and>
      txn_ok s3 \<and> bview s3 = (bview s)(blk := d) \<and> held s3 = held s \<and> memdisk s3 = memdisk s \<and>
      bio_writes s3 = bio_writes s \<and> disksize s3 = disksize s \<and> lrest s3 = lrest s \<and>
      logged s3 = (if blk \<in> set (logged s) then logged s else logged s @ [blk])" by metis
  have "\<exists>s2 s'. log_write b (set_data b d s1) = Inr s2 \<and> brelse b s2 = Inr s' \<and> moved 1 ((bview s)(blk := d)) s s'"
    if "length d = BSIZE" for d
  proof -
    from d [OF that] obtain s2 s3 where 3: "log_write b (set_data b d s1) = Inr s2" "brelse b s2 = Inr s3" "txn_ok s3"
      "bview s3 = (bview s)(blk := d)" "held s3 = held s" "disksize s3 = disksize s" "lrest s3 = lrest s"
      "logged s3 = (if blk \<in> set (logged s) then logged s else logged s @ [blk])" by blast
    have "l_outstanding s3 = l_outstanding s" using 3(7) by (simp add: lrest_def)
    then show ?thesis using 3 o1 h by (auto simp: moved_def in_txn_def)
  qed
  then show ?thesis using b by blast
qed

section \<open>Mapped files\<close>

definition block_of :: "('d, 'z) fs_scheme \<Rightarrow> nat \<Rightarrow> nat \<Rightarrow> u32" where
  "block_of s ip bn =
    (let a = i_addrs (icache s ! ip) in if bn < NDIRECT then a ! bn else get32 (bview s (a ! NDIRECT)) (4 * (bn - NDIRECT)))"

text \<open>A block that the file system may use: on the disk and outside the log.\<close>

definition fs_block :: "'z log_scheme \<Rightarrow> u32 \<Rightarrow> bool" where
  "fs_block s blk \<longleftrightarrow> blk < disksize s \<and> blk \<notin> log_region s"

text \<open>
  The first \<open>n\<close> blocks of the file in the entry \<open>ip\<close> are mapped, to different blocks, none of them the indirect block
  or the block of the inode.
\<close>

definition mapped :: "('d, 'z) fs_scheme \<Rightarrow> nat \<Rightarrow> nat \<Rightarrow> bool" where
  "mapped s ip n \<longleftrightarrow>
    (let i = icache s ! ip; ind = i_addrs i ! NDIRECT; ib = IBLOCK (i_inum i) (fs_sb s) in
     ip < length (icache s) \<and> i_dev i = 1 \<and> n \<le> MAXFILE \<and> fs_block s ib \<and>
     (\<forall>k<n. block_of s ip k \<noteq> 0 \<and> fs_block s (block_of s ip k) \<and> block_of s ip k \<noteq> ib \<and>
        (NDIRECT < n \<longrightarrow> block_of s ip k \<noteq> ind)) \<and>
     (\<forall>j<n. \<forall>k<n. block_of s ip j = block_of s ip k \<longrightarrow> j = k) \<and>
     (NDIRECT < n \<longrightarrow> ind \<noteq> 0 \<and> fs_block s ind \<and> ind \<noteq> ib))"

definition byte :: "('d, 'z) fs_scheme \<Rightarrow> nat \<Rightarrow> nat \<Rightarrow> u8" where
  "byte s ip i = bview s (block_of s ip (i div BSIZE)) ! (i mod BSIZE)"

definition contents :: "('d, 'z) fs_scheme \<Rightarrow> nat \<Rightarrow> u8 list" where
  "contents s ip = map (byte s ip) [0..<unat (i_size (icache s ! ip))]"

lemma mapped_inode:
  assumes "mapped s ip n"
  shows "ip < length (icache s)" "i_dev (icache s ! ip) = 1" "n \<le> MAXFILE"
    "fs_block s (IBLOCK (i_inum (icache s ! ip)) (fs_sb s))"
  using assms unfolding mapped_def Let_def by blast+

lemma mapped_block:
  assumes "mapped s ip n" "k < n"
  shows "block_of s ip k \<noteq> 0" "fs_block s (block_of s ip k)"
    "block_of s ip k \<noteq> IBLOCK (i_inum (icache s ! ip)) (fs_sb s)"
    "NDIRECT < n \<Longrightarrow> block_of s ip k \<noteq> i_addrs (icache s ! ip) ! NDIRECT"
    "j < n \<Longrightarrow> block_of s ip j = block_of s ip k \<longleftrightarrow> j = k"
  using assms unfolding mapped_def Let_def by blast+

lemma mapped_indirect:
  assumes "mapped s ip n" "NDIRECT < n"
  shows "i_addrs (icache s ! ip) ! NDIRECT \<noteq> 0" "fs_block s (i_addrs (icache s ! ip) ! NDIRECT)"
    "i_addrs (icache s ! ip) ! NDIRECT \<noteq> IBLOCK (i_inum (icache s ! ip)) (fs_sb s)"
  using assms unfolding mapped_def Let_def by blast+

text \<open>What a change of the blocks leaves of the map of a file.\<close>

lemma block_of_cong:
  fixes s :: "('d, 'z) fs_scheme"
  assumes "lrest s' = lrest s" "NDIRECT \<le> k \<Longrightarrow> bview s' (i_addrs (icache s ! ip) ! NDIRECT) = bview s (i_addrs (icache s ! ip) ! NDIRECT)"
  shows "block_of s' ip k = block_of s ip k"
  using assms lrest_fs [OF assms(1)] by (simp add: block_of_def Let_def)

lemma mapped_moved:
  fixes s :: "('d, 'z) fs_scheme"
  assumes "mapped s ip n" "moved l v s s'"
    and "NDIRECT < n \<Longrightarrow> v (i_addrs (icache s ! ip) ! NDIRECT) = bview s (i_addrs (icache s ! ip) ! NDIRECT)"
  shows "mapped s' ip n" "k < n \<Longrightarrow> block_of s' ip k = block_of s ip k"
proof -
  have m: "lrest s' = lrest s" "disksize s' = disksize s" "bview s' = v" "log_region s' = log_region s"
    using assms(2) moved_log [OF assms(2)] by (simp_all add: moved_def)
  have b: "block_of s' ip k = block_of s ip k" if "k < n" for k
    using that assms(3) m by (intro block_of_cong) auto
  then show "k < n \<Longrightarrow> block_of s' ip k = block_of s ip k" .
  show "mapped s' ip n"
    using assms(1) b by (simp add: mapped_def Let_def fs_block_def m lrest_fs [OF m(1)])
qed

lemma bmap_mapped:
  fixes s :: "('d, 'z) fs_scheme"
  assumes "in_txn s" "mapped s ip n" "unat bn < n"
  shows "\<exists>s'. bmap ip bn s = Inr (block_of s ip (unat bn), s') \<and> moved 0 (bview s) s s'"
proof (cases "unat bn < NDIRECT")
  case True
  then have "i_addrs (icache s ! ip) ! unat bn \<noteq> 0" using mapped_block(1) [OF assms(2,3)] by (simp add: block_of_def Let_def)
  then show ?thesis using True moved_refl [OF assms(1)] by (simp add: bmap_def addr_alloc_def block_of_def Let_def)
next
  case False
  let ?ind = "i_addrs (icache s ! ip) ! NDIRECT" and ?k = "unat bn - NDIRECT"
  have n: "NDIRECT < n" using False assms(3) by simp
  have m: "?ind \<noteq> 0" "?ind < disksize s" "i_dev (icache s ! ip) = 1"
    using mapped_indirect [OF assms(2) n] mapped_inode [OF assms(2)] by (simp_all add: fs_block_def)
  have k: "?k < NINDIRECT" using False assms(3) mapped_inode(3) [OF assms(2)] by (simp add: MAXFILE_def)
  have a: "get32 (bview s ?ind) (4 * ?k) = block_of s ip (unat bn)" using False by (simp add: block_of_def Let_def)
  from txn_read [OF assms(1) m(2)] obtain b s1 s' where r: "bread 1 ?ind s = Inr (b, s1)" "bdata s1 b = bview s ?ind"
    "lrest s1 = lrest s" "brelse b s1 = Inr s'" "moved 0 (bview s) s s'" by blast
  have "bmap ip bn s = Inr (block_of s ip (unat bn), s')"
    using False m k a r mapped_block(1) [OF assms(2,3)] lrest_fs [OF r(3)] by (simp add: bmap_def addr_alloc_def Let_def)
  then show ?thesis using r by blast
qed

section \<open>Reading\<close>

lemma txn_length:
  assumes "in_txn s" "blk < disksize s"
  shows "length (bview s blk) = BSIZE"
proof -
  have "cache_ok s" using assms(1) by (simp add: in_txn_def txn_ok_def log_ok_def)
  then show ?thesis using bc.len [of s blk] assms(2) by simp
qed

lemma BSIZE_pos: "0 < BSIZE"
  by (simp add: BSIZE_def)

lemma chunk_le: "chunk off left \<le> left" "unat off mod BSIZE + chunk off left \<le> BSIZE"
  using mod_less_divisor [OF BSIZE_pos, of "unat off"] by (simp_all add: chunk_def)

lemma in_block:
  assumes "a mod BSIZE + m \<le> BSIZE" "j < m"
  shows "(a + j) div BSIZE = a div BSIZE" "(a + j) mod BSIZE = a mod BSIZE + j"
proof -
  have j: "a mod BSIZE + j < BSIZE" "j < BSIZE" using assms by linarith+
  then show "(a + j) div BSIZE = a div BSIZE" using div_add1_eq [of a j BSIZE] by simp
  show "(a + j) mod BSIZE = a mod BSIZE + j" using j mod_add_left_eq [of a BSIZE j] by simp
qed

lemma block_bytes:
  assumes "a mod BSIZE + m \<le> BSIZE" "length (bview s (block_of s ip (a div BSIZE))) = BSIZE"
  shows "get_bytes (a mod BSIZE) m (bview s (block_of s ip (a div BSIZE))) = map (byte s ip) [a..<a + m]"
  using assms by (intro nth_equalityI) (auto simp: get_bytes_def byte_def in_block [OF assms(1)])

lemma bn_unat: "unat (off div of_nat BSIZE) = unat off div BSIZE" for off :: u32
  by (simp add: unat_div BSIZE_def)

lemma off_add: "unat off + m < 2 ^ 32 \<Longrightarrow> unat (off + of_nat m) = unat off + m" for off :: u32
  by (simp add: unat_word_ariths unat_of_nat)

lemma byte_same:
  fixes s :: "('d, 'z) fs_scheme"
  assumes "mapped s ip n" "moved l (bview s) s s'" "i < n * BSIZE"
  shows "byte s' ip i = byte s ip i"
proof -
  have "i div BSIZE < n" using assms(3) by (simp add: less_mult_imp_div_less)
  then show ?thesis
    using mapped_moved(2) [OF assms(1,2)] assms(2) by (simp add: byte_def moved_def)
qed

lemma readi_loop_bytes:
  fixes s :: "('d, 'z) fs_scheme"
  assumes "in_txn s" "mapped s ip n" "unat off + left \<le> n * BSIZE"
  shows "\<exists>s'. readi_loop ip off left s = Inr (map (byte s ip) [unat off..<unat off + left], s') \<and> moved 0 (bview s) s s'"
  using assms
proof (induction left arbitrary: off s rule: less_induct)
  case (less left)
  show ?case
  proof (cases "left = 0")
    case True
    then show ?thesis using moved_refl [OF less.prems(1)] by (simp add: readi_loop.simps)
  next
    case False
    let ?a = "unat off" and ?m = "chunk off left"
    let ?blk = "block_of s ip (?a div BSIZE)"
    have bn: "?a div BSIZE < n" using False less.prems(3) by (simp add: less_mult_imp_div_less)
    from bmap_mapped [OF less.prems(1,2), of "off div of_nat BSIZE"] bn obtain s1 where
      s1: "bmap ip (off div of_nat BSIZE) s = Inr (?blk, s1)" "moved 0 (bview s) s s1" by (auto simp: bn_unat)
    have t1: "in_txn s1" "disksize s1 = disksize s" "bview s1 = bview s" and e1: "icache s1 = icache s"
      using s1(2) lrest_fs [of s1 s] by (simp_all add: moved_def)
    have blk: "?blk < disksize s" using mapped_block(2) [OF less.prems(2) bn] by (simp add: fs_block_def)
    from txn_read [OF t1(1), of ?blk] blk obtain b s2 s3 where s3: "bread 1 ?blk s1 = Inr (b, s2)"
      "bdata s2 b = bview s ?blk" "brelse b s2 = Inr s3" "moved 0 (bview s1) s1 s3" using t1 by auto
    have m3: "moved 0 (bview s) s s3" using moved_trans [OF s1(2) s3(4)] by (simp add: t1)
    have n32: "n * BSIZE < 2 ^ 32"
      using mapped_inode(3) [OF less.prems(2)] by (simp add: fs_defs)
    have off: "unat (off + of_nat ?m) = ?a + ?m"
      using off_add [of off ?m] less.prems(3) n32 chunk_le(1) [of off left] by linarith
    have "in_txn s3" "mapped s3 ip n" using m3 mapped_moved(1) [OF less.prems(2) m3] by (simp_all add: moved_def)
    moreover have "unat (off + of_nat ?m) + (left - ?m) \<le> n * BSIZE"
      using off less.prems(3) chunk_le(1) [of off left] by linarith
    ultimately obtain s' where s': "readi_loop ip (off + of_nat ?m) (left - ?m) s3 =
        Inr (map (byte s3 ip) [?a + ?m..<?a + left], s')" "moved 0 (bview s3) s3 s'"
      using less.IH [of "left - ?m" s3 "off + of_nat ?m"] False chunk_pos [of left off] off chunk_le(1) [of off left] by auto
    have "map (byte s3 ip) [?a + ?m..<?a + left] = map (byte s ip) [?a + ?m..<?a + left]"
      using byte_same [OF less.prems(2) m3] less.prems(3) by simp
    moreover have "get_bytes (?a mod BSIZE) ?m (bview s ?blk) = map (byte s ip) [?a..<?a + ?m]"
      by (rule block_bytes [OF chunk_le(2) txn_length [OF less.prems(1) blk]])
    ultimately have "readi_loop ip off left s = Inr (map (byte s ip) [?a..<?a + ?m] @ map (byte s ip) [?a + ?m..<?a + left], s')"
      using False s1(1) s3 s' e1 mapped_inode(2) [OF less.prems(2)] by (simp add: readi_loop.simps [of ip off left s] Let_def)
    moreover have "[?a..<?a + left] = [?a..<?a + ?m] @ [?a + ?m..<?a + left]"
      using chunk_le(1) [of off left] upt_add_eq_append [of ?a "?a + ?m" "left - ?m"] by simp
    moreover have "moved 0 (bview s) s s'" using moved_trans [OF m3 s'(2)] m3 by (simp add: moved_def)
    ultimately show ?thesis by simp
  qed
qed

section \<open>Writing\<close>

text \<open>The number of blocks that \<open>len\<close> bytes at \<open>a\<close> touch.\<close>

definition touched :: "nat \<Rightarrow> nat \<Rightarrow> nat" where
  "touched a len = (if len = 0 then 0 else (a mod BSIZE + len - 1) div BSIZE + 1)"

lemma touched_step:
  assumes "0 < len" "m = chunk off len" "a = unat off"
  shows "touched a len = Suc (touched (a + m) (len - m))"
proof (cases "m = len")
  case True
  then have "a mod BSIZE + len \<le> BSIZE" using chunk_le(2) [of off len] assms by simp
  then show ?thesis using True assms(1) by (simp add: touched_def)
next
  case False
  then have m: "a mod BSIZE + m = BSIZE" "m < len"
    using assms chunk_le(1) [of off len] mod_less_divisor [OF BSIZE_pos, of a] by (auto simp: chunk_def)
  then have z: "(a + m) mod BSIZE = 0" using mod_add_left_eq [of a BSIZE m] by simp
  have "a mod BSIZE + len - 1 = BSIZE + (len - m - 1)" using m by linarith
  then have "(a mod BSIZE + len - 1) div BSIZE = Suc ((len - m - 1) div BSIZE)" using BSIZE_pos by (simp only: div_add_self1)
  then show ?thesis using m z by (simp add: touched_def)
qed

lemma div_eq_range:
  assumes "i div BSIZE = a div BSIZE"
  shows "a mod BSIZE \<le> i mod BSIZE \<longleftrightarrow> a \<le> i" "i mod BSIZE < a mod BSIZE + m \<longleftrightarrow> i < a + m"
    "a \<le> i \<Longrightarrow> i mod BSIZE - a mod BSIZE = i - a"
proof -
  define q r t where "q = a div BSIZE * BSIZE" "r = i mod BSIZE" "t = a mod BSIZE"
  then have "i = q + r" "a = q + t" using assms div_mult_mod_eq [of i BSIZE] div_mult_mod_eq [of a BSIZE] by simp_all
  then show "a mod BSIZE \<le> i mod BSIZE \<longleftrightarrow> a \<le> i" "i mod BSIZE < a mod BSIZE + m \<longleftrightarrow> i < a + m"
    "a \<le> i \<Longrightarrow> i mod BSIZE - a mod BSIZE = i - a"
    unfolding q_r_t_def [symmetric] by simp_all
qed

lemma byte_put:
  fixes s :: "('d, 'z) fs_scheme"
  assumes "mapped s ip n" "moved l ((bview s)(blk := put_bytes (a mod BSIZE) xs (bview s blk))) s s'"
    and blk: "blk = block_of s ip (a div BSIZE)" "a div BSIZE < n" "length (bview s blk) = BSIZE"
    and xs: "a mod BSIZE + length xs \<le> BSIZE" and i: "i < n * BSIZE"
  shows "byte s' ip i = (if a \<le> i \<and> i < a + length xs then xs ! (i - a) else byte s ip i)"
proof -
  have k: "i div BSIZE < n" using i by (simp add: less_mult_imp_div_less)
  have b: "block_of s' ip (i div BSIZE) = block_of s ip (i div BSIZE)"
    by (rule mapped_moved(2) [OF assms(1,2) _ k]) (use mapped_block(4) [OF assms(1) blk(2)] in \<open>auto simp: blk(1)\<close>)
  have "block_of s ip (i div BSIZE) = blk \<longleftrightarrow> i div BSIZE = a div BSIZE"
    using mapped_block(5) [OF assms(1) blk(2) k] by (simp add: blk(1))
  note b = b this
  show ?thesis
  proof (cases "i div BSIZE = a div BSIZE")
    case True
    have "i mod BSIZE < BSIZE" by (simp add: BSIZE_pos)
    then have "byte s' ip i = (if a mod BSIZE \<le> i mod BSIZE \<and> i mod BSIZE < a mod BSIZE + length xs
        then xs ! (i mod BSIZE - a mod BSIZE) else bview s blk ! (i mod BSIZE))"
      using assms(2) b True blk(3) xs by (simp add: byte_def moved_def nth_put_bytes)
    moreover have "bview s blk ! (i mod BSIZE) = byte s ip i" using b True by (simp add: byte_def)
    ultimately show ?thesis using div_eq_range [OF True] by simp
  next
    case False
    have "\<not> (a \<le> i \<and> i < a + length xs)"
    proof
      assume r: "a \<le> i \<and> i < a + length xs"
      then have "i - a < length xs" by linarith
      from in_block(1) [OF xs this] show False using False r by simp
    qed
    moreover have "byte s' ip i = byte s ip i" using False b assms(2) by (simp add: byte_def moved_def)
    ultimately show ?thesis by (simp only: if_False)
  qed
qed

lemma writei_loop_bytes:
  fixes s :: "('d, 'z) fs_scheme"
  assumes "in_txn s" "mapped s ip n" "unat off + length src \<le> n * BSIZE"
    and "length (logged s) + touched (unat off) (length src) < nat (l_size s)"
  shows "\<exists>s'. writei_loop ip off src s = Inr (off + of_nat (length src), s') \<and>
    moved (touched (unat off) (length src)) (bview s') s s' \<and>
    (\<forall>blk. blk \<notin> block_of s ip ` {..<n} \<longrightarrow> bview s' blk = bview s blk) \<and>
    (\<forall>i<n * BSIZE. byte s' ip i = (if unat off \<le> i \<and> i < unat off + length src then src ! (i - unat off) else byte s ip i))"
  using assms
proof (induction "length src" arbitrary: off src s rule: less_induct)
  case less
  note p = less.prems
  show ?case
  proof (cases "src = []")
    case True
    then show ?thesis using moved_refl [OF p(1)] by (auto simp: writei_loop.simps touched_def)
  next
    case False
    let ?a = "unat off" and ?l = "length src"
    define m where "m = chunk off ?l"
    define blk where "blk = block_of s ip (?a div BSIZE)"
    define d where "d = put_bytes (?a mod BSIZE) (take m src) (bview s blk)"
    have m: "m \<le> ?l" "0 < m" "?a mod BSIZE + m \<le> BSIZE"
      using False chunk_le [of off ?l] chunk_pos [of ?l off] by (simp_all add: m_def)
    have t: "touched ?a ?l = Suc (touched (?a + m) (?l - m))" using touched_step [of ?l m off ?a] False by (simp add: m_def)
    have "?a < n * BSIZE" using False p(3) by (cases src) auto
    then have bn: "?a div BSIZE < n" by (simp add: less_mult_imp_div_less)
    from bmap_mapped [OF p(1,2), of "off div of_nat BSIZE"] bn obtain s1 where
      s1: "bmap ip (off div of_nat BSIZE) s = Inr (blk, s1)" "moved 0 (bview s) s s1" by (auto simp: bn_unat blk_def)
    have t1: "in_txn s1" "disksize s1 = disksize s" "bview s1 = bview s" "l_size s1 = l_size s" "log_region s1 = log_region s"
      "length (logged s1) \<le> length (logged s)" and e1: "icache s1 = icache s"
      using s1(2) lrest_fs [of s1 s] moved_log [OF s1(2)] by (simp_all add: moved_def)
    have b: "blk < disksize s" "blk \<notin> log_region s" using mapped_block(2) [OF p(2) bn] by (simp_all add: fs_block_def blk_def)
    note len = txn_length [OF p(1) b(1)]
    have "length d = BSIZE" using m len by (simp add: d_def)
    moreover have "length (logged s1) + 1 < nat (l_size s1)" using p(4) t t1 by linarith
    ultimately obtain c s2 s3 s4 where s4: "bread 1 blk s1 = Inr (c, s2)" "bdata s2 c = bview s blk"
      "log_write c (set_data c d s2) = Inr s3" "brelse c s3 = Inr s4" "moved 1 ((bview s)(blk := d)) s1 s4"
      using txn_update [OF t1(1), of blk] b t1 by auto
    have m4: "moved 1 ((bview s)(blk := d)) s s4" using moved_trans [OF s1(2) s4(5)] by simp
    have ind: "NDIRECT < n \<Longrightarrow> ((bview s)(blk := d)) (i_addrs (icache s ! ip) ! NDIRECT) = bview s (i_addrs (icache s ! ip) ! NDIRECT)"
      using mapped_block(4) [OF p(2) bn] by (auto simp: blk_def)
    note map4 = mapped_moved [OF p(2) m4 ind]
    have n32: "n * BSIZE < 2 ^ 32" using mapped_inode(3) [OF p(2)] by (simp add: fs_defs)
    have off: "unat (off + of_nat m) = ?a + m" using off_add [of off m] p(3) n32 m by linarith
    have step: "writei_loop ip off src s = writei_loop ip (off + of_nat m) (drop m src) s4"
      using False s1(1) s4 e1 mapped_inode(2) [OF p(2)]
      by (simp add: writei_loop.simps [of ip off src s] Let_def m_def [symmetric] d_def [symmetric])
    have room: "length (logged s4) + touched (?a + m) (?l - m) < nat (l_size s4)"
      using m4 moved_log [OF m4] p(4) t by (simp add: moved_def)
    have less: "?l - m < ?l" "in_txn s4" "?a + m + (?l - m) \<le> n * BSIZE" using m p(3) m4 by (simp_all add: moved_def)
    from less.hyps [of "drop m src" s4 "off + of_nat m", unfolded off length_drop, OF less(1,2) map4(1) less(3) room]
    obtain s' where s': "writei_loop ip (off + of_nat m) (drop m src) s4 = Inr (off + of_nat m + of_nat (?l - m), s')"
      "moved (touched (?a + m) (?l - m)) (bview s') s4 s'"
      "\<And>x. x \<notin> block_of s4 ip ` {..<n} \<Longrightarrow> bview s' x = bview s4 x"
      "\<And>i. i < n * BSIZE \<Longrightarrow> byte s' ip i = (if ?a + m \<le> i \<and> i < ?a + m + (?l - m) then drop m src ! (i - (?a + m)) else byte s4 ip i)"
      by blast
    have "block_of s4 ip ` {..<n} = block_of s ip ` {..<n}" using map4(2) by simp
    moreover have "blk \<in> block_of s ip ` {..<n}" using bn by (auto simp: blk_def)
    ultimately have others: "bview s' x = bview s x" if "x \<notin> block_of s ip ` {..<n}" for x
      using that s'(3) [of x] m4 by (auto simp: moved_def)
    have "byte s4 ip i = (if ?a \<le> i \<and> i < ?a + m then src ! (i - ?a) else byte s ip i)" if "i < n * BSIZE" for i
      using byte_put [OF p(2) m4 [unfolded d_def] blk_def bn len _ that] m by (auto intro!: nth_take)
    then have bytes: "byte s' ip i = (if ?a \<le> i \<and> i < ?a + ?l then src ! (i - ?a) else byte s ip i)" if "i < n * BSIZE" for i
      using s'(4) [OF that] that m(1) by (auto simp: add.commute)
    have "off + of_nat m + of_nat (?l - m) = off + of_nat ?l" using m(1) by (simp add: of_nat_diff)
    then show ?thesis
      using step s'(1) moved_trans [OF m4 s'(2)] others bytes t by auto
  qed
qed

section \<open>The size and the inode on the disk\<close>

lemma icache_frame [simp]:
  "held (icache_update f s) = held s" "bview (icache_update f s) = bview s" "dirty (icache_update f s) = dirty s"
  "cache_ok (icache_update f s) = cache_ok s" "logged (icache_update f s) = logged s"
  "log_region (icache_update f s) = log_region s" "in_txn (icache_update f s) = in_txn s"
proof -
  note c = cache_cong [of "icache_update f s" s, simplified]
  show v: "held (icache_update f s) = held s" "bview (icache_update f s) = bview s" "dirty (icache_update f s) = dirty s"
    using arg_cong [OF c(2), of st_held] arg_cong [OF c(2), of st_view] arg_cong [OF c(2), of st_dirty] by simp_all
  show k: "cache_ok (icache_update f s) = cache_ok s" "logged (icache_update f s) = logged s"
    "log_region (icache_update f s) = log_region s" by (simp_all add: c logged_def log_region_def)
  show "in_txn (icache_update f s) = in_txn s"
    by (simp add: in_txn_def txn_ok_def log_ok_def log_geom_def v k)
qed

lemma length_put_addrs: "off + 52 \<le> length d \<Longrightarrow> length (put_addrs off as d) = length d"
proof -
  assume a: "off + 52 \<le> length d"
  have "length (fold (\<lambda>i. put32 (off + 4 * i) (as ! i)) is d) = length d" if "\<forall>i\<in>set is. i < 13" for "is"
    using that a by (induction "is" arbitrary: d) auto
  then show ?thesis by (simp add: put_addrs_def NDIRECT_def)
qed

lemma length_put_dinode: "off + 64 \<le> length d \<Longrightarrow> length (put_dinode off ip d) = length d"
  by (simp add: put_dinode_def Let_def length_put_addrs)

lemma iupdate_moved:
  fixes s :: "('d, 'z) fs_scheme"
  assumes "in_txn s" "i_dev (icache s ! ip) = 1" "fs_block s ib" "length (logged s) + 1 < nat (l_size s)"
    and "ib = IBLOCK (i_inum (icache s ! ip)) (fs_sb s)"
  shows "\<exists>s' d. iupdate ip s = Inr s' \<and> moved 1 ((bview s)(ib := d)) s s'"
proof -
  have ib: "ib < disksize s" "ib \<notin> log_region s" using assms(3) by (simp_all add: fs_block_def)
  from txn_update [OF assms(1) ib assms(4)] obtain b s1 where b: "bread 1 ib s = Inr (b, s1)" "bdata s1 b = bview s ib"
    "lrest s1 = lrest s" and d: "\<And>d. length d = BSIZE \<Longrightarrow> \<exists>s2 s'. log_write b (set_data b d s1) = Inr s2 \<and>
      brelse b s2 = Inr s' \<and> moved 1 ((bview s)(ib := d)) s s'" by blast
  let ?d = "put_dinode (dinode_off (i_inum (icache s ! ip))) (icache s ! ip) (bview s ib)"
  have "dinode_off (i_inum (icache s ! ip)) + 64 \<le> BSIZE"
    using mod_less_divisor [of IPB "unat (i_inum (icache s ! ip))"] by (simp add: dinode_off_def fs_defs)
  then have "length ?d = BSIZE" using txn_length [OF assms(1) ib(1)] by (simp add: length_put_dinode)
  from d [OF this] obtain s2 s' where "log_write b (set_data b ?d s1) = Inr s2" "brelse b s2 = Inr s'"
    "moved 1 ((bview s)(ib := ?d)) s s'" by blast
  moreover then have "iupdate ip s = Inr s'"
    using b assms(2,5) lrest_fs [OF b(3)] by (simp add: iupdate_def Let_def)
  ultimately show ?thesis by blast
qed

lemma set_size:
  fixes s :: "('d, 'z) fs_scheme"
  assumes "ip < length (icache s)" and s': "s' = upd_inode ip (i_size_update (\<lambda>_. z)) s"
  shows "icache s' ! ip = (icache s ! ip)\<lparr>i_size := z\<rparr>" "block_of s' ip = block_of s ip" "byte s' ip = byte s ip"
    "mapped s' ip n = mapped s ip n" "in_txn s' = in_txn s" "bview s' = bview s" "logged s' = logged s" "l_size s' = l_size s"
    "fs_sb s' = fs_sb s" "fs_block s' = fs_block s"
proof -
  show i: "icache s' ! ip = (icache s ! ip)\<lparr>i_size := z\<rparr>" using assms by (simp add: upd_inode_def nth_upd_nth)
  show f: "in_txn s' = in_txn s" "bview s' = bview s" "logged s' = logged s" "l_size s' = l_size s" "fs_sb s' = fs_sb s"
    and fb: "fs_block s' = fs_block s"
    by (simp_all add: s' upd_inode_def fs_block_def fun_eq_iff)
  show b: "block_of s' ip = block_of s ip" by (simp add: fun_eq_iff block_of_def Let_def i f)
  show "byte s' ip = byte s ip" by (simp add: fun_eq_iff byte_def b f)
  have "length (icache s') = length (icache s)" by (simp add: s' upd_inode_def)
  then show "mapped s' ip n = mapped s ip n" unfolding mapped_def Let_def b i f fb by simp
qed

lemma contents_moved:
  fixes s :: "('d, 'z) fs_scheme"
  assumes "mapped s ip n" "moved l v s s'" "unat (i_size (icache s ! ip)) \<le> n * BSIZE"
    and "\<And>k. k < n \<Longrightarrow> v (block_of s ip k) = bview s (block_of s ip k)"
    and "NDIRECT < n \<Longrightarrow> v (i_addrs (icache s ! ip) ! NDIRECT) = bview s (i_addrs (icache s ! ip) ! NDIRECT)"
  shows "contents s' ip = contents s ip"
proof -
  have "byte s' ip i = byte s ip i" if "i < n * BSIZE" for i
  proof -
    have "i div BSIZE < n" using that by (simp add: less_mult_imp_div_less)
    then show ?thesis
      using mapped_moved(2) [OF assms(1,2,5)] assms(2,4) by (simp add: byte_def moved_def)
  qed
  moreover have "icache s' = icache s" using assms(2) lrest_fs [of s' s] by (simp add: moved_def)
  ultimately show ?thesis using assms(3) by (simp add: contents_def)
qed

lemma readi_contents:
  fixes s :: "('d, 'z) fs_scheme"
  assumes "in_txn s" "mapped s ip n" "i_type (icache s ! ip) \<noteq> T_DEV" "unat (i_size (icache s ! ip)) \<le> n * BSIZE"
    and "off \<le> i_size (icache s ! ip)" "unat off + unat k < 2 ^ 32" "bs = get_bytes (unat off) (unat k) (contents s ip)"
  shows "\<exists>s'. readi ip off k s = Inr (int (length bs), bs, s') \<and> moved 0 (bview s) s s'"
proof -
  let ?z = "i_size (icache s ! ip)"
  have guard: "\<not> (off > ?z \<or> off + k < off)"
    using assms(5,6) by (simp add: word_less_nat_alt word_le_nat_alt unat_word_ariths)
  define l where "l = (if off + k > ?z then ?z - off else k)"
  have ok: "unat (off + k) = unat off + unat k" using assms(6) by (simp add: unat_word_ariths)
  have l: "unat l = min (unat k) (unat ?z - unat off)"
    using assms(5) ok by (auto simp: l_def word_less_nat_alt word_le_nat_alt unat_sub)
  have n: "n * BSIZE \<le> 71680" using mapped_inode(3) [OF assms(2)] by (simp add: fs_defs)
  have bs: "bs = map (byte s ip) [unat off..<unat off + unat l]"
    using assms(5,7) l by (intro nth_equalityI) (auto simp: get_bytes_def contents_def word_le_nat_alt)
  have "sint l = int (unat l)" using l n assms(4) by (intro sint_small) simp
  moreover have "unat off + unat l \<le> n * BSIZE" using l assms(4,5) by (simp add: word_le_nat_alt)
  ultimately show ?thesis
    using readi_loop_bytes [OF assms(1,2), of off "unat l"] guard assms(3) bs
    by (auto simp: readi_def Let_def l_def [symmetric])
qed

section \<open>Properties\<close>

lemma put_map:
  assumes "a \<le> z" "\<And>i. i < max z (a + length xs) \<Longrightarrow> g i = (if a \<le> i \<and> i < a + length xs then xs ! (i - a) else f i)"
  shows "put_bytes a xs (map f [0..<z]) = map g [0..<max z (a + length xs)]"
  using assms by (intro nth_equalityI) (auto simp: put_bytes_def nth_append)

lemma writei_contents:
  fixes s :: "('d, 'z) fs_scheme"
  assumes "in_txn s" "mapped s ip n" "i_type (icache s ! ip) \<noteq> T_DEV" "unat (i_size (icache s ! ip)) \<le> n * BSIZE"
    and "off \<le> i_size (icache s ! ip)" "unat off + length src \<le> n * BSIZE"
    and "length (logged s) + touched (unat off) (length src) + 1 < nat (l_size s)"
  shows "\<exists>s'. writei ip src off s = Inr (int (length src), s') \<and> in_txn s' \<and> mapped s' ip n \<and>
    i_type (icache s' ! ip) = i_type (icache s ! ip) \<and> unat (i_size (icache s' ! ip)) \<le> n * BSIZE \<and>
    contents s' ip = put_bytes (unat off) src (contents s ip)"
proof -
  let ?z = "i_size (icache s ! ip)" and ?a = "unat off" and ?l = "length src" and ?e = "off + of_nat (length src)"
  let ?ib = "IBLOCK (i_inum (icache s ! ip)) (fs_sb s)"
  have n: "n * BSIZE \<le> 71680" using mapped_inode(3) [OF assms(2)] by (simp add: fs_defs)
  have e: "unat ?e = ?a + ?l" using off_add [of off ?l] assms(6) n by simp
  have l: "unat (of_nat ?l :: u32) = ?l" using assms(6) n by (simp add: unat_of_nat)
  have si: "sint (of_nat ?l :: u32) = int ?l" using sint_small [of "of_nat ?l"] l assms(6) n by simp
  have top: "unat (of_nat (MAXFILE * BSIZE) :: u32) = 71680" by (simp add: fs_defs)
  have guard: "\<not> (off > ?z \<or> ?e < off)" "\<not> ?e > of_nat (MAXFILE * BSIZE)"
    using assms(5,6) e n unfolding word_less_nat_alt word_le_nat_alt top by linarith+
  obtain s1 where s1: "writei_loop ip off src s = Inr (?e, s1)" and m1: "moved (touched ?a ?l) (bview s1) s s1"
    and keep: "\<And>blk. blk \<notin> block_of s ip ` {..<n} \<Longrightarrow> bview s1 blk = bview s blk"
    and bytes: "\<And>i. i < n * BSIZE \<Longrightarrow> byte s1 ip i = (if ?a \<le> i \<and> i < ?a + ?l then src ! (i - ?a) else byte s ip i)"
    using writei_loop_bytes [OF assms(1,2,6)] assms(7) by auto
  have t1: "in_txn s1" and i1: "icache s1 = icache s" "fs_sb s1 = fs_sb s" using m1 lrest_fs [of s1 s] by (simp_all add: moved_def)
  have "NDIRECT < n \<Longrightarrow> i_addrs (icache s ! ip) ! NDIRECT \<notin> block_of s ip ` {..<n}"
    using mapped_block(4) [OF assms(2)] by force
  then have map1: "mapped s1 ip n" using mapped_moved(1) [OF assms(2) m1] keep by blast
  have put: "map (byte s1 ip) [0..<max (unat ?z) (?a + ?l)] = put_bytes ?a src (contents s ip)"
    unfolding contents_def using assms(4,5,6) bytes
    by (intro put_map [symmetric]) (auto simp: word_le_nat_alt)
  show ?thesis
  proof (cases "(of_nat ?l :: u32) > 0 \<and> ?e > ?z")
    case False
    then have "?a + ?l \<le> unat ?z" using e l assms(5) by (auto simp: word_less_nat_alt word_le_nat_alt)
    then have "contents s1 ip = put_bytes ?a src (contents s ip)" using put by (simp add: contents_def i1 max_def)
    moreover have "writei ip src off s = Inr (int ?l, s1)"
      using False guard s1 assms(3) si by (auto simp: writei_def Let_def i1)
    ultimately show ?thesis using t1 map1 assms(4) i1 by auto
  next
    case True
    define s2 where "s2 = upd_inode ip (i_size_update (\<lambda>_. ?e)) s1"
    note z = set_size [OF mapped_inode(1) [OF map1] s2_def]
    have map2: "mapped s2 ip n" and t2: "in_txn s2" using map1 t1 by (simp_all add: z)
    have "length (logged s2) + 1 < nat (l_size s2)" using m1 moved_log(1) [OF m1] assms(7) by (simp add: z moved_def)
    from iupdate_moved [OF t2 mapped_inode(2,4) [OF map2] this refl] obtain s3 d where
      s3: "iupdate ip s2 = Inr s3" and m3: "moved 1 ((bview s2)(?ib := d)) s2 s3" by (auto simp: z i1)
    have blocks: "k < n \<Longrightarrow> block_of s2 ip k \<noteq> ?ib" "NDIRECT < n \<Longrightarrow> i_addrs (icache s2 ! ip) ! NDIRECT \<noteq> ?ib" for k
      using mapped_block(3) [OF map2] mapped_indirect(3) [OF map2] by (simp_all add: z i1)
    have size2: "unat (i_size (icache s2 ! ip)) = ?a + ?l" using e by (simp add: z)
    have "contents s3 ip = contents s2 ip"
      using contents_moved [OF map2 m3] size2 assms(6) blocks by simp
    also have "\<dots> = put_bytes ?a src (contents s ip)"
      using put True e size2 by (simp add: contents_def z word_less_nat_alt max_def)
    finally have "contents s3 ip = put_bytes ?a src (contents s ip)" .
    moreover have "writei ip src off s = Inr (int ?l, s3)"
      using True guard s1 s3 assms(3) si by (simp add: writei_def Let_def i1 s2_def)
    moreover have "in_txn s3" "mapped s3 ip n" "icache s3 = icache s2"
      using m3 mapped_moved(1) [OF map2 m3] blocks lrest_fs [of s3 s2] by (simp_all add: moved_def)
    ultimately show ?thesis using size2 assms(6) z(1) i1 by auto
  qed
qed

text \<open>
  A transaction of a system with one file, the three bytes 65, 66 and 67 in block 50, and a bitmap in block 45 where
  the blocks below 56 are marked.
\<close>

definition demo_file :: inode where
  "demo_file = \<lparr>i_dev = 1, i_inum = 2, i_ref = 1, i_lock = \<lparr>sl_locked = True, sl_name = [], sl_pid = 0\<rparr>, i_valid = True,
     i_type = T_FILE, i_major = 0, i_minor = 0, i_nlink = 1, i_size = 3, i_addrs = 50 # replicate 12 0\<rparr>"

definition demo_fs :: "unit fs" where
  "demo_fs = binit
     \<lparr>memdisk = (\<lambda>_. replicate BSIZE 0)(45 := replicate 7 0xFF @ replicate 505 0, 50 := [65, 66, 67] @ replicate 509 0), disksize = 1000, bcache = (\<lambda>_. zero_buf),
      cur_pid = 0, bio_writes = [], l_start = 2, l_size = 30, l_outstanding = 1, l_committing = False, l_dev = 1, lh_n = 0,
      lh_block = replicate LOGSIZE 0,
      fs_sb = \<lparr>sb_size = 1000, sb_nblocks = 900, sb_ninodes = 200, sb_nlog = 30, sb_logstart = 2, sb_inodestart = 32,
        sb_bmapstart = 45\<rparr>,
      icache = [demo_file], fs_devsw = (\<lambda>_. \<lparr>dev_read = None, dev_write = None\<rparr>), fs_dev = ()\<rparr>"

lemma demo_fs_fields:
  "disksize demo_fs = 1000" "l_size demo_fs = 30" "l_start demo_fs = 2" "icache demo_fs = [demo_file]" "lh_n demo_fs = 0"
  "sb_inodestart (fs_sb demo_fs) = 32" "sb_bmapstart (fs_sb demo_fs) = 45" "sb_size (fs_sb demo_fs) = 1000" "logged demo_fs = []" "l_dev demo_fs = 1" "l_outstanding demo_fs = 1"
  "length (lh_block demo_fs) = LOGSIZE"
  "memdisk demo_fs = (\<lambda>_. replicate BSIZE 0)(45 := replicate 7 0xFF @ replicate 505 0, 50 := [65, 66, 67] @ replicate 509 0)"
  by (simp_all add: demo_fs_def binit_def Let_def logged_def)

lemma demo_fs_txn: "in_txn demo_fs" "bview demo_fs 50 = [65, 66, 67] @ replicate 509 0"
  "bview demo_fs 45 = replicate 7 0xFF @ replicate 505 0"
proof -
  have c: "cache_ok demo_fs" "held demo_fs = Map.empty" "dirty demo_fs = {}"
    unfolding demo_fs_def
    by (simp_all add: cache_ok_binit zero_buf_def BSIZE_def)
  then show "in_txn demo_fs" by (simp add: in_txn_def txn_ok_def log_ok_def log_geom_def param_defs demo_fs_fields)
  show "bview demo_fs 45 = replicate 7 0xFF @ replicate 505 0" using clean_view [OF c(1), of 45] c by (simp add: demo_fs_fields)
  show "bview demo_fs 50 = [65, 66, 67] @ replicate 509 0" using clean_view [OF c(1), of 50] c by (simp add: demo_fs_fields)
qed

lemma demo_fs_region: "x \<in> log_region demo_fs \<Longrightarrow> unat x < 32"
proof -
  assume "x \<in> log_region demo_fs"
  then obtain i where "i < 30" "x = 2 + of_nat i" by (auto simp: log_region_def demo_fs_fields)
  then show ?thesis by (simp add: unat_word_ariths unat_of_nat)
qed

lemma demo_fs_mapped: "mapped demo_fs 0 1"
proof -
  have "x \<notin> log_region demo_fs" if "31 < unat x" for x
    using demo_fs_region [of x] that by auto
  then have "fs_block demo_fs 32" "fs_block demo_fs 50" by (simp_all add: fs_block_def demo_fs_fields)
  then show ?thesis
    by (simp add: mapped_def Let_def block_of_def demo_fs_fields demo_file_def IBLOCK_def fs_defs)
qed

text \<open>
  C4. A file is an array of bytes. In a transaction with room in the log, for a file whose blocks are mapped up to the
  end of the bytes written, \<open>writei\<close> at an offset within the file succeeds and replaces the bytes at the offset by
  those written, growing the file when they reach beyond its end, and changes no other byte of it; and every later
  \<open>readi\<close> returns the bytes of the resulting array at its offset, as many as it asks for up to the end of the file.
\<close>

theorem file_is_byte_array:
  fixes s :: "('d, 'z) fs_scheme"
  assumes "in_txn s" and "mapped s ip n" and "i_type (icache s ! ip) \<noteq> T_DEV" and "unat (i_size (icache s ! ip)) \<le> n * BSIZE"
    and "off \<le> i_size (icache s ! ip)" and "unat off + length src \<le> n * BSIZE"
    and "length (logged s) + touched (unat off) (length src) + 1 < nat (l_size s)"
  shows "\<exists>s'. writei ip src off s = Inr (int (length src), s') \<and>
    contents s' ip = put_bytes (unat off) src (contents s ip) \<and>
    (\<forall>o' k. o' \<le> i_size (icache s' ! ip) \<and> unat o' + unat k < 2 ^ 32 \<longrightarrow>
      (let bs = get_bytes (unat o') (unat k) (contents s' ip) in \<exists>s''. readi ip o' k s' = Inr (int (length bs), bs, s'')))"
proof -
  obtain s' where s': "writei ip src off s = Inr (int (length src), s')" "in_txn s'" "mapped s' ip n"
    "i_type (icache s' ! ip) = i_type (icache s ! ip)" "unat (i_size (icache s' ! ip)) \<le> n * BSIZE"
    "contents s' ip = put_bytes (unat off) src (contents s ip)"
    using writei_contents [OF assms] by blast
  have "\<exists>s''. readi ip o' k s' = Inr (int (length bs), bs, s'')"
    if "o' \<le> i_size (icache s' ! ip)" "unat o' + unat k < 2 ^ 32" "bs = get_bytes (unat o') (unat k) (contents s' ip)" for o' k bs
    using readi_contents [OF s'(2,3) _ s'(5) that] assms(3) s'(4) by auto
  then show ?thesis using s' by (auto simp: Let_def)
qed

theorem file_is_byte_array_witness:
  "\<exists>s' s''. writei 0 [1, 2, 3] 2 demo_fs = Inr (3, s') \<and> contents s' 0 = [65, 66, 1, 2, 3] \<and>
    readi 0 1 3 s' = Inr (3, [66, 1, 2], s'')"
proof -
  have i: "icache demo_fs ! 0 = demo_file" by (simp add: demo_fs_fields)
  have c: "contents demo_fs 0 = [65, 66, 67]"
    using demo_fs_txn(2)
    by (simp add: contents_def byte_def block_of_def i demo_file_def fs_defs upt_rec)
  obtain s' where s': "writei 0 [1, 2, 3] 2 demo_fs = Inr (int (length [1, 2, 3 :: u8]), s')"
    "contents s' 0 = put_bytes (unat (2 :: u32)) [1, 2, 3] (contents demo_fs 0)"
    and r: "\<And>o' k. o' \<le> i_size (icache s' ! 0) \<Longrightarrow> unat o' + unat k < 2 ^ 32 \<Longrightarrow>
      (let bs = get_bytes (unat o') (unat k) (contents s' 0) in \<exists>s''. readi 0 o' k s' = Inr (int (length bs), bs, s''))"
    using file_is_byte_array [OF demo_fs_txn(1) demo_fs_mapped, of 2 "[1, 2, 3]"]
    by (auto simp: i demo_file_def demo_fs_fields touched_def fs_defs)
  have c': "contents s' 0 = [65, 66, 1, 2, 3]" using s'(2) c by (simp add: put_bytes_def)
  then have "length (contents s' 0) = 5" by simp
  then have "unat (i_size (icache s' ! 0)) = 5" by (simp add: contents_def)
  then have "1 \<le> i_size (icache s' ! 0)" by (simp add: word_le_nat_alt)
  from r [OF this, of 3] show ?thesis using s'(1) c' by (simp add: get_bytes_def)
qed

end
