(* ===== verification/Bitmap.thy ===== *)
theory Bitmap
  imports Contents
begin

text \<open>
  The block allocator of \<open>src/xv6/fs.c\<close> against the set of blocks that the bitmap marks. The theory adds no code to
  the model; it shows what \<open>balloc\<close> does on the blocks that the buffer cache shows.
\<close>

section \<open>The bitmap\<close>

lemma bm_clear_bit: "bm_clear d i \<longleftrightarrow> \<not> bit (d ! (i div 8)) (i mod 8)"
  by (simp add: bm_clear_def bm_mask_def push_bit_eq_mult and_exp_eq_0_iff_not_bit)

lemma bm_set_clear:
  assumes "i div 8 < length d"
  shows "bm_clear (bm_set i d) j \<longleftrightarrow> bm_clear d j \<and> j \<noteq> i"
proof -
  have "i mod 8 < 8" "j mod 8 < 8" by simp_all
  moreover have "j = i \<longleftrightarrow> j div 8 = i div 8 \<and> j mod 8 = i mod 8" by (metis div_mult_mod_eq)
  ultimately show ?thesis
    using assms by (auto simp: bm_clear_bit bm_set_def bm_mask_def nth_list_update bit_simps)
qed

text \<open>The number of bitmap blocks, the bitmap block \<open>k\<close>, and whether the bit of block \<open>b\<close> is set.\<close>

definition nbitmap :: "('d, 'z) fs_scheme \<Rightarrow> nat" where
  "nbitmap s = (unat (sb_size (fs_sb s)) + BPB - 1) div BPB"

definition used :: "('d, 'z) fs_scheme \<Rightarrow> nat \<Rightarrow> bool" where
  "used s b \<longleftrightarrow> \<not> bm_clear (bview s (BBLOCK (of_nat b) (fs_sb s))) (b mod BPB)"

text \<open>
  The file system lies on the disk; its bitmap blocks are blocks it may use, and they and the blocks of the log are
  marked in the bitmap.
\<close>

definition bitmap_ok :: "('d, 'z) fs_scheme \<Rightarrow> bool" where
  "bitmap_ok s \<longleftrightarrow> sb_size (fs_sb s) \<le> disksize s \<and>
    (\<forall>k<nbitmap s. let x = BBLOCK (of_nat (k * BPB)) (fs_sb s) in fs_block s x \<and> used s (unat x)) \<and>
    (\<forall>x\<in>log_region s. used s (unat x))"

lemma BBLOCK_eq:
  assumes "b < 2 ^ 32"
  shows "BBLOCK (of_nat b) sb = of_nat (b div BPB) + sb_bmapstart sb"
proof -
  have "of_nat b div of_nat BPB = (of_nat (b div BPB) :: u32)"
    using assms by (intro word_unat_eq_iff [THEN iffD2])
      (simp add: unat_div unat_of_nat fs_defs div_less_dividend less_imp_le)
  then show ?thesis by (simp add: BBLOCK_def)
qed

lemma find_map: "find P (map f xs) = map_option f (find (\<lambda>x. P (f x)) xs)"
  by (induction xs) auto

lemma find_append: "find P (xs @ ys) = (case find P xs of None \<Rightarrow> find P ys | Some x \<Rightarrow> Some x)"
  by (induction xs) auto

lemma bzero_moved:
  assumes "in_txn s" "fs_block s blk" "length (logged s) + 1 < nat (l_size s)"
  shows "\<exists>s'. bzero 1 blk s = Inr s' \<and> moved 1 ((bview s)(blk := replicate BSIZE 0)) s s'"
proof -
  have b: "blk < disksize s" "blk \<notin> log_region s" using assms(2) by (simp_all add: fs_block_def)
  from txn_update [OF assms(1) b assms(3)] obtain c s1 where "bread 1 blk s = Inr (c, s1)"
    "\<And>d. length d = BSIZE \<Longrightarrow> \<exists>s2 s'. log_write c (set_data c d s1) = Inr s2 \<and> brelse c s2 = Inr s' \<and>
      moved 1 ((bview s)(blk := d)) s s'" by blast
  from this(1) this(2) [of "replicate BSIZE 0"] show ?thesis by (auto simp: bzero_def)
qed

lemma used_moved:
  fixes s :: "('d, 'z) fs_scheme"
  assumes "moved k (bview s) s s'"
  shows "used s' = used s"
  using assms lrest_fs [of s' s] by (simp add: fun_eq_iff used_def moved_def)

text \<open>The blocks whose bits are in the bitmap block \<open>k\<close>, and the search of one bitmap block as a search of blocks.\<close>

definition bitmap_range :: "('d, 'z) fs_scheme \<Rightarrow> nat \<Rightarrow> nat list" where
  "bitmap_range s k = map (\<lambda>i. k * BPB + i) [0..<min BPB (unat (sb_size (fs_sb s)) - k * BPB)]"

lemma bitmap_range_less:
  assumes "b \<in> set (bitmap_range s k)"
  shows "b < unat (sb_size (fs_sb s))" "b div BPB = k" "b < 2 ^ 32"
proof -
  obtain i where "b = k * BPB + i" "i \<in> set [0..<min BPB (unat (sb_size (fs_sb s)) - k * BPB)]"
    using assms unfolding bitmap_range_def set_map by blast
  then have b: "b = k * BPB + i" "i < BPB" "i < unat (sb_size (fs_sb s)) - k * BPB" by simp_all
  then show "b < unat (sb_size (fs_sb s))" by linarith
  then show "b < 2 ^ 32" using unsigned_less [of "sb_size (fs_sb s)", where 'a = nat] by simp
  show "b div BPB = k" using b by simp
qed

lemma find_bitmap:
  assumes "x = BBLOCK (of_nat (k * BPB)) (fs_sb s)" "k * BPB < 2 ^ 32"
  shows "find (\<lambda>b. \<not> used s b) (bitmap_range s k) =
    map_option (\<lambda>i. k * BPB + i) (find (bm_clear (bview s x)) [0..<min BPB (unat (sb_size (fs_sb s)) - k * BPB)])"
proof -
  have "(\<not> used s (k * BPB + i)) = bm_clear (bview s x) i"
    if "i < min BPB (unat (sb_size (fs_sb s)) - k * BPB)" for i
  proof -
    have "k * BPB + i \<in> set (bitmap_range s k)" using that by (simp add: bitmap_range_def)
    note r = bitmap_range_less [OF this]
    have "BBLOCK (of_nat (k * BPB + i)) (fs_sb s) = x"
      using BBLOCK_eq [OF r(3)] BBLOCK_eq [OF assms(2)] r(2) assms(1) by (simp add: fs_defs)
    then show ?thesis using that by (simp add: used_def)
  qed
  then show ?thesis unfolding bitmap_range_def find_map by (intro arg_cong [of _ _ "map_option _"] find_cong) auto
qed

lemma bitmap_ok_moved:
  fixes s :: "('d, 'z) fs_scheme"
  assumes "bitmap_ok s" "moved k (bview s) s s'"
  shows "bitmap_ok s'" "nbitmap s' = nbitmap s" "bitmap_range s' = bitmap_range s"
proof -
  have m: "fs_sb s' = fs_sb s" "disksize s' = disksize s" "log_region s' = log_region s" "used s' = used s"
    using assms(2) lrest_fs [of s' s] moved_log [OF assms(2)] used_moved [OF assms(2)] by (simp_all add: moved_def)
  then show n: "nbitmap s' = nbitmap s" "bitmap_range s' = bitmap_range s"
    by (simp_all add: nbitmap_def bitmap_range_def fun_eq_iff)
  show "bitmap_ok s'" using assms(1) by (simp add: bitmap_ok_def Let_def fs_block_def m n)
qed

text \<open>A free block is a block of the disk, outside the log and no bitmap block.\<close>

lemma free_block:
  assumes "bitmap_ok s" "\<not> used s b" "b < unat (sb_size (fs_sb s))"
  shows "fs_block s (of_nat b)" "k < nbitmap s \<Longrightarrow> of_nat b \<noteq> BBLOCK (of_nat (k * BPB)) (fs_sb s)"
proof -
  have u: "unat (of_nat b :: u32) = b"
    using assms(3) unsigned_less [of "sb_size (fs_sb s)", where 'a = nat] by (simp add: unat_of_nat)
  show "fs_block s (of_nat b)"
    using assms u unfolding bitmap_ok_def fs_block_def by (auto simp: word_less_nat_alt word_le_nat_alt)
  show "of_nat b \<noteq> BBLOCK (of_nat (k * BPB)) (fs_sb s)" if "k < nbitmap s"
    using assms(1,2) that u unfolding bitmap_ok_def Let_def by metis
qed

lemma nbitmap_less: "k < nbitmap s \<Longrightarrow> k * BPB < unat (sb_size (fs_sb s))"
  by (simp add: nbitmap_def fs_defs)

lemma balloc_loop_spec:
  fixes s :: "('d, 'z) fs_scheme"
  assumes "in_txn s" "bitmap_ok s" "set ks \<subseteq> {..<nbitmap s}" "length (logged s) + 2 < nat (l_size s)"
  shows "case find (\<lambda>b. \<not> used s b) (concat (map (bitmap_range s) ks)) of
      None \<Rightarrow> balloc_loop 1 ks s = Inl (Panic ''balloc: out of blocks'')
    | Some b \<Rightarrow> \<exists>s' x. x = BBLOCK (of_nat b) (fs_sb s) \<and> balloc_loop 1 ks s = Inr (of_nat b, s') \<and>
        moved 2 ((bview s)(x := bm_set (b mod BPB) (bview s x), of_nat b := replicate BSIZE 0)) s s'"
  using assms
proof (induction ks arbitrary: s)
  case Nil
  then show ?case by simp
next
  case (Cons k ks)
  note p = Cons.prems
  define x where "x = BBLOCK (of_nat (k * BPB)) (fs_sb s)"
  let ?r = "[0..<min BPB (unat (sb_size (fs_sb s)) - k * BPB)]"
  have k: "k < nbitmap s" using p(3) by simp
  have k32: "k * BPB < 2 ^ 32"
    using nbitmap_less [OF k] unsigned_less [of "sb_size (fs_sb s)", where 'a = nat] by simp
  have x: "x < disksize s" "x \<notin> log_region s" using p(2) k by (simp_all add: bitmap_ok_def Let_def x_def fs_block_def)
  from txn_read [OF p(1) x(1)] obtain c s1 s' where r: "bread 1 x s = Inr (c, s1)" "bdata s1 c = bview s x"
    "lrest s1 = lrest s" "brelse c s1 = Inr s'" "moved 0 (bview s) s s'" by blast
  have f1: "fs_sb s1 = fs_sb s" using lrest_fs [OF r(3)] by simp
  note fb = find_bitmap [OF x_def k32]
  show ?case
  proof (cases "find (bm_clear (bview s x)) ?r")
    case None
    have m: "in_txn s'" "bitmap_ok s'" "nbitmap s' = nbitmap s" "bitmap_range s' = bitmap_range s" "used s' = used s"
        "bview s' = bview s" "fs_sb s' = fs_sb s" "length (logged s') + 2 < nat (l_size s')"
      using r(5) bitmap_ok_moved [OF p(2) r(5)] used_moved [OF r(5)] moved_log(1) [OF r(5)] lrest_fs [of s' s] p(4)
      by (simp_all add: moved_def)
    have step: "balloc_loop 1 (k # ks) s = balloc_loop 1 ks s'" using None r f1 by (simp add: x_def [symmetric] del: of_nat_mult)
    have skip: "find (\<lambda>b. \<not> used s b) (concat (map (bitmap_range s) (k # ks))) = find (\<lambda>b. \<not> used s b) (concat (map (bitmap_range s) ks))"
      using None fb by (simp add: find_append)
    have "moved 2 v s' t \<Longrightarrow> moved 2 v s t" for v t using moved_trans [OF r(5)] by simp
    then show ?thesis
      using Cons.IH [OF m(1,2) _ m(8)] p(3) unfolding step skip m(3-7)
      by (auto simp del: fun_upd_apply split: option.splits)
  next
    case (Some i)
    define b where "b = k * BPB + i"
    have found: "find (\<lambda>b. \<not> used s b) (bitmap_range s k) = Some b" using fb Some by (simp add: b_def)
    then have b: "b \<in> set (bitmap_range s k)" "\<not> used s b" by (auto simp: find_Some_iff)
    note range = bitmap_range_less [OF b(1)]
    have i: "i < BPB" "b mod BPB = i" using Some by (auto simp: find_Some_iff b_def)
    have xb: "BBLOCK (of_nat b) (fs_sb s) = x"
      using BBLOCK_eq [OF range(3)] BBLOCK_eq [OF k32] range(2) by (simp add: x_def fs_defs del: of_nat_mult)
    let ?d = "bm_set i (bview s x)"
    have "length ?d = BSIZE" using txn_length [OF p(1) x(1)] by (simp add: bm_set_def)
    then obtain s2 s3 where u: "log_write c (set_data c ?d s1) = Inr s2" "brelse c s2 = Inr s3" "moved 1 ((bview s)(x := ?d)) s s3"
      using txn_update [OF p(1) x] p(4) r(1) by auto
    have "in_txn s3" "fs_block s3 (of_nat b)" "length (logged s3) + 1 < nat (l_size s3)"
      using u(3) moved_log [OF u(3)] free_block(1) [OF p(2) b(2) range(1)] p(4) by (simp_all add: moved_def fs_block_def)
    from bzero_moved [OF this] obtain s4 where z: "bzero 1 (of_nat b) s3 = Inr s4"
      "moved 1 ((bview s3)(of_nat b := replicate BSIZE 0)) s3 s4" by blast
    have "moved 2 ((bview s)(x := ?d, of_nat b := replicate BSIZE 0)) s s4"
      using moved_trans [OF u(3) z(2)] u(3) by (simp add: moved_def)
    moreover have "balloc_loop 1 (k # ks) s = Inr (of_nat b, s4)"
      using Some r u z f1 by (simp add: x_def [symmetric] b_def [symmetric] del: of_nat_mult of_nat_add)
    ultimately show ?thesis using found i(2) xb by (simp add: find_append)
  qed
qed

lemma bitmap_ranges: "concat (map (bitmap_range s) [0..<j]) = [0..<min (j * BPB) (unat (sb_size (fs_sb s)))]"
proof (induction j)
  case (Suc j)
  let ?n = "unat (sb_size (fs_sb s))"
  have "bitmap_range s j = [j * BPB..<j * BPB + min BPB (?n - j * BPB)]"
    by (simp add: bitmap_range_def map_add_upt add.commute [of "j * BPB"])
  also have "\<dots> = [min (j * BPB) ?n..<min (Suc j * BPB) ?n]" by (cases "j * BPB \<le> ?n") (auto simp: min_def add.commute)
  finally have "bitmap_range s j = [min (j * BPB) ?n..<min (Suc j * BPB) ?n]" .
  moreover have "[0..<min (j * BPB) ?n] @ [min (j * BPB) ?n..<min (Suc j * BPB) ?n] = [0..<min (Suc j * BPB) ?n]"
    using upt_add_eq_append [of 0 "min (j * BPB) ?n" "min (Suc j * BPB) ?n - min (j * BPB) ?n"] by (simp add: min_def)
  ultimately show ?case using Suc.IH by simp
qed simp

lemma all_blocks: "concat (map (bitmap_range s) [0..<nbitmap s]) = [0..<unat (sb_size (fs_sb s))]"
proof -
  let ?n = "unat (sb_size (fs_sb s))"
  have "0 < BPB" by (simp add: fs_defs)
  then have "(?n + BPB - 1) mod BPB < BPB" "1 \<le> BPB" by simp_all
  then have "?n \<le> nbitmap s * BPB" using div_mult_mod_eq [of "?n + BPB - 1" BPB] unfolding nbitmap_def by linarith
  then show ?thesis unfolding bitmap_ranges by (simp add: min_def)
qed

lemma used_set:
  fixes s :: "('d, 'z) fs_scheme"
  assumes "in_txn s" "bitmap_ok s" "\<not> used s b" "b < unat (sb_size (fs_sb s))" "b' < unat (sb_size (fs_sb s))"
    and "x = BBLOCK (of_nat b) (fs_sb s)"
    and "moved 2 ((bview s)(x := bm_set (b mod BPB) (bview s x), of_nat b := replicate BSIZE 0)) s s'"
  shows "used s' b' \<longleftrightarrow> used s b' \<or> b' = b"
proof -
  have lt: "b < 2 ^ 32" "b' < 2 ^ 32"
    using assms(4,5) unsigned_less [of "sb_size (fs_sb s)", where 'a = nat] by simp_all
  have k: "b div BPB < nbitmap s" "b' div BPB < nbitmap s" using assms(4,5) by (auto simp: nbitmap_def fs_defs)
  have x: "BBLOCK (of_nat c) (fs_sb s) = BBLOCK (of_nat (c div BPB * BPB)) (fs_sb s)" if "c < 2 ^ 32" for c
    using BBLOCK_eq [OF that] BBLOCK_eq [of "c div BPB * BPB"] that div_times_less_eq_dividend [of c BPB]
    by (simp add: fs_defs del: of_nat_mult)
  have "x < disksize s" using assms(2,6) k(1) x [OF lt(1)] by (simp add: bitmap_ok_def Let_def fs_block_def)
  then have len: "(b mod BPB) div 8 < length (bview s x)" using txn_length [OF assms(1)] by (simp add: fs_defs)
  have fresh: "BBLOCK (of_nat b') (fs_sb s) \<noteq> of_nat b" using free_block(2) [OF assms(2-4) k(2)] x [OF lt(2)] by auto
  have same: "BBLOCK (of_nat b') (fs_sb s) = x \<longleftrightarrow> b' div BPB = b div BPB"
  proof -
    have "unat (of_nat (c div BPB) :: u32) = c div BPB" if "c < 2 ^ 32" for c
      using that by (simp add: unat_of_nat fs_defs)
    then show ?thesis using BBLOCK_eq lt assms(6) by (metis add_right_cancel)
  qed
  have "b' = b \<longleftrightarrow> b' div BPB = b div BPB \<and> b' mod BPB = b mod BPB" by (metis div_mult_mod_eq)
  then show ?thesis
    using assms(7) fresh same bm_set_clear [OF len] lrest_fs [of s' s] by (auto simp: used_def moved_def)
qed

text \<open>
  C5. The block allocator hands out every block once. In a transaction with room in the log and a bitmap that marks
  the log and itself, \<open>balloc\<close> returns the first block whose bit is clear, sets this bit and no other, clears the block
  and leaves every block but these two as it was; when every bit is set it panics.
\<close>

theorem balloc_fresh:
  fixes s :: "('d, 'z) fs_scheme"
  assumes "in_txn s" and "bitmap_ok s" and "length (logged s) + 2 < nat (l_size s)"
  shows "let n = unat (sb_size (fs_sb s)) in
    if \<forall>b<n. used s b then balloc 1 s = Inl (Panic ''balloc: out of blocks'')
    else \<exists>b s'. balloc 1 s = Inr (of_nat b, s') \<and> b < n \<and> \<not> used s b \<and> (\<forall>c<b. used s c) \<and>
      (\<forall>c<n. used s' c \<longleftrightarrow> used s c \<or> c = b) \<and> bview s' (of_nat b) = replicate BSIZE 0 \<and>
      (\<forall>blk. blk \<noteq> of_nat b \<and> blk \<noteq> BBLOCK (of_nat b) (fs_sb s) \<longrightarrow> bview s' blk = bview s blk)"
proof -
  let ?n = "unat (sb_size (fs_sb s))"
  have loop: "balloc 1 s = balloc_loop 1 [0..<nbitmap s] s" by (simp add: balloc_def nbitmap_def)
  have sub: "set [0..<nbitmap s] \<subseteq> {..<nbitmap s}" by auto
  note spec = balloc_loop_spec [OF assms(1,2) sub assms(3), unfolded all_blocks, folded loop]
  show ?thesis
  proof (cases "find (\<lambda>b. \<not> used s b) [0..<?n]")
    case None
    then have "\<forall>b<?n. used s b" by (simp add: find_None_iff)
    then show ?thesis using spec None by simp
  next
    case (Some b)
    then have b: "b < ?n" "\<not> used s b" "\<forall>c<b. used s c" by (auto simp: find_Some_iff)
    from spec Some obtain s' x where s': "x = BBLOCK (of_nat b) (fs_sb s)" "balloc 1 s = Inr (of_nat b, s')"
      "moved 2 ((bview s)(x := bm_set (b mod BPB) (bview s x), of_nat b := replicate BSIZE 0)) s s'" by auto
    have "\<forall>c<?n. used s' c \<longleftrightarrow> used s c \<or> c = b" using used_set [OF assms(1,2) b(2,1) _ s'(1,3)] by blast
    moreover have "bview s' (of_nat b) = replicate BSIZE 0"
      "\<forall>blk. blk \<noteq> of_nat b \<and> blk \<noteq> x \<longrightarrow> bview s' blk = bview s blk" using s'(3) by (simp_all add: moved_def)
    ultimately show ?thesis using b s'(1,2) by (auto simp: Let_def)
  qed
qed

lemma demo_fs_used:
  assumes "b < 1000"
  shows "used demo_fs b \<longleftrightarrow> b < 56"
proof -
  have x: "BBLOCK (of_nat b) (fs_sb demo_fs) = 45" using BBLOCK_eq [of b] assms by (simp add: demo_fs_fields fs_defs)
  have "bit ((replicate 7 0xFF @ replicate 505 0) ! (b div 8) :: u8) (b mod 8) \<longleftrightarrow> b div 8 < 7"
  proof (cases "b div 8 < 7")
    case True
    have "bit (0xFF :: u8) i" if "i < 8" for i
      using that by (auto simp: less_Suc_eq numeral_eq_Suc)
    then show ?thesis using True by (simp add: nth_append)
  next
    case False
    then show ?thesis using assms by (simp add: nth_append)
  qed
  moreover have "b div 8 < 7 \<longleftrightarrow> b < 56" by (simp add: div_less_iff_less_mult)
  ultimately show ?thesis using x assms by (simp add: used_def bm_clear_bit demo_fs_txn(3) fs_defs)
qed

theorem balloc_fresh_witness:
  "\<exists>s'. balloc 1 demo_fs = Inr (56, s') \<and> used s' 56 \<and> \<not> used s' 57 \<and> \<not> used demo_fs 56"
proof -
  have n: "unat (sb_size (fs_sb demo_fs)) = 1000" by (simp add: demo_fs_fields)
  have "fs_block demo_fs 45" using demo_fs_region [of 45] by (auto simp: fs_block_def demo_fs_fields)
  moreover have "used demo_fs (unat x)" if "x \<in> log_region demo_fs" for x
    using demo_fs_region [OF that] demo_fs_used [of "unat x"] by simp
  ultimately have "bitmap_ok demo_fs"
    using demo_fs_used [of 45]
    by (simp add: bitmap_ok_def nbitmap_def BBLOCK_def demo_fs_fields fs_defs)
  then obtain b s' where b: "balloc 1 demo_fs = Inr (of_nat b, s')" "b < 1000" "\<not> used demo_fs b" "\<forall>c<b. used demo_fs c"
    and u: "\<forall>c<1000. used s' c \<longleftrightarrow> used demo_fs c \<or> c = b"
    using balloc_fresh [OF demo_fs_txn(1)] demo_fs_used [of 56] unfolding n Let_def
    by (auto simp: demo_fs_fields split: if_splits)
  have "b = 56" using b(2,3,4) demo_fs_used [of b] demo_fs_used [of 56] by (cases b "56 :: nat" rule: linorder_cases) auto
  then show ?thesis using b u demo_fs_used [of 56] demo_fs_used [of 57] by auto
qed

end
