(* ===== verification/Exec.thy ===== *)
theory Exec
  imports Proc
begin

text \<open>
  Running a program: \<open>loaduvm\<close> of \<open>src/xv6/vm.c\<close>, \<open>exec\<close> of \<open>src/xv6/exec.c\<close> and \<open>sys_exec\<close> of \<open>src/xv6/sysfile.c\<close>.
  The jump to the label \<open>bad\<close> is the result \<open>None\<close> of the parts of \<open>exec\<close>; the strings \<open>path\<close> and \<open>argv\<close> are the bytes
  before their NUL.
\<close>

section \<open>Segments\<close>

fun loaduvm_loop ::
  "u32 \<Rightarrow> u32 \<Rightarrow> nat \<Rightarrow> u32 \<Rightarrow> u32 \<Rightarrow> u32 list \<Rightarrow> ('d, 'z) sys_scheme \<Rightarrow> (int \<times> ('d, 'z) sys_scheme) result" where
  "loaduvm_loop pgdir addr ip offset sz [] s = Inr (0, s)"
| "loaduvm_loop pgdir addr ip offset sz (i # is) s =
    (let pte = fst (walkpgdir pgdir (addr + i) False (pg s)) in
     if pte = 0 then Inl (Panic ''loaduvm: address should exist'')
     else
       let pa = PTE_ADDR (load32 (k_mem (pg s)) pte);
           n = (if sz - i < PGSIZE then sz - i else PGSIZE) in
       andthen (readi ip (offset + i) n s) (\<lambda>(r, bs, s).
         let s = s\<lparr>pg := (pg s)\<lparr>k_mem := store_bytes (P2V pa) bs (k_mem (pg s))\<rparr>\<rparr> in
         if of_int r \<noteq> n then Inr (- 1, s) else loaduvm_loop pgdir addr ip offset sz is s))"

definition loaduvm :: "u32 \<Rightarrow> u32 \<Rightarrow> nat \<Rightarrow> u32 \<Rightarrow> u32 \<Rightarrow> ('d, 'z) sys_scheme \<Rightarrow> (int \<times> ('d, 'z) sys_scheme) result" where
  "loaduvm pgdir addr ip offset sz s =
    (if addr mod PGSIZE \<noteq> 0 then Inl (Panic ''loaduvm: addr must be page aligned'')
     else loaduvm_loop pgdir addr ip offset sz (page_addrs 0 sz) s)"

text \<open>The fields of \<open>struct elfhdr\<close> (52 bytes) and \<open>struct proghdr\<close> (32 bytes) that \<open>exec\<close> reads.\<close>

definition ELF_MAGIC :: u32 where "ELF_MAGIC = 0x464C457F"

definition ELF_PROG_LOAD :: u32 where "ELF_PROG_LOAD = 1"

record elfhdr =
  eh_magic :: u32
  eh_entry :: u32
  eh_phoff :: u32
  eh_phnum :: u16

definition elfhdr_of :: "u8 list \<Rightarrow> elfhdr" where
  "elfhdr_of d = \<lparr>eh_magic = get32 d 0, eh_entry = get32 d 24, eh_phoff = get32 d 28, eh_phnum = get16 d 44\<rparr>"

record proghdr =
  ph_type :: u32
  ph_off :: u32
  ph_vaddr :: u32
  ph_filesz :: u32
  ph_memsz :: u32

definition proghdr_of :: "u8 list \<Rightarrow> proghdr" where
  "proghdr_of d = \<lparr>ph_type = get32 d 0, ph_off = get32 d 4, ph_vaddr = get32 d 8, ph_filesz = get32 d 16, ph_memsz = get32 d 20\<rparr>"

text \<open>The loop over the program headers; \<open>n\<close> is the number of headers left.\<close>

fun exec_load :: "u32 \<Rightarrow> nat \<Rightarrow> u32 \<Rightarrow> nat \<Rightarrow> u32 \<Rightarrow> ('d, 'z) sys_scheme \<Rightarrow> (u32 option \<times> ('d, 'z) sys_scheme) result" where
  "exec_load pgdir ip off 0 sz s = Inr (Some sz, s)"
| "exec_load pgdir ip off (Suc n) sz s =
    andthen (readi ip off 32 s) (\<lambda>(r, d, s).
      let ph = proghdr_of d in
      if r \<noteq> 32 then Inr (None, s)
      else if ph_type ph \<noteq> ELF_PROG_LOAD then exec_load pgdir ip (off + 32) n sz s
      else if ph_memsz ph < ph_filesz ph then Inr (None, s)
      else if ph_vaddr ph + ph_memsz ph < ph_vaddr ph then Inr (None, s)
      else
        andthen (allocuvm pgdir sz (ph_vaddr ph + ph_memsz ph) (pg s)) (\<lambda>(sz, k).
          let s = s\<lparr>pg := k\<rparr> in
          if sz = 0 then Inr (None, s)
          else if ph_vaddr ph mod PGSIZE \<noteq> 0 then Inr (None, s)
          else
            andthen (loaduvm pgdir (ph_vaddr ph) ip (ph_off ph) (ph_filesz ph) s) (\<lambda>(r, s).
              if r < 0 then Inr (None, s) else exec_load pgdir ip (off + 32) n sz s)))"

section \<open>The user stack\<close>

text \<open>
  The argument strings from the top of the stack \<open>sp\<close> downwards; the result has \<open>argc\<close>, the stack pointer and the
  addresses \<open>ustack[3 .. 3 + argc)\<close>.
\<close>

fun exec_args ::
  "u32 \<Rightarrow> nat \<Rightarrow> u32 \<Rightarrow> u32 list \<Rightarrow> u8 list list \<Rightarrow> kmem \<Rightarrow> ((nat \<times> u32 \<times> u32 list) option \<times> kmem) result" where
  "exec_args pgdir argc sp ustack [] k = Inr (Some (argc, sp, ustack), k)"
| "exec_args pgdir argc sp ustack (arg # args) k =
    (if argc \<ge> MAXARG then Inr (None, k)
     else
       let sp = (sp - of_nat (length arg + 1)) AND NOT 3 in
       andthen (copyout pgdir sp (arg @ [0]) k) (\<lambda>(r, k).
         if r < 0 then Inr (None, k) else exec_args pgdir (argc + 1) sp (ustack @ [sp]) args k))"

text \<open>The array \<open>ustack\<close> as it is copied to the stack, and the new stack pointer.\<close>

definition exec_ustack :: "nat \<Rightarrow> u32 \<Rightarrow> u32 list \<Rightarrow> u8 list" where
  "exec_ustack argc sp ustack =
    concat (map le32 ([0xFFFFFFFF, of_nat argc, sp - of_nat ((argc + 1) * 4)] @ ustack @ [0]))"

definition exec_stack :: "u32 \<Rightarrow> u32 \<Rightarrow> u8 list list \<Rightarrow> kmem \<Rightarrow> (u32 option \<times> kmem) result" where
  "exec_stack pgdir sz argv k =
    andthen (exec_args pgdir 0 sz [] argv k) (\<lambda>(r, k).
      case r of
        None \<Rightarrow> Inr (None, k)
      | Some (argc, sp, ustack) \<Rightarrow>
          let sp' = sp - of_nat ((3 + argc + 1) * 4) in
          andthen (copyout pgdir sp' (exec_ustack argc sp ustack) k) (\<lambda>(r, k).
            Inr (if r < 0 then None else Some sp', k)))"

section \<open>exec\<close>

text \<open>The part of \<open>path\<close> after the last slash.\<close>

definition last_name :: "u8 list \<Rightarrow> u8 list" where
  "last_name path = rev (takeWhile (\<lambda>c. c \<noteq> slash) (rev path))"

text \<open>The code after the label \<open>bad\<close>: \<open>ip\<close> is \<open>None\<close> once it has been given up.\<close>

definition exec_bad :: "u32 \<Rightarrow> nat option \<Rightarrow> ('d, 'z) sys_scheme \<Rightarrow> (int \<times> ('d, 'z) sys_scheme) result" where
  "exec_bad pgdir ip s =
    andthen (if pgdir \<noteq> 0 then andthen (freevm pgdir (pg s)) (\<lambda>k. Inr (s\<lparr>pg := k\<rparr>)) else Inr s) (\<lambda>s.
      case ip of
        None \<Rightarrow> Inr (- 1, s)
      | Some ip \<Rightarrow> andthen (iunlockput ip s) (\<lambda>s. andthen (end_op s) (\<lambda>s. Inr (- 1, s))))"

text \<open>From the new image on: the commit to it, in the process \<open>i\<close>.\<close>

definition exec_commit :: "nat \<Rightarrow> u8 list \<Rightarrow> u32 \<Rightarrow> u32 \<Rightarrow> u32 \<Rightarrow> u32 \<Rightarrow> ('d, 'z) sys_scheme \<Rightarrow> (int \<times> ('d, 'z) sys_scheme) result" where
  "exec_commit i path pgdir sz entry sp s =
    (let oldpgdir = p_pgdir (ptable s ! i);
         s = upd_p i (\<lambda>p. set_name (last_name path)
           (p\<lparr>p_pgdir := pgdir, p_sz := sz, p_frame := (p_frame p)\<lparr>tf_eip := entry, tf_esp := sp\<rparr>\<rparr>)) s in
     andthen (switchuvm (p_kstack (ptable s ! i)) pgdir (hw s)) (\<lambda>h.
     andthen (freevm oldpgdir (pg s)) (\<lambda>k. Inr (0, s\<lparr>hw := h, pg := k\<rparr>))))"

text \<open>After the segments: the stack and its guard page, the arguments, the commit.\<close>

definition exec_finish :: "nat \<Rightarrow> u8 list \<Rightarrow> u8 list list \<Rightarrow> u32 \<Rightarrow> u32 \<Rightarrow> u32 \<Rightarrow> ('d, 'z) sys_scheme \<Rightarrow> (int \<times> ('d, 'z) sys_scheme) result" where
  "exec_finish i path argv pgdir sz entry s =
    andthen (allocuvm pgdir (PGROUNDUP sz) (PGROUNDUP sz + 2 * PGSIZE) (pg s)) (\<lambda>(sz, k).
      let s = s\<lparr>pg := k\<rparr> in
      if sz = 0 then exec_bad pgdir None s
      else
        andthen (clearpteu pgdir (sz - 2 * PGSIZE) (pg s)) (\<lambda>k.
        andthen (exec_stack pgdir sz argv k) (\<lambda>(r, k).
          let s = s\<lparr>pg := k\<rparr> in
          case r of None \<Rightarrow> exec_bad pgdir None s | Some sp \<Rightarrow> exec_commit i path pgdir sz entry sp s)))"

definition exec :: "nat \<Rightarrow> u8 list \<Rightarrow> u8 list list \<Rightarrow> ('d, 'z) sys_scheme \<Rightarrow> (int \<times> ('d, 'z) sys_scheme) result" where
  "exec i path argv s =
    andthen (begin_op s) (\<lambda>s.
    andthen (namei (u_cwd (curproc s)) path s) (\<lambda>(r, s).
      case r of
        None \<Rightarrow> andthen (end_op s) (\<lambda>s. Inr (- 1, s))
      | Some ip \<Rightarrow>
          andthen (ilock ip s) (\<lambda>s.
          andthen (readi ip 0 52 s) (\<lambda>(r, d, s).
            let elf = elfhdr_of d in
            if r \<noteq> 52 \<or> eh_magic elf \<noteq> ELF_MAGIC then exec_bad 0 (Some ip) s
            else
              andthen (setupkvm (kconf.truncate (image s)) (pg s)) (\<lambda>(pgdir, k).
                let s = s\<lparr>pg := k\<rparr> in
                if pgdir = 0 then exec_bad 0 (Some ip) s
                else
                  andthen (exec_load pgdir ip (eh_phoff elf) (unat (eh_phnum elf)) 0 s) (\<lambda>(r, s).
                    case r of
                      None \<Rightarrow> exec_bad pgdir (Some ip) s
                    | Some sz \<Rightarrow>
                        andthen (iunlockput ip s) (\<lambda>s.
                        andthen (end_op s) (exec_finish i path argv pgdir sz (eh_entry elf)))))))))"

section \<open>The system call\<close>

text \<open>The loop of \<open>sys_exec\<close>; \<open>n\<close> is the room left in \<open>argv\<close>.\<close>

fun sys_exec_args :: "uproc \<Rightarrow> u32 \<Rightarrow> nat \<Rightarrow> u8 list list option" where
  "sys_exec_args p uargv 0 = None"
| "sys_exec_args p uargv (Suc n) =
    Option.bind (fetchint p uargv) (\<lambda>uarg.
      if uarg = 0 then Some []
      else Option.bind (fetchstr p uarg) (\<lambda>arg. map_option (\<lambda>args. arg # args) (sys_exec_args p (uargv + 4) n)))"

definition sys_exec :: "nat \<Rightarrow> ('d, 'z) sys_scheme \<Rightarrow> (int \<times> ('d, 'z) sys_scheme) result" where
  "sys_exec i s =
    (case (argstr (curproc s) 0, argint (curproc s) 1) of
       (Some path, Some uargv) \<Rightarrow>
         (case sys_exec_args (curproc s) uargv MAXARG of
            None \<Rightarrow> Inr (- 1, s)
          | Some argv \<Rightarrow> exec i path argv s)
     | _ \<Rightarrow> Inr (- 1, s))"

end
