(* ===== verification/Syscall.thy ===== *)
theory Syscall
  imports Exec
begin

text \<open>
  Entry into the kernel: the system calls of \<open>src/xv6/sysproc.c\<close> and of the end of \<open>proc.c\<close>, the table and \<open>syscall\<close> of
  \<open>src/xv6/syscall.c\<close>, and \<open>trap\<close> of \<open>src/xv6/trap.c\<close>. Handlers take the index \<open>i\<close> of the current process. A handler ends
  by returning a value to the user, by giving up the processor in \<open>sleep\<close>, or with the process. The locks
  \<open>tickslock\<close> and \<open>ptable.lock\<close> bracket the accesses they protect and are left out; messages are not modelled.
\<close>

section \<open>State\<close>

text \<open>\<open>ticks_addr\<close> is the address \<open>&ticks\<close>, a sleep channel; \<open>this_cpu\<close> is the index of the processor in \<open>cpus\<close>.\<close>

record 'd kern = "'d sys" +
  ticks :: u32
  ticks_addr :: u32
  cpus :: "pcpu list"
  this_cpu :: nat

datatype outcome = Returns int | Sleeps | Exits

type_synonym ('d, 'z) handler = "nat \<Rightarrow> ('d, 'z) kern_scheme \<Rightarrow> (outcome \<times> ('d, 'z) kern_scheme) result"

definition returns :: "(int \<times> 's) result \<Rightarrow> (outcome \<times> 's) result" where
  "returns r = andthen r (\<lambda>(v, s). Inr (Returns v, s))"

section \<open>The current process\<close>

text \<open>
  The calls of the other theories work on \<open>curproc\<close>, what they use of the current process. It is filled from the
  process table when a system call begins, and what file calls change in it goes back at their end. The kernel runs
  on the page table of the process, so the byte at a user address is the byte of the page that the table maps there.
\<close>

definition user_page :: "u32 \<Rightarrow> u32 \<Rightarrow> 'z kmem_scheme \<Rightarrow> u32" where
  "user_page pgdir va k = P2V (PTE_ADDR (load32 (k_mem k) (fst (walkpgdir pgdir va False k))))"

definition enter_view :: "nat \<Rightarrow> ('d, 'z) kern_scheme \<Rightarrow> ('d, 'z) kern_scheme" where
  "enter_view i s =
    (let p = ptable s ! i
     in s\<lparr>cur_pid := p_pid p,
          curproc := \<lparr>u_sz = p_sz p, u_esp = tf_esp (p_frame p),
            u_mem = (\<lambda>va. k_mem (pg s) (user_page (p_pgdir p) va (pg s) + (va AND 0xFFF))),
            u_ofile = p_ofile p, u_cwd = (case p_cwd p of Some c \<Rightarrow> c | None \<Rightarrow> 0), u_killed = p_killed p\<rparr>\<rparr>)"

definition store_page :: "u32 \<Rightarrow> mem \<Rightarrow> u32 \<Rightarrow> 'z kmem_scheme \<Rightarrow> 'z kmem_scheme" where
  "store_page pgdir m va k = k\<lparr>k_mem := store_bytes (user_page pgdir va k) (load_bytes m va 4096) (k_mem k)\<rparr>"

definition leave_view :: "nat \<Rightarrow> ('d, 'z) kern_scheme \<Rightarrow> ('d, 'z) kern_scheme" where
  "leave_view i s =
    (let p = ptable s ! i; u = curproc s
     in upd_p i (\<lambda>p. p\<lparr>p_ofile := u_ofile u, p_cwd := Some (u_cwd u)\<rparr>)
          (s\<lparr>pg := fold (store_page (p_pgdir p) (u_mem u)) (page_addrs 0 (p_sz p)) (pg s)\<rparr>))"

definition file_call :: "(('d, 'z) kern_scheme \<Rightarrow> (int \<times> ('d, 'z) kern_scheme) result) \<Rightarrow> ('d, 'z) handler" where
  "file_call f i s = andthen (f s) (\<lambda>(v, s). Inr (Returns v, leave_view i s))"

section \<open>Processes\<close>

definition sys_fork :: "('d, 'z) handler" where
  "sys_fork i s = returns (fork i s)"

definition sys_exit :: "('d, 'z) handler" where
  "sys_exit i s = andthen (exit_proc i s) (\<lambda>s. Inr (Exits, s))"

definition sys_wait :: "('d, 'z) handler" where
  "sys_wait i s = andthen (wait i s) (\<lambda>(r, s). Inr (case r of Some pid \<Rightarrow> Returns pid | None \<Rightarrow> Sleeps, s))"

definition sys_kill :: "('d, 'z) handler" where
  "sys_kill i s =
    (case argint (curproc s) 0 of
       None \<Rightarrow> Inr (Returns (- 1), s)
     | Some pid \<Rightarrow> (case kill (sint pid) (ptable s) of (r, ps) \<Rightarrow> Inr (Returns r, s\<lparr>ptable := ps\<rparr>)))"

definition sys_getpid :: "('d, 'z) handler" where
  "sys_getpid i s = Inr (Returns (p_pid (ptable s ! i)), s)"

definition sys_sbrk :: "('d, 'z) handler" where
  "sys_sbrk i s =
    (case argint (curproc s) 0 of
       None \<Rightarrow> Inr (Returns (- 1), s)
     | Some n \<Rightarrow>
         let addr = p_sz (ptable s ! i) in
         andthen (growproc i n s) (\<lambda>(r, s). Inr (Returns (if r < 0 then - 1 else sint addr), s)))"

text \<open>One turn of the loop of \<open>sys_sleep\<close>, entered with \<open>ticks0 = ticks\<close> and again whenever the process wakes up.\<close>

definition sys_sleep_turn :: "u32 \<Rightarrow> u32 \<Rightarrow> ('d, 'z) handler" where
  "sys_sleep_turn ticks0 n i s =
    (if ticks s - ticks0 < n then
       if p_killed (ptable s ! i) then Inr (Returns (- 1), s)
       else andthen (sleep (Some i) (ticks_addr s) (ptable s)) (\<lambda>ps. Inr (Sleeps, s\<lparr>ptable := ps\<rparr>))
     else Inr (Returns 0, s))"

definition sys_sleep :: "('d, 'z) handler" where
  "sys_sleep i s =
    (case argint (curproc s) 0 of None \<Rightarrow> Inr (Returns (- 1), s) | Some n \<Rightarrow> sys_sleep_turn (ticks s) n i s)"

definition sys_uptime :: "('d, 'z) handler" where
  "sys_uptime i s = Inr (Returns (sint (ticks s)), s)"

definition sys_uthread_init :: "('d, 'z) handler" where
  "sys_uthread_init i s =
    (case argint (curproc s) 0 of
       None \<Rightarrow> Inr (Returns (- 1), s)
     | Some a \<Rightarrow> Inr (Returns 0, upd_p i (\<lambda>p. p\<lparr>p_scheduler := a, p_is_threaded := True\<rparr>) s))"

text \<open>\<open>sys_yield\<close> gives up the processor and returns 0 when the process runs again.\<close>

definition sys_yield :: "('d, 'z) handler" where
  "sys_yield i s = andthen (yield i (ptable s)) (\<lambda>ps. Inr (Returns 0, s\<lparr>ptable := ps\<rparr>))"

section \<open>Scheduling\<close>

fun state_code :: "procstate \<Rightarrow> int" where
  "state_code UNUSED = 0"
| "state_code EMBRYO = 1"
| "state_code SLEEPING = 2"
| "state_code RUNNABLE = 3"
| "state_code RUNNING = 4"
| "state_code ZOMBIE = 5"

text \<open>The bytes of \<open>struct pstat\<close>, 3072 of them.\<close>

definition pstat_bytes :: "pstat \<Rightarrow> u8 list" where
  "pstat_bytes ps =
    concat (map (\<lambda>v. le32 (of_int v)) (ps_inuse ps @ ps_pid ps @ ps_priority ps @ map state_code (ps_state ps) @
      concat (ps_ticks ps) @ concat (ps_wait_ticks ps)))"

definition sys_getpinfo :: "('d, 'z) handler" where
  "sys_getpinfo i s =
    (case argptr (curproc s) 0 3072 of
       None \<Rightarrow> Inr (Returns (- 1), s)
     | Some a \<Rightarrow>
         Inr (Returns 0, leave_view i (upd_proc (u_mem_update (store_bytes a (pstat_bytes (getpinfo (ptable s))))) s)))"

definition sys_setSchedPolicy :: "('d, 'z) handler" where
  "sys_setSchedPolicy i s =
    (case argint (curproc s) 0 of
       None \<Rightarrow> Inr (Returns (- 1), s)
     | Some policy \<Rightarrow>
         (case setSchedPolicy (sint policy) (cpus s ! this_cpu s) of
            (r, c) \<Rightarrow> Inr (Returns r, s\<lparr>cpus := (cpus s)[this_cpu s := c]\<rparr>)))"

section \<open>syscall\<close>

text \<open>The array \<open>syscalls\<close>; entry 0 is a null pointer.\<close>

definition syscalls :: "('d, 'z) handler option list" where
  "syscalls =
    [None, Some sys_fork, Some sys_exit, Some sys_wait, Some (file_call sys_pipe), Some (file_call sys_read),
     Some sys_kill, Some (\<lambda>i s. returns (sys_exec i s)), Some (file_call sys_fstat),
     Some (file_call sys_chdir), Some (file_call sys_dup), Some sys_getpid, Some sys_sbrk, Some sys_sleep,
     Some sys_uptime, Some (file_call sys_open), Some (file_call sys_write),
     Some (file_call sys_mknod), Some (file_call sys_unlink), Some (file_call sys_link),
     Some (file_call sys_mkdir), Some (file_call sys_close), Some sys_uthread_init, Some sys_getpinfo,
     Some sys_setSchedPolicy, Some sys_yield]"

definition set_eax :: "nat \<Rightarrow> int \<Rightarrow> ('d, 'z) kern_scheme \<Rightarrow> ('d, 'z) kern_scheme" where
  "set_eax i v s = upd_p i (p_frame_update (tf_eax_update (\<lambda>_. of_int v))) s"

definition syscall :: "('d, 'z) handler" where
  "syscall i s =
    (let num = sint (tf_eax (p_frame (ptable s ! i))); fs = syscalls in
     case (if num > 0 \<and> num < int (length fs) then fs ! nat num else None) of
       None \<Rightarrow> Inr (Returns (- 1), set_eax i (- 1) s)
     | Some f \<Rightarrow>
         andthen (f i (enter_view i s)) (\<lambda>(r, s). Inr (r, case r of Returns v \<Rightarrow> set_eax i v s | _ \<Rightarrow> s)))"

section \<open>trap\<close>

definition T_SYSCALL :: u32 where "T_SYSCALL = 64"

definition T_IRQ0 :: u32 where "T_IRQ0 = 32"

datatype device = Ide | Kbd | Com1 | Nic

text \<open>
  What a trap does to the process it interrupts. The interrupt handlers of the devices, which work on state of their
  own, are the argument \<open>dev\<close>; the call of the user's scheduler is \<open>call\<close>. \<open>cur\<close> is \<open>myproc()\<close>.
\<close>

definition killed_user :: "nat option \<Rightarrow> u16 \<Rightarrow> ('d, 'z) kern_scheme \<Rightarrow> bool" where
  "killed_user cur cs s = (case cur of None \<Rightarrow> False | Some i \<Rightarrow> p_killed (ptable s ! i) \<and> cs AND 3 = 3)"

definition trap_timer :: "(u32 \<Rightarrow> ('d, 'z) kern_scheme \<Rightarrow> ('d, 'z) kern_scheme result) \<Rightarrow> nat option \<Rightarrow>
    ('d, 'z) kern_scheme \<Rightarrow> ('d, 'z) kern_scheme result" where
  "trap_timer call cur s =
    (let s = (if this_cpu s = 0 then wakeup (ticks_addr s) (s\<lparr>ticks := ticks s + 1\<rparr>) else s) in
     case cur of
       None \<Rightarrow> Inr s
     | Some i \<Rightarrow>
         let p = ptable s ! i in
         if p_state p = RUNNING \<and> p_is_threaded p \<and> p_scheduler p \<noteq> 0 then call (p_scheduler p) s else Inr s)"

definition trap_switch :: "(u32 \<Rightarrow> ('d, 'z) kern_scheme \<Rightarrow> ('d, 'z) kern_scheme result) \<Rightarrow>
    (device \<Rightarrow> ('d, 'z) kern_scheme \<Rightarrow> ('d, 'z) kern_scheme result) \<Rightarrow> nat option \<Rightarrow> trapframe \<Rightarrow>
    ('d, 'z) kern_scheme \<Rightarrow> ('d, 'z) kern_scheme result" where
  "trap_switch call dev cur tf s =
    (if tf_trapno tf = T_IRQ0 then trap_timer call cur s
     else if tf_trapno tf = T_IRQ0 + 14 then dev Ide s
     else if tf_trapno tf = T_IRQ0 + 15 then Inr s
     else if tf_trapno tf = T_IRQ0 + 1 then dev Kbd s
     else if tf_trapno tf = T_IRQ0 + 4 then dev Com1 s
     else if tf_trapno tf = T_IRQ0 + 0xB then dev Nic s
     else if tf_trapno tf = T_IRQ0 + 31 then Inr s
     else
       case cur of
         None \<Rightarrow> Inl (Panic ''trap'')
       | Some i \<Rightarrow> if tf_cs tf AND 3 = 0 then Inl (Panic ''trap'') else Inr (upd_p i (p_killed_update (\<lambda>_. True)) s))"

text \<open>
  \<open>trap\<close> up to the return to the interrupted code or, after a timer interrupt, up to the switch in \<open>yield\<close>; the check
  after \<open>yield\<close> is \<open>trap_return\<close>, which runs when the process runs again.
\<close>

definition trap_return :: "nat option \<Rightarrow> trapframe \<Rightarrow> ('d, 'z) kern_scheme \<Rightarrow> (outcome \<times> ('d, 'z) kern_scheme) result" where
  "trap_return cur tf s =
    (if killed_user cur (tf_cs tf) s then sys_exit (the cur) s else Inr (Returns 0, s))"

definition trap_syscall :: "trapframe \<Rightarrow> ('d, 'z) handler" where
  "trap_syscall tf i s =
    (if p_killed (ptable s ! i) then sys_exit i s
     else
       andthen (syscall i (upd_p i (p_frame_update (\<lambda>_. tf)) s)) (\<lambda>(r, s).
         case r of
           Returns v \<Rightarrow> if p_killed (ptable s ! i) then sys_exit i s else Inr (r, s)
         | _ \<Rightarrow> Inr (r, s)))"

definition trap :: "(u32 \<Rightarrow> ('d, 'z) kern_scheme \<Rightarrow> ('d, 'z) kern_scheme result) \<Rightarrow>
    (device \<Rightarrow> ('d, 'z) kern_scheme \<Rightarrow> ('d, 'z) kern_scheme result) \<Rightarrow> nat option \<Rightarrow> trapframe \<Rightarrow>
    ('d, 'z) kern_scheme \<Rightarrow> (outcome \<times> ('d, 'z) kern_scheme) result" where
  "trap call dev cur tf s =
    (if tf_trapno tf = T_SYSCALL then
       (case cur of None \<Rightarrow> Inl (Undefined ''trap: myproc'') | Some i \<Rightarrow> trap_syscall tf i s)
     else
       andthen (trap_switch call dev cur tf s) (\<lambda>s.
         if killed_user cur (tf_cs tf) s then sys_exit (the cur) s
         else
           case cur of
             None \<Rightarrow> Inr (Returns 0, s)
           | Some i \<Rightarrow>
               if p_state (ptable s ! i) = RUNNING \<and> tf_trapno tf = T_IRQ0 then
                 andthen (timer_yield i (ptable s)) (\<lambda>ps. Inr (Sleeps, s\<lparr>ptable := ps\<rparr>))
               else trap_return cur tf s))"

section \<open>Killed processes\<close>

lemma sys_exit_outcome: "sys_exit i s = Inr (r, t) \<Longrightarrow> r = Exits"
  by (auto simp: sys_exit_def andthen_eq_Inr_iff)

lemma trap_syscall_killed:
  assumes "trap_syscall tf i s = Inr (Returns v, t)"
  shows "\<not> p_killed (ptable t ! i)"
  using assms
  by (auto simp: trap_syscall_def andthen_eq_Inr_iff split: if_splits outcome.splits dest: sys_exit_outcome)

lemma trap_return_killed:
  assumes "trap_return (Some i) tf s = Inr (Returns v, t)" "tf_cs tf AND 3 = 3"
  shows "\<not> p_killed (ptable t ! i)"
  using assms by (auto simp: trap_return_def killed_user_def split: if_splits dest: sys_exit_outcome)

text \<open>
  C16. A killed process does not go back to user mode. Whatever the trap, when \<open>trap\<close> returns to a process that it
  interrupted in user mode, or from a system call, the process is not marked as killed; this holds for every
  behaviour of the device handlers and of the user's scheduler, and also for the return of a process that runs
  again after a timer interrupt has taken the processor from it.
\<close>

theorem killed_never_returns:
  assumes "tf_trapno tf = T_SYSCALL \<or> tf_cs tf AND 3 = 3"
  shows "(\<forall>v t. trap call dev (Some i) tf s = Inr (Returns v, t) \<longrightarrow> \<not> p_killed (ptable t ! i)) \<and>
    (\<forall>v t. tf_trapno tf \<noteq> T_SYSCALL \<and> trap_return (Some i) tf s = Inr (Returns v, t) \<longrightarrow> \<not> p_killed (ptable t ! i))"
proof (intro conjI allI impI)
  fix v t
  assume r: "trap call dev (Some i) tf s = Inr (Returns v, t)"
  show "\<not> p_killed (ptable t ! i)"
  proof (cases "tf_trapno tf = T_SYSCALL")
    case True
    then show ?thesis using r by (auto simp: trap_def dest: trap_syscall_killed)
  next
    case False
    then have "tf_cs tf AND 3 = 3" using assms by simp
    then show ?thesis
      using r False
      by (auto simp: trap_def andthen_eq_Inr_iff split: if_splits dest: sys_exit_outcome trap_return_killed)
  qed
next
  fix v t
  assume "tf_trapno tf \<noteq> T_SYSCALL \<and> trap_return (Some i) tf s = Inr (Returns v, t)"
  then show "\<not> p_killed (ptable t ! i)" using assms trap_return_killed by blast
qed

text \<open>A system with one running process, number 42.\<close>

definition demo_user :: proc where
  "demo_user = \<lparr>p_sz = 4096, p_pgdir = 0, p_kstack = 0, p_state = RUNNING, p_pid = 42, p_parent = None, p_tf = 0,
     p_frame = zero_frame, p_context = 0, p_chan = 0, p_killed = False, p_ofile = [], p_cwd = None, p_name = [],
     p_scheduler = 0, p_is_threaded = False, p_priority = 3, p_ticks = [0, 0, 0, 0], p_wait_ticks = [0, 0, 0, 0]\<rparr>"

definition demo_kern :: "unit kern" where
  "demo_kern =
    \<lparr>memdisk = (\<lambda>_. replicate BSIZE 0), disksize = 1000, bcache = (\<lambda>_. zero_buf), cur_pid = 42, bio_writes = [],
     l_start = 2, l_size = 30, l_outstanding = 0, l_committing = False, l_dev = 1, lh_n = 0, lh_block = replicate LOGSIZE 0,
     fs_sb = \<lparr>sb_size = 1000, sb_nblocks = 900, sb_ninodes = 200, sb_nlog = 30, sb_logstart = 2, sb_inodestart = 32,
       sb_bmapstart = 45\<rparr>,
     icache = [], fs_devsw = (\<lambda>_. \<lparr>dev_read = None, dev_write = None\<rparr>), fs_dev = (), ftable = [],
     pg = \<lparr>k_mem = (\<lambda>_. 0), freelist = 0, use_lock = True, k_end = 0\<rparr>,
     pipes = (\<lambda>_. \<lparr>p_data = [], p_nread = 0, p_nwrite = 0, p_readopen = False, p_writeopen = False\<rparr>),
     curproc = \<lparr>u_sz = 4096, u_esp = 4000, u_mem = (\<lambda>_. 0), u_ofile = [], u_cwd = 0, u_killed = False\<rparr>,
     ptable = [demo_user], initproc = Some 0, nextpid = 43,
     image = \<lparr>kc_data = 0, kc_pvram_addr = 0, kc_vram_size = 0, ki_forkret = 0, ki_trapret = 0, ki_initcode = []\<rparr>,
     hw = \<lparr>cr3 = 0, ts_esp0 = 0\<rparr>, proc_addr = (\<lambda>_. 0), ticks = 0, ticks_addr = 0, cpus = [], this_cpu = 0\<rparr>"

theorem killed_never_returns_witness:
  "let tf = zero_frame\<lparr>tf_trapno := 64, tf_eax := 11, tf_cs := 27\<rparr> in
   \<exists>t. trap (\<lambda>_. Inr) (\<lambda>_. Inr) (Some 0) tf demo_kern = Inr (Returns 42, t) \<and> tf_eax (p_frame (ptable t ! 0)) = 42 \<and>
     \<not> p_killed (ptable t ! 0)"
proof -
  let ?tf = "zero_frame\<lparr>tf_trapno := 64, tf_eax := 11, tf_cs := 27\<rparr>"
  have "\<exists>t. trap (\<lambda>_. Inr) (\<lambda>_. Inr) (Some 0) ?tf demo_kern = Inr (Returns 42, t) \<and> tf_eax (p_frame (ptable t ! 0)) = 42"
    by (simp add: trap_def T_SYSCALL_def trap_syscall_def syscall_def syscalls_def sys_getpid_def set_eax_def upd_p_def
      upd_nth_def enter_view_def Let_def demo_kern_def demo_user_def)
  moreover have "tf_trapno ?tf = T_SYSCALL" by (simp add: T_SYSCALL_def)
  ultimately show ?thesis
    using killed_never_returns [of ?tf "\<lambda>_. Inr" "\<lambda>_. Inr" 0 demo_kern] by (auto simp: Let_def)
qed

end
