(* ===== verification/Ide.thy ===== *)
theory Ide
  imports Bio
begin

text \<open>
  The driver of the disk controller, \<open>src/xv6/ide.c\<close>: the queue of requests that \<open>iderw\<close> fills and the interrupt handler
  empties. The list that the fields \<open>qnext\<close> link from \<open>idequeue\<close> is a list of buffers. What the driver writes to the
  ports of the controller is recorded in \<open>ports\<close>; what it reads there, the status that ends the busy loop of
  \<open>idewait\<close> and the data of a block, are arguments. \<open>iderw\<close> is modelled up to its loop around \<open>sleep\<close>, whose exit condition
  is \<open>iderw_done\<close>. The lock \<open>idelock\<close> makes each function one atomic section.
\<close>

section \<open>State\<close>

datatype port_out = Outb u16 u8 | Outsl u16 "u8 list"

text \<open>\<open>ide_started\<close> and \<open>ide_woken\<close> are histories: the buffers handed to the controller, and those \<open>wakeup\<close> was called for.\<close>

record ide =
  idequeue :: "nat list"
  ibufs :: "nat \<Rightarrow> buf"
  havedisk1 :: bool
  ports :: "port_out list"
  ide_started :: "nat list"
  ide_woken :: "nat list"









section \<open>Operations\<close>


text \<open>The probe for disk 1: \<open>seen\<close> says whether one of the thousand readings of the status is not 0.\<close>

definition ideinit_ports :: "bool \<Rightarrow> ide \<Rightarrow> ide" where
  "ideinit_ports seen s =
    s\<lparr>ports := ports s @ [Outb 0x1F6 (0xE0 OR push_bit 4 1), Outb 0x1F6 (0xE0 OR push_bit 4 0)],
      havedisk1 := (if seen then True else havedisk1 s)\<rparr>"







section \<open>Runs\<close>













end
