(* ===== verification/Spec2Isabelle.thy ===== *)
theory Spec2Isabelle
  imports Spinlock Console Net Sched Grep Shell_Roundtrip Umalloc Uthread Usermem Mp Bitmap Syscall Ide
begin

text \<open>
  A verification development of the operating system under \<open>src/xv6\<close>: the kernel xv6 for 32-bit x86, started by a UEFI
  loader, with a multi-level feedback scheduler, user threads, a network stack for the card i8254 and a console on
  the frame buffer, and the larger of its user programs.

  \<^bold>\<open>The system.\<close> User programs enter the kernel through \<open>trap\<close> and \<open>syscall\<close>. File calls go from descriptors through the
  file table to pipes, devices and inodes; inodes go through the log and the buffer cache to the disk. Process
  calls work on the process table, the page tables and the page allocator. Interrupts drive the scheduler, the disk
  queue, the console input and the network. The theories follow these parts, and each imports the parts it calls.

  \<^bold>\<open>Conventions.\<close> C integers are words of their width, or \<open>int\<close> and \<open>nat\<close> where the code cannot overflow. A function
  that may fail to return has the type \<open>result\<close> of theory \<open>Prelude\<close>: \<open>Inl\<close> of a \<open>halt\<close> is a call of \<open>panic\<close>, a process
  that goes to sleep for good, undefined behaviour of C, a loop without end or a call of \<open>exit\<close>; \<open>Inr\<close> is the value
  and the new state. State is passed explicitly, in records that extend each other from the bottom up: \<open>bio\<close> (buffer
  cache), \<open>log\<close>, \<open>fs\<close>, \<open>files\<close>, \<open>sys\<close>, \<open>kern\<close>. A pointer into a table is an index. A spin lock that only brackets the
  accesses of one function is left out, which makes the function one atomic section; where interleaving matters
  there is a step relation.

  \<^bold>\<open>Foundations.\<close>
  \<^item> \<open>Prelude\<close>, \<open>Param\<close> (\<open>param.h\<close>), \<open>Memory\<close> (the address space), \<open>Mmu\<close> (\<open>mmu.h\<close>, \<open>memlayout.h\<close>), \<open>Linked\<close> and
    \<open>Ring\<close> (linked lists and ring buffers as the code uses them).
  \<^item> \<open>Cstring\<close> (\<open>string.c\<close>, \<open>ulib.c\<close>): \<open>memmove\<close> copies also between overlapping ranges; \<open>memset\<close> and \<open>safestrcpy\<close>
    do what their names say.
  \<^item> \<open>Printf\<close> (\<open>printf.c\<close>, \<open>cprintf\<close> of \<open>console.c\<close>): the number printed is the decimal representation, and \<open>atoi\<close>
    reads it back.

  \<^bold>\<open>Storage.\<close>
  \<^item> \<open>Sleeplock\<close>, \<open>Block_Store\<close>, \<open>Bio\<close> (\<open>sleeplock.c\<close>, \<open>bio.c\<close>, \<open>memide.c\<close>). The locale \<open>block_cache\<close> is what clients of
    the buffer cache rely on; \<open>Bio\<close> interprets it on \<open>bread\<close>, \<open>bwrite\<close> and \<open>brelse\<close>, over the doubly linked list.
  \<^item> \<open>Superblock\<close>, \<open>Log\<close> (\<open>log.c\<close>): a transaction is atomic when the machine stops after any of its disk writes, and
    recovery may itself be interrupted and repeated.
  \<^item> \<open>Balloc\<close>, \<open>Inode\<close>, \<open>Dir\<close> (\<open>fs.c\<close>): blocks, inodes, directories and paths. \<open>Contents\<close> shows that \<open>readi\<close> and \<open>writei\<close>
    refine an array of bytes, \<open>Bitmap\<close> that \<open>balloc\<close> returns a free block and marks it.
  \<^item> \<open>File\<close>, \<open>Usermem\<close>, \<open>Sysfile\<close> (\<open>file.c\<close>, \<open>syscall.c\<close>, \<open>sysfile.c\<close>): the file table and the file calls; the
    arguments that the kernel accepts lie in the memory of the process.
  \<^item> \<open>Pipe\<close> (\<open>pipe.c\<close>): the locale \<open>fifo\<close> of \<open>Ring\<close>, interpreted on the pipe buffer, gives that what is read is what was
    written, in order, under every interleaving.
  \<^item> \<open>Ide\<close> (\<open>ide.c\<close>): the disk queue serves requests in order and loses none.

  \<^bold>\<open>Memory and processes.\<close>
  \<^item> \<open>Page_Alloc\<close>, \<open>Kalloc\<close> (\<open>kalloc.c\<close>): the locale \<open>page_alloc\<close>, interpreted on the free list inside the pages; pages
    are handed out once.
  \<^item> \<open>Vm\<close>, \<open>Exec\<close> (\<open>vm.c\<close>, \<open>exec.c\<close>): page tables as words in memory, and the loading of programs.
  \<^item> \<open>Spinlock\<close> (\<open>spinlock.c\<close>): mutual exclusion over the steps of the processors.
  \<^item> \<open>Proc\<close>, \<open>Sched\<close> (\<open>proc.c\<close>): the process table; the relation \<open>smp_step\<close> interleaves the processors at the switches.
    A process runs on one processor at a time, no wakeup of \<open>wait\<close> is lost, the queues stay well formed, waiting
    processes rise, and the top queue is not fair.
  \<^item> \<open>Syscall\<close> (\<open>sysproc.c\<close>, \<open>syscall.c\<close>, \<open>trap.c\<close>): entry into the kernel; a killed process does not return to user mode.
  \<^item> \<open>Mp\<close> (\<open>mp_uefi.c\<close>): the processors found in the table of the firmware.

  \<^bold>\<open>Devices and network.\<close>
  \<^item> \<open>Font\<close>, \<open>Graphic\<close>, \<open>Kbd\<close>, \<open>Console\<close> (\<open>font.c\<close>, \<open>font_bin.h\<close>, \<open>graphic.c\<close>, \<open>kbd.c\<close>, \<open>console.c\<close>).
  \<^item> \<open>Net\<close> (\<open>eth.c\<close>, \<open>arp.c\<close>, \<open>ipv4.c\<close>, \<open>icmp.c\<close>, \<open>tcp.c\<close>, \<open>http.c\<close>, the transmit ring of \<open>i8254.c\<close>): the echo reply and
    its checksums, the address table, byte order, and where these go wrong.

  \<^bold>\<open>User programs.\<close>
  \<^item> \<open>Grep\<close>, \<open>Shell\<close>, \<open>Shell_Roundtrip\<close> (\<open>grep.c\<close>, \<open>sh.c\<close>): the matcher decides the language of the pattern; the parser
    ends on every line and reads back every printed command.
  \<^item> \<open>Umalloc\<close> (\<open>umalloc.c\<close>): the allocator refines a pool of free units.
  \<^item> \<open>Uthread\<close> (\<open>uthread1.c\<close>, \<open>uthread3.c\<close>, \<open>uthread4.c\<close>, \<open>uthread_switch.S\<close>): the switch at the level of registers saves
    and restores a thread; the layout of \<open>uthread4\<close> does not fit it.

  \<^bold>\<open>Bounds and fuel.\<close> Recursion is structural or has a termination proof, with these exceptions. The parser of the shell
  has the depth \<open>parse_fuel\<close>, four times the rest of the line plus one; \<open>parsecmd_terminates\<close> shows that it suffices,
  because every fourth call consumes a byte. Loops that C lets run for ever are partial functions, with \<open>None\<close> for a
  loop that does not end: the searches of \<open>bget\<close>, which the laws of \<open>block_cache\<close> show to end on a well-formed list; the
  searches of \<open>free\<close> and \<open>malloc\<close>, which \<open>malloc_refines_pool\<close> shows to end; the loops over strings, which end at a
  NUL; and the loop of \<open>mpinit_uefi\<close>, of which \<open>mpinit_reads_table\<close> says on which tables it ends. A loop of
  \<open>deallocuvm\<close> whose address wraps around has the result \<open>Diverge\<close>. Loops around \<open>sleep\<close> are modelled one turn at a
  time.

  \<^bold>\<open>Not modelled.\<close>
  \<^item> Assembly other than \<open>thread_switch\<close>, and the descriptor tables of the processor: the models of \<open>trap\<close> and of the
    scheduler begin and end at it.
  \<^item> Device registers (\<open>lapic.c\<close>, \<open>ioapic.c\<close>, \<open>picirq.c\<close>, \<open>uart.c\<close>, \<open>pci.c\<close>, the initialisation and the receive side of
    \<open>i8254.c\<close>): what they do is hardware. The answers of the disk controller and the handlers that \<open>trap\<close> calls are
    parameters.
  \<^item> The loader (\<open>src/MyLoaderPkg\<close>) and the generated files of its build: calls of firmware services.
  \<^item> \<open>main.c\<close>, the boot block, \<open>mp.c\<close> (not linked), \<open>mkfs.c\<close> (a program of the host) and the programs that only make
    system calls and print, the tests among them.
  \<^item> Messages on the console other than what \<open>printf\<close> and \<open>cprintf\<close> themselves put out.
\<close>

end
